(* ===== verification/VD_Prelude.thy ===== *)
theory VD_Prelude
  imports Main "HOL-Library.Word"
begin

text \<open>
  Shared vocabulary of the development: the fixed-width integer types of
  src/src/volumedriver/Types.h, the exceptions the modelled code throws as values of a
  datatype, the result type with its sequencing operator, and the list lemmas that several
  components use.
\<close>

subsection \<open>Types\<close>

type_synonym u8 = "8 word"
type_synonym u16 = "16 word"
type_synonym u32 = "32 word"
type_synonym u64 = "64 word"

text \<open>\<open>youtils::UUID\<close> is a 16 byte value; TLog ids, corks and scrub ids are UUIDs.\<close>

type_synonym uuid = "128 word"

subsection \<open>Exceptions as values\<close>

text \<open>
  One constructor per exception class. \<open>IOException\<close> carries the message literal of the
  \<^verbatim>\<open>throw\<close>; \<open>AssertFailed\<close> is the \<^verbatim>\<open>fungi::IOException\<close> that \<^verbatim>\<open>VERIFY\<close> and
  \<^verbatim>\<open>THROW_UNLESS\<close> raise (src/src/youtils/Assert.h), kept apart so that a theorem can say
  that no assertion of the code fires.
\<close>

text \<open>The exceptions of src/src/backend/BackendException.h that the modelled code throws or catches.\<close>

datatype backend_error =
    Client
  | Backend
  | Fatal
  | Store
  | Restore
  | ObjectDoesNotExist
  | ObjectExists
  | Input
  | Output
  | CouldNotCreateNamespace
  | CouldNotDeleteNamespace
  | CouldNotClearNamespace
  | NamespaceAlreadyExists
  | NamespaceDoesNotExist
  | ConnectFailure
  | ConnectionTimeout
  | StreamClosed
  | NotImplemented
  | UnAuthorized
  | NoMultiBackendAvailable
  | AssertionFailed

datatype vd_error =
    IOException string
  | AssertFailed string
  | InvalidEntryException
  | SnapshotNotFoundException
  | SnapshotNameAlreadyExists
  | ExcessiveMetaDataException
  | CorkNotOnBackendException
  | CorkNotFoundException
  | SerializationVersionException
  | MetaDataStoreBackendException
  | BackendException backend_error
  | ScrubberException
  | UndefinedBehaviour

type_synonym 'a result = "vd_error + 'a"

text \<open>Sequencing: the first exception wins, as it would unwind the C++ stack.\<close>

fun rbind :: "'a result \<Rightarrow> ('a \<Rightarrow> 'b result) \<Rightarrow> 'b result" where
  "rbind (Inl e) f = Inl e"
| "rbind (Inr x) f = f x"

definition verify :: "bool \<Rightarrow> string \<Rightarrow> unit result" where
  "verify b msg = (if b then Inr () else Inl (AssertFailed msg))"

named_theorems vd_defs \<open>unfoldings of the operations of the model\<close>
named_theorems vd_inv \<open>preservation of the components' invariants\<close>

subsection \<open>Lemmas on results\<close>

lemma rbind_Inr_iff [simp]:
  "rbind m f = Inr y \<longleftrightarrow> (\<exists>x. m = Inr x \<and> f x = Inr y)"
  by (cases m) auto

lemma rbind_Inl_iff:
  "rbind m f = Inl e \<longleftrightarrow> m = Inl e \<or> (\<exists>x. m = Inr x \<and> f x = Inl e)"
  by (cases m) auto

lemma verify_Inr_iff [simp]: "verify b msg = Inr u \<longleftrightarrow> b"
  by (simp add: verify_def)

lemma verify_Inl_iff [simp]: "verify b msg = Inl e \<longleftrightarrow> \<not> b \<and> e = AssertFailed msg"
  by (auto simp: verify_def)

subsection \<open>Lemmas on lists\<close>

lemma takeWhile_append_all:
  "(\<forall>x \<in> set xs. P x) \<Longrightarrow> takeWhile P (xs @ ys) = xs @ takeWhile P ys"
  by (induction xs) auto

lemma takeWhile_append_not_all:
  "\<exists>x \<in> set xs. \<not> P x \<Longrightarrow> takeWhile P (xs @ ys) = takeWhile P xs"
  by (induction xs) auto

lemma dropWhile_Cons_not:
  "dropWhile P xs = y # ys \<Longrightarrow> \<not> P y"
  by (metis dropWhile_eq_Cons_conv)

lemma dropWhile_split:
  "dropWhile P xs = y # ys \<Longrightarrow> xs = takeWhile P xs @ y # ys"
  by (metis takeWhile_dropWhile_id)

subsection \<open>Lemmas on words\<close>

lemma unat_bound: "unat (w :: 'a::len word) < 2 ^ LENGTH('a)"
  by (rule unsigned_less)

lemma ucast_down_up:
  "LENGTH('a) \<le> LENGTH('b) \<Longrightarrow> ucast (ucast (w :: 'a::len word) :: 'b::len word) = w"
  by (auto intro!: bit_word_eqI simp: bit_simps)

end
