(* ===== verification/TLogs.thy ===== *)
theory TLogs
  imports VD_Prelude
begin

text \<open>
  The transaction log bookkeeping of src/src/volumedriver/TLog.h and TLog.cpp: a \<open>TLog\<close> is an
  id, a flag that says whether the log has reached the backend, and the backend size it stands
  for; \<open>TLogs\<close> is an ordered list of them (oldest first). Out-parameters of the C++ methods
  (\<^verbatim>\<open>OrderedTLogIds&\<close>) are an argument and part of the result: the methods append to them.
\<close>

subsection \<open>TLog\<close>

record tlog =
  tl_id :: uuid
  written_to_backend :: bool
  tl_size :: u64

type_synonym tlogs = "tlog list"

definition TLog_new :: "uuid \<Rightarrow> tlog" where
  "TLog_new tlog_id = \<lparr>tl_id = tlog_id, written_to_backend = False, tl_size = 0\<rparr>"

definition add_to_backend_size :: "u64 \<Rightarrow> tlog \<Rightarrow> tlog" where
  "add_to_backend_size s t = t\<lparr>tl_size := tl_size t + s\<rparr>"

subsection \<open>TLogs\<close>

fun tlogsOnBackend :: "tlogs \<Rightarrow> tlogs" where
  "tlogsOnBackend [] = []"
| "tlogsOnBackend (t # ts) =
     (if written_to_backend t then t # tlogsOnBackend ts else [])"

fun getOrderedTLogIds :: "tlogs \<Rightarrow> uuid list \<Rightarrow> uuid list" where
  "getOrderedTLogIds [] out = out"
| "getOrderedTLogIds (t # ts) out = getOrderedTLogIds ts (out @ [tl_id t])"

definition getReverseOrderedTLogIds :: "tlogs \<Rightarrow> uuid list \<Rightarrow> uuid list" where
  "getReverseOrderedTLogIds ts out = getOrderedTLogIds (rev ts) out"

fun TLogs_tlogReferenced :: "uuid \<Rightarrow> tlogs \<Rightarrow> bool" where
  "TLogs_tlogReferenced tlog_id [] = False"
| "TLogs_tlogReferenced tlog_id (t # ts) =
     (if tl_id t = tlog_id then True else TLogs_tlogReferenced tlog_id ts)"

definition TLogs_replace :: "tlogs \<Rightarrow> uuid list \<Rightarrow> tlogs \<Rightarrow> tlogs result" where
  "TLogs_replace self ins outs =
     (if length ins \<noteq> length self
      then Inl (IOException ''In tlogs not equal to out ones'')
      else if \<exists>i < length self. tl_id (self ! i) \<noteq> ins ! i
      then Inl (IOException ''In tlogs not equal to out ones'')
      else if length outs = 0
      then Inl (IOException ''Result of a scrub cannot be empty, refusing replace'')
      else Inr outs)"

definition TLogs_snip :: "uuid \<Rightarrow> u64 option \<Rightarrow> tlogs \<Rightarrow> bool \<times> tlogs" where
  "TLogs_snip tlog_id backend_size ts =
     (case dropWhile (\<lambda>t. tl_id t \<noteq> tlog_id) ts of
        [] \<Rightarrow> (False, ts)
      | it # _ \<Rightarrow>
          (True, takeWhile (\<lambda>t. tl_id t \<noteq> tlog_id) ts @
                 [case backend_size of None \<Rightarrow> it | Some s \<Rightarrow> it\<lparr>tl_size := s\<rparr>]))"

fun TLogs_setTLogWrittenToBackend :: "uuid \<Rightarrow> bool \<Rightarrow> tlogs \<Rightarrow> (bool \<times> tlogs) result" where
  "TLogs_setTLogWrittenToBackend tid on_backend [] = Inr (False, [])"
| "TLogs_setTLogWrittenToBackend tid on_backend (t # ts) =
     (if tl_id t = tid then Inr (True, t\<lparr>written_to_backend := on_backend\<rparr> # ts)
      else if on_backend \<and> \<not> written_to_backend t
      then Inl (IOException ''unexpected state written_to_backend == false'')
      else rbind (TLogs_setTLogWrittenToBackend tid on_backend ts)
             (\<lambda>(found, ts'). Inr (found, t # ts')))"

text \<open>\<^verbatim>\<open>boost::tribool\<close>: \<open>None\<close> is indeterminate.\<close>

definition TLogs_isTLogWrittenToBackend :: "uuid \<Rightarrow> tlogs \<Rightarrow> bool option" where
  "TLogs_isTLogWrittenToBackend tid ts =
     (case dropWhile (\<lambda>t. tl_id t \<noteq> tid) ts of
        [] \<Rightarrow> None
      | it # _ \<Rightarrow> Some (written_to_backend it))"

fun TLogs_writtenToBackend :: "tlogs \<Rightarrow> bool" where
  "TLogs_writtenToBackend [] = True"
| "TLogs_writtenToBackend (t # ts) =
     (if \<not> written_to_backend t then False else TLogs_writtenToBackend ts)"

fun TLogs_checkAndGetAllTLogsWrittenToBackendAndRemoveLaterOnes ::
  "tlogs \<Rightarrow> uuid list \<Rightarrow> uuid option \<times> uuid list \<times> tlogs" where
  "TLogs_checkAndGetAllTLogsWrittenToBackendAndRemoveLaterOnes [] vec = (None, vec, [])"
| "TLogs_checkAndGetAllTLogsWrittenToBackendAndRemoveLaterOnes (t # ts) vec =
     (if written_to_backend t
      then (case TLogs_checkAndGetAllTLogsWrittenToBackendAndRemoveLaterOnes ts (vec @ [tl_id t]) of
              (r, vec', ts') \<Rightarrow> (r, vec', t # ts'))
      else (Some (tl_id t), vec, []))"

text \<open>
  The loop of \<open>getReversedTLogsOnBackendSinceLastCork\<close> runs over the reversed list; it
  carries \<open>seen_written_to_backend\<close> and the ids collected so far.
\<close>

fun reversed_since_cork_loop ::
  "uuid option \<Rightarrow> bool \<Rightarrow> tlogs \<Rightarrow> uuid list \<Rightarrow> (bool \<times> uuid list) result" where
  "reversed_since_cork_loop cork seen [] vec = Inr (False, vec)"
| "reversed_since_cork_loop cork seen (t # ts) vec =
     (if cork \<noteq> None \<and> tl_id t = the cork
      then (if \<not> written_to_backend t then Inl CorkNotOnBackendException else Inr (True, vec))
      else if written_to_backend t
      then reversed_since_cork_loop cork True ts (vec @ [tl_id t])
      else rbind (verify (\<not> seen) ''not seen_written_to_backend'')
             (\<lambda>_. reversed_since_cork_loop cork seen ts vec))"

definition TLogs_getReversedTLogsOnBackendSinceLastCork ::
  "uuid option \<Rightarrow> tlogs \<Rightarrow> uuid list \<Rightarrow> (bool \<times> uuid list) result" where
  "TLogs_getReversedTLogsOnBackendSinceLastCork cork ts reverse_vec =
     reversed_since_cork_loop cork False (rev ts) reverse_vec"

fun TLogs_backend_size_loop :: "tlogs \<Rightarrow> u64 \<Rightarrow> u64" where
  "TLogs_backend_size_loop [] s = s"
| "TLogs_backend_size_loop (t # ts) s = TLogs_backend_size_loop ts (s + tl_size t)"

definition TLogs_backend_size :: "tlogs \<Rightarrow> u64" where
  "TLogs_backend_size ts = TLogs_backend_size_loop ts 0"

subsection \<open>The order invariant\<close>

text \<open>
  TLogs reach the backend oldest first: no written TLog follows an unwritten one. This is what
  \<open>SnapshotPersistor::verifySanity_\<close> checks when the metadata is loaded.
\<close>

fun written_prefix :: "tlogs \<Rightarrow> bool" where
  "written_prefix [] = True"
| "written_prefix (t # ts) =
     (if written_to_backend t then written_prefix ts
      else (\<forall>t' \<in> set ts. \<not> written_to_backend t'))"

subsection \<open>Loops against their list functions\<close>

lemma tlogsOnBackend_takeWhile: "tlogsOnBackend ts = takeWhile written_to_backend ts"
  by (induction ts) auto

lemma getOrderedTLogIds_map [simp]: "getOrderedTLogIds ts out = out @ map tl_id ts"
  by (induction ts arbitrary: out) auto

lemma getReverseOrderedTLogIds_map [simp]:
  "getReverseOrderedTLogIds ts out = out @ rev (map tl_id ts)"
  by (simp add: getReverseOrderedTLogIds_def rev_map)

lemma TLogs_tlogReferenced_iff [simp]:
  "TLogs_tlogReferenced i ts \<longleftrightarrow> i \<in> tl_id ` set ts"
  by (induction ts) auto

lemma TLogs_writtenToBackend_iff [simp]:
  "TLogs_writtenToBackend ts \<longleftrightarrow> (\<forall>t \<in> set ts. written_to_backend t)"
  by (induction ts) auto

lemma TLogs_backend_size_loop_sum:
  "TLogs_backend_size_loop ts s = s + sum_list (map tl_size ts)"
  by (induction ts arbitrary: s) (auto simp: algebra_simps)

lemma TLogs_backend_size_sum: "TLogs_backend_size ts = sum_list (map tl_size ts)"
  by (simp add: TLogs_backend_size_def TLogs_backend_size_loop_sum)

lemma TLogs_checkAndGet_takeWhile:
  "TLogs_checkAndGetAllTLogsWrittenToBackendAndRemoveLaterOnes ts vec =
     (map_option tl_id (find (\<lambda>t. \<not> written_to_backend t) ts),
      vec @ map tl_id (takeWhile written_to_backend ts),
      takeWhile written_to_backend ts)"
  by (induction ts arbitrary: vec) auto

subsection \<open>written_prefix\<close>

lemma written_prefix_all_written:
  "\<forall>t \<in> set ts. written_to_backend t \<Longrightarrow> written_prefix ts"
  by (induction ts) auto

lemma written_prefix_all_unwritten:
  "\<forall>t \<in> set ts. \<not> written_to_backend t \<Longrightarrow> written_prefix ts"
  by (induction ts) auto

lemma written_prefix_append:
  "written_prefix (xs @ ys) \<longleftrightarrow>
     written_prefix xs \<and> written_prefix ys \<and>
     ((\<exists>x \<in> set xs. \<not> written_to_backend x) \<longrightarrow> (\<forall>y \<in> set ys. \<not> written_to_backend y))"
  by (induction xs) (auto intro: written_prefix_all_unwritten)

lemma written_prefix_snoc_new [simp]:
  "written_prefix (ts @ [TLog_new i]) \<longleftrightarrow> written_prefix ts"
  by (auto simp: written_prefix_append TLog_new_def)

end
