(* ===== verification/Snapshots.thy ===== *)
theory Snapshots
  imports TLogs
begin

text \<open>
  Snapshots of a volume, src/src/volumedriver/Snapshot.h and Snapshot.cpp. A \<open>Snapshot\<close> is a
  \<open>TLogs\<close> list with a number, a name and bookkeeping; \<open>Snapshots\<close> is the list of them, oldest
  first. C++ iterators into the list are positions, \<^verbatim>\<open>end()\<close> being the length of the list.
\<close>

subsection \<open>Snapshot\<close>

record snapshot =
  snap_tlogs :: tlogs
  snap_num :: u64
  snap_name :: string
  snap_uuid :: uuid
  snap_metadata :: "8 word list"
  scrubbed :: bool
  snap_date :: string
  cork_uuid :: uuid

type_synonym snapshots = "snapshot list"

text \<open>
  The constructor. The clock (\<open>date\<close>) and the random UUID that a snapshot without TLogs gets as
  its cork (\<open>fresh\<close>) come from outside.
\<close>

definition Snapshot_new ::
  "u64 \<Rightarrow> string \<Rightarrow> tlogs \<Rightarrow> 8 word list \<Rightarrow> uuid \<Rightarrow> bool \<Rightarrow> string \<Rightarrow> uuid \<Rightarrow> snapshot" where
  "Snapshot_new i_num i_name ts metadata u set_scrubbed date fresh =
     \<lparr>snap_tlogs = ts, snap_num = i_num, snap_name = i_name, snap_uuid = u,
      snap_metadata = metadata, scrubbed = set_scrubbed, snap_date = date,
      cork_uuid = (if ts = [] then fresh else tl_id (last ts))\<rparr>"

definition inBackend :: "snapshot \<Rightarrow> bool" where
  "inBackend s = list_all written_to_backend (snap_tlogs s)"

definition Snapshot_getReversedTLogsOnBackendSinceLastCork ::
  "uuid option \<Rightarrow> snapshot \<Rightarrow> uuid list \<Rightarrow> (bool \<times> uuid list) result" where
  "Snapshot_getReversedTLogsOnBackendSinceLastCork cork s reverse_vec =
     (if cork \<noteq> None \<and> cork_uuid s = the cork \<and> TLogs_writtenToBackend (snap_tlogs s)
      then Inr (True, reverse_vec)
      else TLogs_getReversedTLogsOnBackendSinceLastCork cork (snap_tlogs s) reverse_vec)"

definition Snapshot_backend_size :: "snapshot \<Rightarrow> u64" where
  "Snapshot_backend_size s = TLogs_backend_size_loop (snap_tlogs s) 0"

subsection \<open>Snapshots: lookups\<close>

fun Snapshots_tlogReferenced :: "uuid \<Rightarrow> snapshots \<Rightarrow> bool" where
  "Snapshots_tlogReferenced tlog_id [] = False"
| "Snapshots_tlogReferenced tlog_id (s # ss) =
     (if TLogs_tlogReferenced tlog_id (snap_tlogs s) then True
      else Snapshots_tlogReferenced tlog_id ss)"

fun Snapshots_setTLogWrittenToBackend ::
  "uuid \<Rightarrow> bool \<Rightarrow> snapshots \<Rightarrow> (bool \<times> snapshots) result" where
  "Snapshots_setTLogWrittenToBackend tid on_backend [] = Inr (False, [])"
| "Snapshots_setTLogWrittenToBackend tid on_backend (s # ss) =
     rbind (TLogs_setTLogWrittenToBackend tid on_backend (snap_tlogs s))
       (\<lambda>(found, ts).
          if found then Inr (True, s\<lparr>snap_tlogs := ts\<rparr> # ss)
          else rbind (Snapshots_setTLogWrittenToBackend tid on_backend ss)
                 (\<lambda>(found', ss'). Inr (found', s # ss')))"

fun Snapshots_isTLogWrittenToBackend :: "uuid \<Rightarrow> snapshots \<Rightarrow> bool" where
  "Snapshots_isTLogWrittenToBackend tid [] = False"
| "Snapshots_isTLogWrittenToBackend tid (s # ss) =
     (case TLogs_isTLogWrittenToBackend tid (snap_tlogs s) of
        Some True \<Rightarrow> True
      | Some False \<Rightarrow> False
      | None \<Rightarrow> Snapshots_isTLogWrittenToBackend tid ss)"

text \<open>\<open>find_\<close> as an iterator: the position of the first match, or the length of the list.\<close>

definition find_pos :: "('a \<Rightarrow> bool) \<Rightarrow> 'a list \<Rightarrow> nat" where
  "find_pos P xs = length (takeWhile (\<lambda>x. \<not> P x) xs)"

definition find_by_name :: "string \<Rightarrow> snapshots \<Rightarrow> nat" where
  "find_by_name n ss = find_pos (\<lambda>s. snap_name s = n) ss"

definition find_by_num :: "u64 \<Rightarrow> snapshots \<Rightarrow> nat" where
  "find_by_num n ss = find_pos (\<lambda>s. snap_num s = n) ss"

definition find_by_uuid :: "uuid \<Rightarrow> snapshots \<Rightarrow> nat" where
  "find_by_uuid u ss = find_pos (\<lambda>s. snap_uuid s = u) ss"

definition find_or_throw :: "nat \<Rightarrow> snapshots \<Rightarrow> nat result" where
  "find_or_throw it ss = (if it = length ss then Inl SnapshotNotFoundException else Inr it)"

definition Snapshots_getTLogsInSnapshot ::
  "u64 \<Rightarrow> snapshots \<Rightarrow> uuid list \<Rightarrow> bool \<times> uuid list" where
  "Snapshots_getTLogsInSnapshot n ss out =
     (let it = find_by_num n ss
      in if it = length ss then (False, out)
         else (True, getOrderedTLogIds (snap_tlogs (ss ! it)) out))"

definition Snapshots_checkSnapshotUUID :: "string \<Rightarrow> uuid \<Rightarrow> snapshots \<Rightarrow> bool" where
  "Snapshots_checkSnapshotUUID n u ss =
     (let it = find_by_name n ss
      in if it = length ss then False else snap_uuid (ss ! it) = u)"

definition getNextSnapshotNum :: "snapshots \<Rightarrow> u64" where
  "getNextSnapshotNum ss = (if ss = [] then 0 else snap_num (last ss) + 1)"

definition Snapshots_snapshotExists :: "string \<Rightarrow> snapshots \<Rightarrow> bool" where
  "Snapshots_snapshotExists n ss = (find_by_name n ss \<noteq> length ss)"

definition Snapshots_snapshotExists_num :: "u64 \<Rightarrow> snapshots \<Rightarrow> bool" where
  "Snapshots_snapshotExists_num n ss = (find_by_num n ss \<noteq> length ss)"

definition Snapshots_hasSnapshotWithUUID :: "uuid \<Rightarrow> snapshots \<Rightarrow> bool" where
  "Snapshots_hasSnapshotWithUUID u ss = (find_by_uuid u ss \<noteq> length ss)"

definition Snapshots_getSnapshot :: "string \<Rightarrow> snapshots \<Rightarrow> snapshot result" where
  "Snapshots_getSnapshot n ss =
     rbind (find_or_throw (find_by_name n ss) ss) (\<lambda>it. Inr (ss ! it))"

definition Snapshots_getSnapshot_num :: "u64 \<Rightarrow> snapshots \<Rightarrow> snapshot result" where
  "Snapshots_getSnapshot_num n ss =
     rbind (find_or_throw (find_by_num n ss) ss) (\<lambda>it. Inr (ss ! it))"

definition Snapshots_getSnapshot_uuid :: "uuid \<Rightarrow> snapshots \<Rightarrow> snapshot result" where
  "Snapshots_getSnapshot_uuid u ss =
     rbind (find_or_throw (find_by_uuid u ss) ss) (\<lambda>it. Inr (ss ! it))"

subsection \<open>Snapshots: backend sizes\<close>

fun total_backend_size_loop :: "snapshots \<Rightarrow> u64 \<Rightarrow> u64" where
  "total_backend_size_loop [] result = result"
| "total_backend_size_loop (s # ss) result =
     total_backend_size_loop ss (result + Snapshot_backend_size s)"

definition Snapshots_getTotalBackendSize :: "snapshots \<Rightarrow> u64" where
  "Snapshots_getTotalBackendSize ss = total_backend_size_loop ss 0"

text \<open>The iterator loop from \<open>it\<close> (with the list from there on) to \<open>stop\<close>.\<close>

fun backend_size_loop :: "snapshots \<Rightarrow> nat \<Rightarrow> nat \<Rightarrow> u64 \<Rightarrow> u64 result" where
  "backend_size_loop [] it stop result =
     (if it = stop then Inr result else Inl (IOException ''Wrong args for getBackendSize()!!!''))"
| "backend_size_loop (s # ss) it stop result =
     (if it = stop then Inr result
      else backend_size_loop ss (Suc it) stop (result + Snapshot_backend_size s))"

definition Snapshots_getBackendSize :: "string \<Rightarrow> string option \<Rightarrow> snapshots \<Rightarrow> u64 result" where
  "Snapshots_getBackendSize end_snapshot start_snapshot ss =
     rbind (verify (length ss > 0) ''size() > 0'') (\<lambda>_.
     let start = (case start_snapshot of Some n \<Rightarrow> find_by_name n ss | None \<Rightarrow> 0)
     in rbind (verify (start \<noteq> length ss) ''start != end()'') (\<lambda>_.
     let start' = (if start_snapshot \<noteq> None then Suc start else start);
         stop = find_by_name end_snapshot ss
     in rbind (verify (stop \<noteq> length ss) ''stop != end()'') (\<lambda>_.
     backend_size_loop (drop start' ss) start' (Suc stop) 0)))"

subsection \<open>Snapshots: ranges\<close>

fun Snapshots_getSnapshotsTill :: "u64 \<Rightarrow> bool \<Rightarrow> snapshots \<Rightarrow> u64 list \<Rightarrow> u64 list result" where
  "Snapshots_getSnapshotsTill n including [] out = Inl SnapshotNotFoundException"
| "Snapshots_getSnapshotsTill n including (s # ss) out =
     (if snap_num s = n then Inr (if including then out @ [snap_num s] else out)
      else Snapshots_getSnapshotsTill n including ss (out @ [snap_num s]))"

fun snapshots_after_loop :: "u64 \<Rightarrow> snapshots \<Rightarrow> u64 list \<Rightarrow> u64 list result" where
  "snapshots_after_loop n [] out = Inl SnapshotNotFoundException"
| "snapshots_after_loop n (s # ss) out =
     (if snap_num s = n then Inr (rev out)
      else snapshots_after_loop n ss (out @ [snap_num s]))"

definition Snapshots_getSnapshotsAfter :: "u64 \<Rightarrow> snapshots \<Rightarrow> u64 list \<Rightarrow> u64 list result" where
  "Snapshots_getSnapshotsAfter n ss out = snapshots_after_loop n (rev ss) out"

fun Snapshots_getTLogsTillSnapshot ::
  "u64 \<Rightarrow> snapshots \<Rightarrow> uuid list \<Rightarrow> uuid list result" where
  "Snapshots_getTLogsTillSnapshot n [] out = Inl SnapshotNotFoundException"
| "Snapshots_getTLogsTillSnapshot n (s # ss) out =
     (if snap_num s = n then Inr (getOrderedTLogIds (snap_tlogs s) out)
      else Snapshots_getTLogsTillSnapshot n ss (getOrderedTLogIds (snap_tlogs s) out))"

fun tlogs_after_loop :: "u64 \<Rightarrow> snapshots \<Rightarrow> uuid list \<Rightarrow> uuid list result" where
  "tlogs_after_loop n [] out = Inl SnapshotNotFoundException"
| "tlogs_after_loop n (s # ss) out =
     (if snap_num s = n then Inr (rev out)
      else tlogs_after_loop n ss (getReverseOrderedTLogIds (snap_tlogs s) out))"

definition Snapshots_getTLogsAfterSnapshot ::
  "u64 \<Rightarrow> snapshots \<Rightarrow> uuid list \<Rightarrow> uuid list result" where
  "Snapshots_getTLogsAfterSnapshot n ss out = tlogs_after_loop n (rev ss) out"

fun tlogs_between_loop ::
  "u64 \<Rightarrow> u64 \<Rightarrow> bool \<Rightarrow> bool \<Rightarrow> snapshots \<Rightarrow> uuid list \<Rightarrow> uuid list result" where
  "tlogs_between_loop start end_snap include_last start_seen [] out = Inl SnapshotNotFoundException"
| "tlogs_between_loop start end_snap include_last start_seen (i # is) out =
     (let seen = (if snap_num i = start then True else start_seen)
      in if snap_num i > start \<and> snap_num i < end_snap
         then (if \<not> seen then Inl SnapshotNotFoundException
               else tlogs_between_loop start end_snap include_last seen is
                      (getOrderedTLogIds (snap_tlogs i) out))
         else if snap_num i = end_snap
         then (if \<not> seen then Inl SnapshotNotFoundException
               else Inr (if include_last then getOrderedTLogIds (snap_tlogs i) out else out))
         else tlogs_between_loop start end_snap include_last seen is out)"

definition Snapshots_getTLogsBetweenSnapshots ::
  "u64 \<Rightarrow> u64 \<Rightarrow> bool \<Rightarrow> snapshots \<Rightarrow> uuid list \<Rightarrow> uuid list result" where
  "Snapshots_getTLogsBetweenSnapshots start end_snap include_last ss out =
     (if start > end_snap then Inl (IOException ''Snapshots passed are not correctly ordered'')
      else tlogs_between_loop start end_snap include_last False ss out)"

fun Snapshots_getAllSnapshots :: "snapshots \<Rightarrow> u64 list \<Rightarrow> u64 list" where
  "Snapshots_getAllSnapshots [] out = out"
| "Snapshots_getAllSnapshots (s # ss) out = Snapshots_getAllSnapshots ss (out @ [snap_num s])"

subsection \<open>Snapshots: updates\<close>

definition Snapshots_deleteSnapshot ::
  "u64 \<Rightarrow> snapshots \<Rightarrow> tlogs \<Rightarrow> (snapshots \<times> tlogs) result" where
  "Snapshots_deleteSnapshot n ss io =
     rbind (find_or_throw (find_by_num n ss) ss) (\<lambda>it.
       let it2 = Suc it
       in if it2 = length ss
          then Inr (take it ss, snap_tlogs (ss ! it) @ io)
          else Inr (take it ss @
                    (ss ! it2)\<lparr>snap_tlogs := snap_tlogs (ss ! it) @ snap_tlogs (ss ! it2),
                               scrubbed := False\<rparr> # drop (Suc it2) ss, io))"

fun splice_loop :: "snapshot \<Rightarrow> snapshots \<Rightarrow> snapshot" where
  "splice_loop the_last [] = the_last"
| "splice_loop the_last (it # its) =
     splice_loop (the_last\<lparr>snap_tlogs := snap_tlogs it @ snap_tlogs the_last,
                           scrubbed := False\<rparr>) its"

definition Snapshots_deleteAllButLastSnapshot :: "snapshots \<Rightarrow> snapshots result" where
  "Snapshots_deleteAllButLastSnapshot ss =
     (case rev ss of
        [] \<Rightarrow> Inl (AssertFailed ''the_last != rend()'')
      | the_last # others \<Rightarrow> Inr [splice_loop the_last others])"

fun Snapshots_snip :: "uuid \<Rightarrow> u64 option \<Rightarrow> snapshots \<Rightarrow> bool \<times> snapshots" where
  "Snapshots_snip tlog_id backend_size [] = (False, [])"
| "Snapshots_snip tlog_id backend_size (s # ss) =
     (case TLogs_snip tlog_id backend_size (snap_tlogs s) of
        (found, ts) \<Rightarrow>
          if found then (True, [s\<lparr>snap_tlogs := ts\<rparr>])
          else (case Snapshots_snip tlog_id backend_size ss of
                  (found', ss') \<Rightarrow> (found', s\<lparr>snap_tlogs := ts\<rparr> # ss')))"

definition Snapshots_deleteTLogsAndSnapshotsAfterSnapshot ::
  "u64 \<Rightarrow> snapshots \<Rightarrow> snapshots result" where
  "Snapshots_deleteTLogsAndSnapshotsAfterSnapshot n ss =
     rbind (find_or_throw (find_by_num n ss) ss) (\<lambda>i. Inr (take (Suc i) ss))"

definition already_replaced :: "tlogs \<Rightarrow> tlogs \<Rightarrow> bool" where
  "already_replaced vec ts = (length vec \<noteq> 0 \<and> length vec = length ts \<and> ts = vec)"

definition Snapshots_replace ::
  "uuid list \<Rightarrow> tlogs \<Rightarrow> u64 \<Rightarrow> snapshots \<Rightarrow> snapshots result" where
  "Snapshots_replace ins outs n ss =
     rbind (verify (list_all written_to_backend outs) ''t.writtenToBackend()'') (\<lambda>_.
     rbind (find_or_throw (find_by_num n ss) ss) (\<lambda>i.
       if already_replaced outs (snap_tlogs (ss ! i)) then Inr ss
       else rbind (TLogs_replace (snap_tlogs (ss ! i)) ins outs) (\<lambda>ts.
              Inr (ss[i := (ss ! i)\<lparr>snap_tlogs := ts\<rparr>]))))"

subsection \<open>Snapshots: scrubbing work\<close>

text \<open>The first loop of \<open>getSnapshotScrubbingWork\<close>; \<open>i\<close> is the position of the iterator.\<close>

fun scrub_range_loop ::
  "string option \<Rightarrow> string option \<Rightarrow> snapshots \<Rightarrow> nat \<Rightarrow> nat option \<Rightarrow> nat option \<Rightarrow>
     (nat option \<times> nat option) result" where
  "scrub_range_loop start_snap end_snap [] i sit eit = Inr (sit, eit)"
| "scrub_range_loop start_snap end_snap (s # ss) i sit eit =
     rbind (if start_snap = Some (snap_name s)
            then rbind (verify (sit = None) ''sit == boost::none'') (\<lambda>_.
                   if eit \<noteq> None
                   then Inl (IOException ''Requested end snapshot precedes requested start snapshot'')
                   else Inr (Some (Suc i)))
            else Inr sit) (\<lambda>sit'.
     rbind (if end_snap = Some (snap_name s)
            then rbind (verify (eit = None) ''eit == boost::none'') (\<lambda>_. Inr (Some (Suc i)))
            else Inr eit) (\<lambda>eit'.
     scrub_range_loop start_snap end_snap ss (Suc i) sit' eit'))"

fun scrub_work_loop :: "snapshots \<Rightarrow> string list \<Rightarrow> string list" where
  "scrub_work_loop [] out = out"
| "scrub_work_loop (s # ss) out =
     (if \<not> scrubbed s \<and> TLogs_writtenToBackend (snap_tlogs s)
      then scrub_work_loop ss (out @ [snap_name s])
      else scrub_work_loop ss out)"

definition Snapshots_getSnapshotScrubbingWork ::
  "string option \<Rightarrow> string option \<Rightarrow> snapshots \<Rightarrow> string list \<Rightarrow> string list result" where
  "Snapshots_getSnapshotScrubbingWork start_snap end_snap ss out =
     rbind (if start_snap \<noteq> None \<or> end_snap \<noteq> None
            then scrub_range_loop start_snap end_snap ss 0 None None
            else Inr (None, None)) (\<lambda>(sit, eit).
       if sit = None \<and> start_snap \<noteq> None then Inl SnapshotNotFoundException
       else if eit = None \<and> end_snap \<noteq> None then Inl SnapshotNotFoundException
       else let b = (case sit of None \<Rightarrow> 0 | Some i \<Rightarrow> i);
                e = (case eit of None \<Rightarrow> length ss | Some i \<Rightarrow> i)
            in Inr (scrub_work_loop (drop b (take e ss)) out))"

subsection \<open>The TLogs of a snapshot list\<close>

definition snapshots_tlogs :: "snapshots \<Rightarrow> tlogs" where
  "snapshots_tlogs ss = concat (map snap_tlogs ss)"

lemma snapshots_tlogs_simps [simp]:
  "snapshots_tlogs [] = []"
  "snapshots_tlogs (s # ss) = snap_tlogs s @ snapshots_tlogs ss"
  "snapshots_tlogs (xs @ ys) = snapshots_tlogs xs @ snapshots_tlogs ys"
  by (simp_all add: snapshots_tlogs_def)

subsection \<open>Positions\<close>

lemma find_pos_le: "find_pos P xs \<le> length xs"
  by (simp add: find_pos_def length_takeWhile_le)

lemma find_pos_lt_iff: "find_pos P xs \<noteq> length xs \<longleftrightarrow> (\<exists>x \<in> set xs. P x)"
  unfolding find_pos_def by (induction xs) auto

lemma find_pos_less: "find_pos P xs \<noteq> length xs \<Longrightarrow> find_pos P xs < length xs"
  using find_pos_le le_neq_implies_less by blast

lemma find_pos_nth: "find_pos P xs \<noteq> length xs \<Longrightarrow> P (xs ! find_pos P xs)"
  using find_pos_less [of P xs] nth_length_takeWhile [of "\<lambda>x. \<not> P x" xs]
  by (simp add: find_pos_def)

lemma find_pos_before: "i < find_pos P xs \<Longrightarrow> \<not> P (xs ! i)"
  unfolding find_pos_def by (induction xs arbitrary: i) (auto simp: nth_Cons' split: if_splits)

lemma split_at_find_pos:
  assumes "find_pos P xs \<noteq> length xs"
  shows "xs = take (find_pos P xs) xs @ xs ! find_pos P xs # drop (Suc (find_pos P xs)) xs"
  using find_pos_less [OF assms] by (simp add: id_take_nth_drop)

lemma find_or_throw_Inr_iff [simp]: "find_or_throw it ss = Inr i \<longleftrightarrow> it \<noteq> length ss \<and> i = it"
  by (auto simp: find_or_throw_def)

lemma find_or_throw_Inl_iff [simp]:
  "find_or_throw it ss = Inl e \<longleftrightarrow> it = length ss \<and> e = SnapshotNotFoundException"
  by (auto simp: find_or_throw_def)

lemmas find_by_defs = find_by_name_def find_by_num_def find_by_uuid_def

subsection \<open>Loops against their list functions\<close>

lemma inBackend_iff: "inBackend s \<longleftrightarrow> (\<forall>t \<in> set (snap_tlogs s). written_to_backend t)"
  by (simp add: inBackend_def list_all_iff)

lemma Snapshots_tlogReferenced_iff [simp]:
  "Snapshots_tlogReferenced i ss \<longleftrightarrow> i \<in> tl_id ` set (snapshots_tlogs ss)"
  by (induction ss) auto

lemma Snapshots_getAllSnapshots_map [simp]:
  "Snapshots_getAllSnapshots ss out = out @ map snap_num ss"
  by (induction ss arbitrary: out) auto

lemma scrub_work_loop_filter:
  "scrub_work_loop ss out =
     out @ map snap_name (filter (\<lambda>s. \<not> scrubbed s \<and> TLogs_writtenToBackend (snap_tlogs s)) ss)"
  by (induction ss arbitrary: out) auto

lemma splice_loop_tlogs:
  "snap_tlogs (splice_loop l its) = snapshots_tlogs (rev its) @ snap_tlogs l"
  by (induction its arbitrary: l) auto

lemma total_backend_size_loop_sum:
  "total_backend_size_loop ss r = r + TLogs_backend_size (snapshots_tlogs ss)"
  by (induction ss arbitrary: r)
    (auto simp: Snapshot_backend_size_def TLogs_backend_size_loop_sum TLogs_backend_size_sum
      algebra_simps)

lemma Snapshots_getTotalBackendSize_sum:
  "Snapshots_getTotalBackendSize ss = TLogs_backend_size (snapshots_tlogs ss)"
  by (simp add: Snapshots_getTotalBackendSize_def total_backend_size_loop_sum)

lemma getTLogsTill_split:
  assumes "n \<notin> snap_num ` set xs" and "snap_num s = n"
  shows "Snapshots_getTLogsTillSnapshot n (xs @ s # ys) out =
           Inr (out @ map tl_id (snapshots_tlogs (xs @ [s])))"
  using assms by (induction xs arbitrary: out) auto

lemma tlogs_after_loop_split:
  assumes "n \<notin> snap_num ` set xs" and "snap_num s = n"
  shows "tlogs_after_loop n (rev xs @ s # ys) out =
           Inr (map tl_id (snapshots_tlogs xs) @ rev out)"
  using assms by (induction xs arbitrary: out rule: rev_induct) auto

end
