(* ===== verification/Snapshot_Persistor.thy ===== *)
theory Snapshot_Persistor
  imports Snapshots
begin

text \<open>
  The snapshot and TLog database of a volume, src/src/volumedriver/SnapshotPersistor.h and
  SnapshotPersistor.cpp (what is stored as snapshots.xml): the list of snapshots, the TLogs written
  since the last one (\<open>current\<close>), the parent of a clone and the id of the last scrub. Random UUIDs
  (a new TLog's id, a scrub id) and the clock are arguments. Reading and writing the XML archive is
  boost serialization and is not modelled; the check that follows a load, \<open>verifySanity_\<close>, is.
\<close>

subsection \<open>State\<close>

record parent_config =
  parent_nspace :: string
  parent_snapshot :: string

record persistor =
  sp_current :: tlogs
  sp_snapshots :: snapshots
  sp_parent :: "parent_config option"
  sp_scrub_id :: uuid

definition max_snapshot_metadata_size :: nat where
  "max_snapshot_metadata_size = 4096"

subsection \<open>Operations\<close>

definition SP_newTLog :: "uuid \<Rightarrow> persistor \<Rightarrow> persistor" where
  "SP_newTLog fresh p = p\<lparr>sp_current := sp_current p @ [TLog_new fresh]\<rparr>"

definition SP_new :: "parent_config option \<Rightarrow> uuid \<Rightarrow> uuid \<Rightarrow> persistor" where
  "SP_new par fresh sid =
     SP_newTLog fresh \<lparr>sp_current = [], sp_snapshots = [], sp_parent = par, sp_scrub_id = sid\<rparr>"

definition SP_isSnapshotInBackend :: "u64 \<Rightarrow> persistor \<Rightarrow> bool result" where
  "SP_isSnapshotInBackend n p =
     rbind (Snapshots_getSnapshot_num n (sp_snapshots p)) (\<lambda>s. Inr (inBackend s))"

definition SP_setTLogWrittenToBackend :: "uuid \<Rightarrow> bool \<Rightarrow> persistor \<Rightarrow> persistor result" where
  "SP_setTLogWrittenToBackend tlogid on_backend p =
     rbind (Snapshots_setTLogWrittenToBackend tlogid on_backend (sp_snapshots p)) (\<lambda>(found, ss).
       if \<not> found
       then rbind (TLogs_setTLogWrittenToBackend tlogid on_backend (sp_current p)) (\<lambda>(_, ts).
              Inr (p\<lparr>sp_current := ts\<rparr>))
       else Inr (p\<lparr>sp_snapshots := ss\<rparr>))"

definition SP_isTLogWrittenToBackend :: "uuid \<Rightarrow> persistor \<Rightarrow> bool" where
  "SP_isTLogWrittenToBackend tlogid p =
     (case TLogs_isTLogWrittenToBackend tlogid (sp_current p) of
        Some b \<Rightarrow> b
      | None \<Rightarrow> Snapshots_isTLogWrittenToBackend tlogid (sp_snapshots p))"

fun current_written_loop :: "bool \<Rightarrow> tlogs \<Rightarrow> uuid list \<Rightarrow> uuid list" where
  "current_written_loop want [] out = out"
| "current_written_loop want (t # ts) out =
     current_written_loop want ts
       (if written_to_backend t = want then out @ [tl_id t] else out)"

definition SP_getCurrentTLogsWrittenToBackend :: "persistor \<Rightarrow> uuid list \<Rightarrow> uuid list" where
  "SP_getCurrentTLogsWrittenToBackend p out = current_written_loop True (sp_current p) out"

definition SP_getCurrentTLogsNotWrittenToBackend :: "persistor \<Rightarrow> uuid list \<Rightarrow> uuid list" where
  "SP_getCurrentTLogsNotWrittenToBackend p out = current_written_loop False (sp_current p) out"

definition SP_getCurrentTLogs :: "persistor \<Rightarrow> uuid list \<Rightarrow> uuid list" where
  "SP_getCurrentTLogs p out = getOrderedTLogIds (sp_current p) out"

definition SP_getCurrentTLog :: "persistor \<Rightarrow> uuid result" where
  "SP_getCurrentTLog p =
     rbind (verify (sp_current p \<noteq> []) ''!current.empty()'') (\<lambda>_. Inr (tl_id (last (sp_current p))))"

definition SP_getTLogsInSnapshot :: "u64 \<Rightarrow> persistor \<Rightarrow> uuid list \<Rightarrow> bool \<times> uuid list" where
  "SP_getTLogsInSnapshot n p out = Snapshots_getTLogsInSnapshot n (sp_snapshots p) out"

fun all_tlogs_loop :: "persistor \<Rightarrow> u64 list \<Rightarrow> uuid list \<Rightarrow> uuid list" where
  "all_tlogs_loop p [] vec = vec"
| "all_tlogs_loop p (n # ns) vec = all_tlogs_loop p ns (snd (SP_getTLogsInSnapshot n p vec))"

definition SP_getAllTLogs :: "bool \<Rightarrow> persistor \<Rightarrow> uuid list \<Rightarrow> uuid list" where
  "SP_getAllTLogs with_current p vec =
     (let snaps = sort (Snapshots_getAllSnapshots (sp_snapshots p) []);
          vec' = all_tlogs_loop p snaps vec
      in if with_current then SP_getCurrentTLogs p vec' else vec')"

text \<open>
  The common loop of \<open>getTLogsNotWrittenToBackend\<close> and \<open>getTLogsWrittenToBackend\<close>; \<open>want\<close> tells
  which of the two, \<open>ok\<close> is \<open>no_non_written_tlog_seen\<close>.
\<close>

fun written_split_loop ::
  "persistor \<Rightarrow> bool \<Rightarrow> bool \<Rightarrow> uuid list \<Rightarrow> uuid list \<Rightarrow> uuid list result" where
  "written_split_loop p want ok [] out = Inr out"
| "written_split_loop p want ok (i # is) out =
     (if SP_isTLogWrittenToBackend i p
      then rbind (verify ok ''no_non_written_tlog_seen'') (\<lambda>_.
             written_split_loop p want ok is (if want then out @ [i] else out))
      else written_split_loop p want False is (if want then out else out @ [i]))"

definition SP_getTLogsNotWrittenToBackend :: "persistor \<Rightarrow> uuid list \<Rightarrow> uuid list result" where
  "SP_getTLogsNotWrittenToBackend p out =
     written_split_loop p False True (SP_getAllTLogs True p []) out"

definition SP_getTLogsWrittenToBackend :: "persistor \<Rightarrow> uuid list \<Rightarrow> uuid list result" where
  "SP_getTLogsWrittenToBackend p out =
     written_split_loop p True True (SP_getAllTLogs True p []) out"

definition SP_snapshotExists :: "string \<Rightarrow> persistor \<Rightarrow> bool" where
  "SP_snapshotExists n p = Snapshots_snapshotExists n (sp_snapshots p)"

definition SP_snapshot ::
  "string \<Rightarrow> 8 word list \<Rightarrow> uuid \<Rightarrow> bool \<Rightarrow> string \<Rightarrow> uuid \<Rightarrow> uuid \<Rightarrow> persistor \<Rightarrow> persistor result" where
  "SP_snapshot n metadata u create_scrubbed date fresh_cork fresh p =
     (if SP_snapshotExists n p then Inl SnapshotNameAlreadyExists
      else if length metadata > max_snapshot_metadata_size then Inl ExcessiveMetaDataException
      else let s = Snapshot_new (getNextSnapshotNum (sp_snapshots p)) n (sp_current p) metadata u
                     create_scrubbed date fresh_cork
           in Inr (SP_newTLog fresh
                (p\<lparr>sp_snapshots := sp_snapshots p @ [s], sp_current := []\<rparr>)))"

definition SP_checkSnapshotUUID :: "string \<Rightarrow> uuid \<Rightarrow> persistor \<Rightarrow> bool" where
  "SP_checkSnapshotUUID n u p = Snapshots_checkSnapshotUUID n u (sp_snapshots p)"

definition SP_getSnapshotNum :: "string \<Rightarrow> persistor \<Rightarrow> u64 result" where
  "SP_getSnapshotNum n p =
     rbind (Snapshots_getSnapshot n (sp_snapshots p)) (\<lambda>s. Inr (snap_num s))"

definition SP_getSnapshotName :: "u64 \<Rightarrow> persistor \<Rightarrow> string result" where
  "SP_getSnapshotName n p =
     rbind (Snapshots_getSnapshot_num n (sp_snapshots p)) (\<lambda>s. Inr (snap_name s))"

definition SP_deleteSnapshot :: "u64 \<Rightarrow> persistor \<Rightarrow> persistor result" where
  "SP_deleteSnapshot n p =
     rbind (Snapshots_deleteSnapshot n (sp_snapshots p) (sp_current p)) (\<lambda>(ss, cur).
       Inr (p\<lparr>sp_snapshots := ss, sp_current := cur\<rparr>))"

definition SP_deleteAllButLastSnapshot :: "persistor \<Rightarrow> persistor result" where
  "SP_deleteAllButLastSnapshot p =
     rbind (Snapshots_deleteAllButLastSnapshot (sp_snapshots p)) (\<lambda>ss. Inr (p\<lparr>sp_snapshots := ss\<rparr>))"

definition SP_getTLogsTillSnapshot :: "u64 \<Rightarrow> persistor \<Rightarrow> uuid list \<Rightarrow> uuid list result" where
  "SP_getTLogsTillSnapshot n p out = Snapshots_getTLogsTillSnapshot n (sp_snapshots p) out"

definition SP_getTLogsAfterSnapshot :: "u64 \<Rightarrow> persistor \<Rightarrow> uuid list \<Rightarrow> uuid list result" where
  "SP_getTLogsAfterSnapshot n p out =
     rbind (Snapshots_getTLogsAfterSnapshot n (sp_snapshots p) out) (\<lambda>out'.
       Inr (getOrderedTLogIds (sp_current p) out'))"

definition SP_deleteTLogsAndSnapshotsAfterSnapshot ::
  "u64 \<Rightarrow> uuid \<Rightarrow> persistor \<Rightarrow> persistor result" where
  "SP_deleteTLogsAndSnapshotsAfterSnapshot n fresh p =
     rbind (Snapshots_deleteTLogsAndSnapshotsAfterSnapshot n (sp_snapshots p)) (\<lambda>ss.
       Inr (SP_newTLog fresh (p\<lparr>sp_snapshots := ss, sp_current := []\<rparr>)))"

definition SP_snip :: "uuid \<Rightarrow> u64 option \<Rightarrow> persistor \<Rightarrow> bool \<times> persistor" where
  "SP_snip tlog_id backend_size p =
     (case Snapshots_snip tlog_id backend_size (sp_snapshots p) of
        (True, ss) \<Rightarrow>
          (True, p\<lparr>sp_current := snap_tlogs (last ss), sp_snapshots := butlast ss\<rparr>)
      | (False, ss) \<Rightarrow>
          (case TLogs_snip tlog_id backend_size (sp_current p) of
             (found, ts) \<Rightarrow> (found, p\<lparr>sp_snapshots := ss, sp_current := ts\<rparr>)))"

definition SP_tlogReferenced :: "uuid \<Rightarrow> persistor \<Rightarrow> bool" where
  "SP_tlogReferenced tlog_id p =
     (Snapshots_tlogReferenced tlog_id (sp_snapshots p) \<or> TLogs_tlogReferenced tlog_id (sp_current p))"

definition SP_new_scrub_id :: "uuid \<Rightarrow> persistor \<Rightarrow> persistor" where
  "SP_new_scrub_id fresh p = p\<lparr>sp_scrub_id := fresh\<rparr>"

definition SP_replace ::
  "uuid list \<Rightarrow> tlogs \<Rightarrow> u64 \<Rightarrow> uuid \<Rightarrow> persistor \<Rightarrow> (uuid \<times> persistor) result" where
  "SP_replace ins outs n fresh p =
     rbind (Snapshots_replace ins outs n (sp_snapshots p)) (\<lambda>ss.
       Inr (fresh, SP_new_scrub_id fresh (p\<lparr>sp_snapshots := ss\<rparr>)))"

definition SP_getSnapshotScrubbed :: "u64 \<Rightarrow> bool \<Rightarrow> persistor \<Rightarrow> bool result" where
  "SP_getSnapshotScrubbed n nothrow p =
     (if \<not> Snapshots_snapshotExists_num n (sp_snapshots p)
      then (if nothrow then Inr True else Inl (IOException ''Snapshot does not exist''))
      else rbind (Snapshots_getSnapshot_num n (sp_snapshots p)) (\<lambda>s. Inr (scrubbed s)))"

definition SP_setSnapshotScrubbed :: "u64 \<Rightarrow> bool \<Rightarrow> persistor \<Rightarrow> persistor result" where
  "SP_setSnapshotScrubbed n b p =
     rbind (find_or_throw (find_by_num n (sp_snapshots p)) (sp_snapshots p)) (\<lambda>i.
       Inr (p\<lparr>sp_snapshots := (sp_snapshots p)[i := (sp_snapshots p ! i)\<lparr>scrubbed := b\<rparr>]\<rparr>))"

text \<open>The loop over the snapshots, newest first, of \<open>getTLogsOnBackendSinceLastCork\<close>.\<close>

fun since_cork_snapshots_loop ::
  "uuid option \<Rightarrow> snapshots \<Rightarrow> uuid list \<Rightarrow> (bool \<times> uuid list) result" where
  "since_cork_snapshots_loop cork [] names = Inr (False, names)"
| "since_cork_snapshots_loop cork (s # ss) names =
     rbind (Snapshot_getReversedTLogsOnBackendSinceLastCork cork s names) (\<lambda>(found, names').
       if found then Inr (True, names') else since_cork_snapshots_loop cork ss names')"

definition SP_getTLogsOnBackendSinceLastCork ::
  "uuid option \<Rightarrow> uuid option \<Rightarrow> persistor \<Rightarrow> uuid list result" where
  "SP_getTLogsOnBackendSinceLastCork cork implicit_start_cork p =
     rbind (verify ((sp_parent p \<noteq> None \<and> implicit_start_cork \<noteq> None) \<or>
                    (sp_parent p = None \<and> implicit_start_cork = None)) ''parent_ and implicit_start_cork'') (\<lambda>_.
     rbind (TLogs_getReversedTLogsOnBackendSinceLastCork cork (sp_current p) []) (\<lambda>(found, names).
       if found then Inr (rev names)
       else rbind (since_cork_snapshots_loop cork (rev (sp_snapshots p)) names) (\<lambda>(found', names').
              if found' then Inr (rev names')
              else if cork = implicit_start_cork then Inr (rev names')
              else Inl CorkNotFoundException)))"

fun last_cork_current_loop :: "tlogs \<Rightarrow> uuid option" where
  "last_cork_current_loop [] = None"
| "last_cork_current_loop (t # ts) =
     (if written_to_backend t then Some (tl_id t) else last_cork_current_loop ts)"

fun last_cork_snapshots_loop :: "snapshots \<Rightarrow> uuid option" where
  "last_cork_snapshots_loop [] = None"
| "last_cork_snapshots_loop (s # ss) =
     (if TLogs_writtenToBackend (snap_tlogs s) then Some (cork_uuid s)
      else last_cork_snapshots_loop ss)"

definition SP_lastCork :: "persistor \<Rightarrow> uuid option" where
  "SP_lastCork p =
     (case last_cork_current_loop (rev (sp_current p)) of
        Some c \<Rightarrow> Some c
      | None \<Rightarrow> last_cork_snapshots_loop (rev (sp_snapshots p)))"

fun trim_loop :: "snapshots \<Rightarrow> tlogs \<Rightarrow> snapshots \<times> tlogs \<times> bool" where
  "trim_loop [] cur = ([], cur, False)"
| "trim_loop (s # ss) cur =
     (if \<not> inBackend s then ([], tlogsOnBackend (snap_tlogs s), True)
      else case trim_loop ss cur of (ss', cur', ready) \<Rightarrow> (s # ss', cur', ready))"

definition SP_trimToBackend :: "uuid \<Rightarrow> persistor \<Rightarrow> persistor" where
  "SP_trimToBackend fresh p =
     (case trim_loop (sp_snapshots p) (sp_current p) of
        (ss, cur, ready) \<Rightarrow>
          SP_newTLog fresh
            (p\<lparr>sp_snapshots := ss, sp_current := (if \<not> ready then tlogsOnBackend cur else cur)\<rparr>))"

definition SP_getSnapshotBackendSize :: "string \<Rightarrow> persistor \<Rightarrow> u64 result" where
  "SP_getSnapshotBackendSize n p =
     rbind (Snapshots_getSnapshot n (sp_snapshots p)) (\<lambda>s. Inr (Snapshot_backend_size s))"

definition SP_getCurrentBackendSize :: "persistor \<Rightarrow> u64" where
  "SP_getCurrentBackendSize p = TLogs_backend_size (sp_current p)"

definition SP_getTotalBackendSize :: "persistor \<Rightarrow> u64" where
  "SP_getTotalBackendSize p =
     Snapshots_getTotalBackendSize (sp_snapshots p) + SP_getCurrentBackendSize p"

definition SP_addCurrentBackendSize :: "u64 \<Rightarrow> persistor \<Rightarrow> persistor result" where
  "SP_addCurrentBackendSize s p =
     rbind (verify (sp_current p \<noteq> []) ''not current.empty()'') (\<lambda>_.
       Inr (p\<lparr>sp_current := butlast (sp_current p) @
                           [add_to_backend_size s (last (sp_current p))]\<rparr>))"

text \<open>
  \<open>WrittenToBackendVerifier\<close>: \<^verbatim>\<open>std::for_each\<close> copies the functor, but the flag is a reference,
  so it is carried from one list to the next.
\<close>

fun verifier_loop :: "bool \<Rightarrow> tlogs \<Rightarrow> bool result" where
  "verifier_loop unwritten_seen [] = Inr unwritten_seen"
| "verifier_loop unwritten_seen (t # ts) =
     (if written_to_backend t
      then (if unwritten_seen
            then Inl (IOException ''marked as written to backend but a previous TLog was not'')
            else verifier_loop unwritten_seen ts)
      else verifier_loop True ts)"

fun verify_snapshots_loop :: "bool \<Rightarrow> snapshots \<Rightarrow> bool result" where
  "verify_snapshots_loop unwritten_seen [] = Inr unwritten_seen"
| "verify_snapshots_loop unwritten_seen (s # ss) =
     rbind (verifier_loop unwritten_seen (snap_tlogs s)) (\<lambda>seen. verify_snapshots_loop seen ss)"

definition SP_verifySanity :: "persistor \<Rightarrow> unit result" where
  "SP_verifySanity p =
     rbind (verify_snapshots_loop False (sp_snapshots p)) (\<lambda>seen.
     rbind (verifier_loop seen (sp_current p)) (\<lambda>_. Inr ()))"

subsection \<open>Calls that are passed on to the snapshot list\<close>

definition SP_snapshotExists_num :: "u64 \<Rightarrow> persistor \<Rightarrow> bool" where
  "SP_snapshotExists_num n p = Snapshots_snapshotExists_num n (sp_snapshots p)"

definition SP_getSnapshot :: "string \<Rightarrow> persistor \<Rightarrow> snapshot result" where
  "SP_getSnapshot n p = Snapshots_getSnapshot n (sp_snapshots p)"

definition SP_getUUID :: "u64 \<Rightarrow> persistor \<Rightarrow> uuid result" where
  "SP_getUUID n p = rbind (Snapshots_getSnapshot_num n (sp_snapshots p)) (\<lambda>s. Inr (snap_uuid s))"

definition SP_hasSnapshotWithUUID :: "uuid \<Rightarrow> persistor \<Rightarrow> bool" where
  "SP_hasSnapshotWithUUID u p = Snapshots_hasSnapshotWithUUID u (sp_snapshots p)"

definition SP_getSnapshotsTill :: "u64 \<Rightarrow> bool \<Rightarrow> persistor \<Rightarrow> u64 list \<Rightarrow> u64 list result" where
  "SP_getSnapshotsTill n including p out = Snapshots_getSnapshotsTill n including (sp_snapshots p) out"

definition SP_getSnapshotsAfter :: "u64 \<Rightarrow> persistor \<Rightarrow> u64 list \<Rightarrow> u64 list result" where
  "SP_getSnapshotsAfter n p out = Snapshots_getSnapshotsAfter n (sp_snapshots p) out"

definition SP_getTLogsTillSnapshot_name :: "string \<Rightarrow> persistor \<Rightarrow> uuid list \<Rightarrow> uuid list result" where
  "SP_getTLogsTillSnapshot_name n p out =
     rbind (SP_getSnapshotNum n p) (\<lambda>num. SP_getTLogsTillSnapshot num p out)"

definition SP_getTLogsBetweenSnapshots ::
  "u64 \<Rightarrow> u64 \<Rightarrow> bool \<Rightarrow> persistor \<Rightarrow> uuid list \<Rightarrow> uuid list result" where
  "SP_getTLogsBetweenSnapshots start end_snap including p out =
     Snapshots_getTLogsBetweenSnapshots start end_snap including (sp_snapshots p) out"

definition SP_getAllSnapshots :: "persistor \<Rightarrow> u64 list \<Rightarrow> u64 list" where
  "SP_getAllSnapshots p vec = Snapshots_getAllSnapshots (sp_snapshots p) vec"

definition SP_getSnapshotScrubbingWork ::
  "string option \<Rightarrow> string option \<Rightarrow> persistor \<Rightarrow> string list \<Rightarrow> string list result" where
  "SP_getSnapshotScrubbingWork start_snap end_snap p out =
     Snapshots_getSnapshotScrubbingWork start_snap end_snap (sp_snapshots p) out"

definition SP_getBackendSize :: "string \<Rightarrow> string option \<Rightarrow> persistor \<Rightarrow> u64 result" where
  "SP_getBackendSize end_snapshot start_snapshot p =
     Snapshots_getBackendSize end_snapshot start_snapshot (sp_snapshots p)"

definition SP_getSnapshotCork :: "string \<Rightarrow> persistor \<Rightarrow> uuid result" where
  "SP_getSnapshotCork n p = rbind (SP_getSnapshot n p) (\<lambda>s. Inr (cork_uuid s))"

text \<open>
  Loading: what the archive holds (its version, the members \<open>ar\<close> and the hash flag) comes from
  boost serialization; versions before 4 are refused, and so is an archive that was written with
  another hash setting or that is not sane.
\<close>

definition SP_load :: "nat \<Rightarrow> persistor \<Rightarrow> bool \<Rightarrow> bool \<Rightarrow> persistor result" where
  "SP_load version ar ar_use_hash use_hash =
     (if version < 4 then Inl SerializationVersionException
      else rbind (verify (use_hash = ar_use_hash) ''ClusterLocationAndHash::use_hash() == use_hash'') (\<lambda>_.
           rbind (SP_verifySanity ar) (\<lambda>_. Inr ar)))"

end
