(* ===== verification/Persistor_Invariant.thy ===== *)
theory Persistor_Invariant
  imports Snapshot_Persistor
begin

text \<open>
  What the operations of the snapshot database keep and compute. The view of the database that its
  clients rely on is the sequence of all TLogs, oldest first (\<open>sp_tlogs\<close>): creating and deleting
  snapshots only moves the borders inside that sequence, \<open>snip\<close>, \<open>trimToBackend\<close> and a restore cut
  it, and TLogs are marked as written from its front. The invariant is proved for every state that
  the operations reach from a new database.
\<close>

subsection \<open>The sequence of TLogs and the invariant\<close>

definition sp_tlogs :: "persistor \<Rightarrow> tlogs" where
  "sp_tlogs p = snapshots_tlogs (sp_snapshots p) @ sp_current p"

definition sp_ids :: "persistor \<Rightarrow> uuid list" where
  "sp_ids p = map tl_id (sp_tlogs p)"

definition sp_inv :: "persistor \<Rightarrow> bool" where
  "sp_inv p \<longleftrightarrow>
     written_prefix (sp_tlogs p) \<and> sp_current p \<noteq> [] \<and>
     sorted_wrt (<) (map snap_num (sp_snapshots p)) \<and>
     distinct (map snap_name (sp_snapshots p)) \<and> distinct (sp_ids p) \<and>
     (\<forall>s \<in> set (sp_snapshots p). snap_tlogs s \<noteq> [])"

subsection \<open>The operations on the sequence\<close>

lemma sp_tlogs_newTLog [simp]: "sp_tlogs (SP_newTLog i p) = sp_tlogs p @ [TLog_new i]"
  by (simp add: sp_tlogs_def SP_newTLog_def)

lemma Snapshots_deleteSnapshot_tlogs:
  assumes "Snapshots_deleteSnapshot n ss io = Inr (ss', io')"
  shows "snapshots_tlogs ss' @ io' = snapshots_tlogs ss @ io"
proof -
  let ?it = "find_by_num n ss"
  from assms have ne: "?it \<noteq> length ss"
    by (auto simp: Snapshots_deleteSnapshot_def)
  then have lt: "?it < length ss"
    by (simp add: find_by_num_def find_pos_less)
  have ss: "ss = take ?it ss @ ss ! ?it # drop (Suc ?it) ss"
    using lt by (simp add: id_take_nth_drop)
  have tl: "snapshots_tlogs ss =
      snapshots_tlogs (take ?it ss) @ snap_tlogs (ss ! ?it) @ snapshots_tlogs (drop (Suc ?it) ss)"
    by (subst ss) (simp only: snapshots_tlogs_simps append_assoc)
  show ?thesis
  proof (cases "Suc ?it = length ss")
    case True
    then have "drop (Suc ?it) ss = []" by simp
    with True assms ne tl show ?thesis
      by (auto simp: Snapshots_deleteSnapshot_def Let_def)
  next
    case False
    with lt have "drop (Suc ?it) ss = ss ! Suc ?it # drop (Suc (Suc ?it)) ss"
      by (metis Cons_nth_drop_Suc Suc_lessI)
    with False assms ne tl show ?thesis
      by (auto simp: Snapshots_deleteSnapshot_def Let_def)
  qed
qed

lemma Snapshots_deleteAllButLast_tlogs:
  assumes "Snapshots_deleteAllButLastSnapshot ss = Inr ss'"
  shows "snapshots_tlogs ss' = snapshots_tlogs ss"
proof -
  from assms obtain l others where r: "rev ss = l # others" and ss': "ss' = [splice_loop l others]"
    by (auto simp: Snapshots_deleteAllButLastSnapshot_def split: list.splits)
  from r have "ss = rev others @ [l]" by (metis rev.simps(2) rev_rev_ident)
  with ss' show ?thesis by (simp add: splice_loop_tlogs)
qed

lemma trim_loop_tlogs:
  "trim_loop ss cur = (ss', cur', ready) \<Longrightarrow>
     snapshots_tlogs ss' @ (if \<not> ready then tlogsOnBackend cur' else cur') =
     takeWhile written_to_backend (snapshots_tlogs ss @ cur)"
proof (induction ss arbitrary: ss')
  case Nil
  then show ?case by (auto simp: tlogsOnBackend_takeWhile)
next
  case (Cons s ss)
  show ?case
  proof (cases "inBackend s")
    case True
    with Cons show ?thesis
      by (auto simp: inBackend_iff takeWhile_append_all split: prod.splits)
  next
    case False
    then have "\<exists>t \<in> set (snap_tlogs s). \<not> written_to_backend t" by (simp add: inBackend_iff)
    with Cons.prems False show ?thesis
      by (simp add: takeWhile_append_not_all tlogsOnBackend_takeWhile)
  qed
qed

lemma sp_tlogs_trimToBackend:
  "sp_tlogs (SP_trimToBackend i p) = takeWhile written_to_backend (sp_tlogs p) @ [TLog_new i]"
proof -
  obtain ss cur ready where t: "trim_loop (sp_snapshots p) (sp_current p) = (ss, cur, ready)"
    by (cases "trim_loop (sp_snapshots p) (sp_current p)") auto
  show ?thesis
    using trim_loop_tlogs [OF t] by (simp add: SP_trimToBackend_def t sp_tlogs_def SP_newTLog_def)
qed

text \<open>\<open>snip\<close> keeps everything up to and including the named TLog.\<close>

definition snipped :: "uuid \<Rightarrow> u64 option \<Rightarrow> tlogs \<Rightarrow> tlogs" where
  "snipped i bs ts =
     takeWhile (\<lambda>t. tl_id t \<noteq> i) ts @
     (case dropWhile (\<lambda>t. tl_id t \<noteq> i) ts of
        [] \<Rightarrow> []
      | t # _ \<Rightarrow> [case bs of None \<Rightarrow> t | Some s \<Rightarrow> t\<lparr>tl_size := s\<rparr>])"

lemma snipped_not_in: "i \<notin> tl_id ` set ts \<Longrightarrow> snipped i bs ts = ts"
  by (induction ts) (auto simp: snipped_def)

lemma TLogs_snip_Cons:
  "TLogs_snip i bs (t # ts) =
     (if tl_id t = i then (True, [case bs of None \<Rightarrow> t | Some s \<Rightarrow> t\<lparr>tl_size := s\<rparr>])
      else map_prod id ((#) t) (TLogs_snip i bs ts))"
  by (cases "dropWhile (\<lambda>t. tl_id t \<noteq> i) ts")
    (simp_all add: TLogs_snip_def del: dropWhile_eq_Nil_conv)

lemma TLogs_snip_eq: "TLogs_snip i bs ts = (i \<in> tl_id ` set ts, snipped i bs ts)"
proof (induction ts)
  case Nil
  show ?case by (simp add: TLogs_snip_def snipped_def)
next
  case (Cons t ts)
  then show ?case by (auto simp: TLogs_snip_Cons snipped_def)
qed

lemma snipped_append:
  "snipped i bs (xs @ ys) =
     (if i \<in> tl_id ` set xs then snipped i bs xs else xs @ snipped i bs ys)"
  by (induction xs) (auto simp: snipped_def)

lemma Snapshots_snip_tlogs:
  "Snapshots_snip i bs ss = (found, ss') \<Longrightarrow>
     found = (i \<in> tl_id ` set (snapshots_tlogs ss)) \<and>
     snapshots_tlogs ss' = snipped i bs (snapshots_tlogs ss) \<and> (found \<longrightarrow> ss' \<noteq> [])"
proof (induction ss arbitrary: found ss')
  case Nil
  then show ?case by (simp add: snipped_def)
next
  case (Cons s ss)
  show ?case
  proof (cases "i \<in> tl_id ` set (snap_tlogs s)")
    case True
    with Cons.prems show ?thesis by (auto simp: TLogs_snip_eq snipped_append)
  next
    case False
    obtain f ss2 where r: "Snapshots_snip i bs ss = (f, ss2)" by (cases "Snapshots_snip i bs ss")
    from False have "snipped i bs (snap_tlogs s) = snap_tlogs s" by (rule snipped_not_in)
    with Cons.IH [OF r] Cons.prems False r show ?thesis
      by (auto simp: TLogs_snip_eq snipped_append)
  qed
qed

lemma Snapshots_snip_last:
  "Snapshots_snip i bs ss = (True, ss') \<Longrightarrow> snap_tlogs (last ss') \<noteq> []"
proof (induction ss arbitrary: ss')
  case (Cons s ss)
  obtain f2 ss2 where r: "Snapshots_snip i bs ss = (f2, ss2)" by (cases "Snapshots_snip i bs ss")
  have "snipped i bs (snap_tlogs s) \<noteq> []" if "i \<in> tl_id ` set (snap_tlogs s)"
    using that by (cases "snap_tlogs s") (auto simp: snipped_def)
  with Cons r show ?case
    using Snapshots_snip_tlogs [OF r] by (auto simp: TLogs_snip_eq split: if_splits)
qed simp

lemma snapshots_tlogs_last:
  "ss \<noteq> [] \<Longrightarrow> snapshots_tlogs (butlast ss) @ snap_tlogs (last ss) = snapshots_tlogs ss"
  by (induction ss rule: rev_induct) auto

lemma sp_tlogs_snip:
  assumes "SP_snip i bs p = (found, p')"
  shows "found = (i \<in> set (sp_ids p)) \<and> sp_tlogs p' = snipped i bs (sp_tlogs p)"
proof -
  obtain f ss where r: "Snapshots_snip i bs (sp_snapshots p) = (f, ss)"
    by (cases "Snapshots_snip i bs (sp_snapshots p)")
  note facts = Snapshots_snip_tlogs [OF r]
  show ?thesis
  proof (cases f)
    case True
    with facts have "ss \<noteq> []" by simp
    from snapshots_tlogs_last [OF this] True facts assms r show ?thesis
      by (auto simp: SP_snip_def sp_tlogs_def sp_ids_def snipped_append)
  next
    case False
    with facts have ni: "i \<notin> tl_id ` set (snapshots_tlogs (sp_snapshots p))" by simp
    then have "snapshots_tlogs ss = snapshots_tlogs (sp_snapshots p)"
      using facts by (simp add: snipped_not_in)
    with False facts assms r ni show ?thesis
      by (auto simp: SP_snip_def sp_tlogs_def sp_ids_def snipped_append TLogs_snip_eq)
  qed
qed


subsection \<open>Marking a TLog as written\<close>

fun mark :: "uuid \<Rightarrow> bool \<Rightarrow> tlogs \<Rightarrow> tlogs" where
  "mark i b [] = []"
| "mark i b (t # ts) =
     (if tl_id t = i then t\<lparr>written_to_backend := b\<rparr> # ts else t # mark i b ts)"

definition all_written_before :: "uuid \<Rightarrow> tlogs \<Rightarrow> bool" where
  "all_written_before i ts \<longleftrightarrow> (\<forall>t \<in> set (takeWhile (\<lambda>t. tl_id t \<noteq> i) ts). written_to_backend t)"

lemma map_id_mark [simp]: "map tl_id (mark i b ts) = map tl_id ts"
  by (induction ts) auto

lemma mark_append:
  "mark i b (xs @ ys) = (if i \<in> tl_id ` set xs then mark i b xs @ ys else xs @ mark i b ys)"
  by (induction xs) auto

lemma all_written_before_append:
  "all_written_before i (xs @ ys) \<longleftrightarrow>
     all_written_before i xs \<and> (i \<in> tl_id ` set xs \<or> all_written_before i ys)"
  by (induction xs) (auto simp: all_written_before_def)

lemma all_written_before_Cons:
  "all_written_before i (t # ts) \<longleftrightarrow> tl_id t = i \<or> (written_to_backend t \<and> all_written_before i ts)"
  by (auto simp: all_written_before_def)

lemma TLogs_set_written:
  "TLogs_setTLogWrittenToBackend i True ts =
     (if all_written_before i ts then Inr (i \<in> tl_id ` set ts, mark i True ts)
      else Inl (IOException ''unexpected state written_to_backend == false''))"
proof (induction ts)
  case Nil
  show ?case by (simp add: all_written_before_def)
next
  case (Cons t ts)
  then show ?case by (auto simp: all_written_before_Cons)
qed

lemma Snapshots_set_written:
  "Snapshots_setTLogWrittenToBackend i True ss = Inr (found, ss') \<Longrightarrow>
     all_written_before i (snapshots_tlogs ss) \<and>
     found = (i \<in> tl_id ` set (snapshots_tlogs ss)) \<and>
     snapshots_tlogs ss' = mark i True (snapshots_tlogs ss) \<and>
     map snap_num ss' = map snap_num ss \<and> map snap_name ss' = map snap_name ss \<and>
     ((\<forall>s \<in> set ss. snap_tlogs s \<noteq> []) \<longrightarrow> (\<forall>s \<in> set ss'. snap_tlogs s \<noteq> []))"
proof (induction ss arbitrary: found ss')
  case Nil
  then show ?case by (simp add: all_written_before_def)
next
  case (Cons s ss)
  show ?case
  proof (cases "i \<in> tl_id ` set (snap_tlogs s)")
    case True
    have c: "all_written_before i (snap_tlogs s)"
      using Cons.prems by (auto simp: TLogs_set_written split: if_splits)
    with Cons.prems True have "found \<and> ss' = s\<lparr>snap_tlogs := mark i True (snap_tlogs s)\<rparr> # ss"
      by (simp add: TLogs_set_written)
    moreover have "mark i True (snap_tlogs s) = [] \<longleftrightarrow> snap_tlogs s = []"
      by (cases "snap_tlogs s") auto
    ultimately show ?thesis
      using True c by (simp add: all_written_before_append mark_append image_Un)
  next
    case False
    with Cons.prems obtain ss2 where
      r: "Snapshots_setTLogWrittenToBackend i True ss = Inr (found, ss2)" and "ss' = s # ss2"
      and "all_written_before i (snap_tlogs s)"
      by (auto simp: TLogs_set_written split: if_splits)
    with Cons.IH [OF r] False show ?thesis
      by (auto simp: all_written_before_append mark_append)
  qed
qed

lemma Snapshots_set_written_Inl:
  "Snapshots_setTLogWrittenToBackend i True ss = Inl e \<Longrightarrow>
     \<not> all_written_before i (snapshots_tlogs ss)"
proof (induction ss)
  case (Cons s ss)
  then show ?case
    by (auto simp: TLogs_set_written all_written_before_append rbind_Inl_iff split: if_splits)
qed simp

lemma mark_not_in: "i \<notin> tl_id ` set ts \<Longrightarrow> mark i b ts = ts"
  by (induction ts) auto

lemma sp_set_written:
  assumes "SP_setTLogWrittenToBackend i True p = Inr p'"
  shows "all_written_before i (sp_tlogs p) \<and> sp_tlogs p' = mark i True (sp_tlogs p) \<and>
    map snap_num (sp_snapshots p') = map snap_num (sp_snapshots p) \<and>
    map snap_name (sp_snapshots p') = map snap_name (sp_snapshots p) \<and>
    (sp_current p' = [] \<longleftrightarrow> sp_current p = []) \<and>
    ((\<forall>s \<in> set (sp_snapshots p). snap_tlogs s \<noteq> []) \<longrightarrow>
     (\<forall>s \<in> set (sp_snapshots p'). snap_tlogs s \<noteq> []))"
proof -
  from assms obtain found ss where
    r: "Snapshots_setTLogWrittenToBackend i True (sp_snapshots p) = Inr (found, ss)"
    by (auto simp: SP_setTLogWrittenToBackend_def)
  note facts = Snapshots_set_written [OF r]
  show ?thesis
  proof (cases found)
    case True
    with r assms have "p' = p\<lparr>sp_snapshots := ss\<rparr>"
      by (simp add: SP_setTLogWrittenToBackend_def)
    with True facts show ?thesis
      by (simp add: sp_tlogs_def all_written_before_append mark_append)
  next
    case False
    with r assms have c: "all_written_before i (sp_current p)"
      and p': "p' = p\<lparr>sp_current := mark i True (sp_current p)\<rparr>"
      by (simp_all add: SP_setTLogWrittenToBackend_def TLogs_set_written split: if_splits)
    have "mark i True (sp_current p) = [] \<longleftrightarrow> sp_current p = []"
      by (cases "sp_current p") auto
    with False facts c p' show ?thesis
      by (simp add: sp_tlogs_def all_written_before_append mark_append)
  qed
qed

lemma sp_set_written_succeeds:
  assumes "all_written_before i (sp_tlogs p)"
  shows "\<exists>p'. SP_setTLogWrittenToBackend i True p = Inr p'"
proof -
  from assms have a: "all_written_before i (snapshots_tlogs (sp_snapshots p))"
    by (simp add: sp_tlogs_def all_written_before_append)
  then obtain found ss where
    r: "Snapshots_setTLogWrittenToBackend i True (sp_snapshots p) = Inr (found, ss)"
    using Snapshots_set_written_Inl [of i "sp_snapshots p"]
    by (cases "Snapshots_setTLogWrittenToBackend i True (sp_snapshots p)") auto
  with assms Snapshots_set_written [OF r] show ?thesis
    by (cases found)
      (simp_all add: SP_setTLogWrittenToBackend_def TLogs_set_written sp_tlogs_def
        all_written_before_append)
qed

lemma written_prefix_mark:
  "written_prefix ts \<Longrightarrow> all_written_before i ts \<Longrightarrow> written_prefix (mark i True ts)"
  by (induction ts) (auto simp: all_written_before_Cons intro: written_prefix_all_unwritten)


subsection \<open>Sortedness and distinctness\<close>

lemma sorted_wrt_less_delete:
  "sorted_wrt (<) (xs @ y # ys) \<Longrightarrow> sorted_wrt (<) (xs @ (ys :: 'a :: order list))"
  by (auto simp: sorted_wrt_append)

lemma sorted_wrt_less_take:
  "sorted_wrt (<) (xs :: 'a :: order list) \<Longrightarrow> sorted_wrt (<) (take n xs)"
  by (metis append_take_drop_id sorted_wrt_append)

lemma deleteSnapshot_frame:
  assumes "Snapshots_deleteSnapshot n ss io = Inr (ss', io')"
  shows "\<exists>xs y ys. map snap_num ss = xs @ y # ys \<and> map snap_num ss' = xs @ ys"
    and "\<exists>xs y ys. map snap_name ss = xs @ y # ys \<and> map snap_name ss' = xs @ ys"
    and "io \<noteq> [] \<longrightarrow> io' \<noteq> []"
    and "(\<forall>s \<in> set ss. snap_tlogs s \<noteq> []) \<longrightarrow> (\<forall>s \<in> set ss'. snap_tlogs s \<noteq> [])"
proof -
  let ?it = "find_by_num n ss"
  from assms have ne: "?it \<noteq> length ss"
    by (auto simp: Snapshots_deleteSnapshot_def)
  then have lt: "?it < length ss"
    by (simp add: find_by_num_def find_pos_less)
  have ss: "ss = take ?it ss @ ss ! ?it # drop (Suc ?it) ss"
    using lt by (simp add: id_take_nth_drop)
  have "\<exists>ds. map snap_num ds = map snap_num (drop (Suc ?it) ss) \<and>
      map snap_name ds = map snap_name (drop (Suc ?it) ss) \<and>
      ss' = take ?it ss @ ds \<and> (io \<noteq> [] \<longrightarrow> io' \<noteq> []) \<and>
      ((\<forall>s \<in> set ss. snap_tlogs s \<noteq> []) \<longrightarrow> (\<forall>s \<in> set ds. snap_tlogs s \<noteq> []))"
  proof (cases "Suc ?it = length ss")
    case True
    with assms ne show ?thesis
      by (auto simp: Snapshots_deleteSnapshot_def Let_def)
  next
    case False
    with lt have "drop (Suc ?it) ss = ss ! Suc ?it # drop (Suc (Suc ?it)) ss"
      by (metis Cons_nth_drop_Suc Suc_lessI)
    moreover have "ss ! Suc ?it \<in> set ss" using False lt by (simp add: Suc_lessI)
    ultimately show ?thesis
      using False assms ne
      by (auto simp: Snapshots_deleteSnapshot_def Let_def) (metis in_set_dropD)
  qed
  then obtain ds where ds: "map snap_num ds = map snap_num (drop (Suc ?it) ss)"
      "map snap_name ds = map snap_name (drop (Suc ?it) ss)"
      "ss' = take ?it ss @ ds" "io \<noteq> [] \<longrightarrow> io' \<noteq> []"
      "(\<forall>s \<in> set ss. snap_tlogs s \<noteq> []) \<longrightarrow> (\<forall>s \<in> set ds. snap_tlogs s \<noteq> [])"
    by blast
  show "\<exists>xs y ys. map snap_num ss = xs @ y # ys \<and> map snap_num ss' = xs @ ys"
    by (rule exI [of _ "map snap_num (take ?it ss)"], rule exI [of _ "snap_num (ss ! ?it)"],
        rule exI [of _ "map snap_num (drop (Suc ?it) ss)"])
      (use ds(1,3) arg_cong [OF ss, of "map snap_num"] in simp)
  show "\<exists>xs y ys. map snap_name ss = xs @ y # ys \<and> map snap_name ss' = xs @ ys"
    by (rule exI [of _ "map snap_name (take ?it ss)"], rule exI [of _ "snap_name (ss ! ?it)"],
        rule exI [of _ "map snap_name (drop (Suc ?it) ss)"])
      (use ds(2,3) arg_cong [OF ss, of "map snap_name"] in simp)
  show "io \<noteq> [] \<longrightarrow> io' \<noteq> []" by (rule ds(4))
  show "(\<forall>s \<in> set ss. snap_tlogs s \<noteq> []) \<longrightarrow> (\<forall>s \<in> set ss'. snap_tlogs s \<noteq> [])"
    using ds(3,5) by (auto dest: in_set_takeD)
qed

lemma trim_loop_prefix:
  "trim_loop ss cur = (ss', cur', ready) \<Longrightarrow> \<exists>n. ss' = take n ss"
proof (induction ss arbitrary: ss')
  case Nil
  then show ?case by simp
next
  case (Cons s ss)
  show ?case
  proof (cases "inBackend s")
    case True
    obtain ss2 cur2 r2 where t: "trim_loop ss cur = (ss2, cur2, r2)"
      by (cases "trim_loop ss cur") auto
    with Cons.prems True have eq: "ss' = s # ss2" "cur2 = cur'" "r2 = ready" by auto
    from Cons.IH [of ss2] t eq obtain n where "ss2 = take n ss" by auto
    with eq show ?thesis by (intro exI [of _ "Suc n"]) simp
  next
    case False
    with Cons.prems show ?thesis by (intro exI [of _ 0]) simp
  qed
qed

lemma Snapshots_snip_frame:
  "Snapshots_snip i bs ss = (found, ss') \<Longrightarrow>
     (\<exists>n. map snap_num ss' = take n (map snap_num ss) \<and> map snap_name ss' = take n (map snap_name ss)) \<and>
     ((\<forall>s \<in> set ss. snap_tlogs s \<noteq> []) \<longrightarrow> (\<forall>s \<in> set ss'. snap_tlogs s \<noteq> []))"
proof (induction ss arbitrary: found ss')
  case Nil
  then show ?case by simp
next
  case (Cons s ss)
  obtain f ts where t: "TLogs_snip i bs (snap_tlogs s) = (f, ts)" by (cases "TLogs_snip i bs (snap_tlogs s)")
  have ne: "ts \<noteq> []" if "snap_tlogs s \<noteq> []"
    using t that by (auto simp: TLogs_snip_def split: list.splits)
  show ?case
  proof (cases f)
    case True
    with Cons.prems t ne show ?thesis by (intro conjI exI [of _ 1]) auto
  next
    case False
    obtain f2 ss2 where r: "Snapshots_snip i bs ss = (f2, ss2)" by (cases "Snapshots_snip i bs ss")
    from Cons.IH [OF r] obtain n where
      "map snap_num ss2 = take n (map snap_num ss) \<and> map snap_name ss2 = take n (map snap_name ss)"
      by blast
    with Cons.prems t False r ne Cons.IH [OF r] show ?thesis
      by (intro conjI exI [of _ "Suc n"]) auto
  qed
qed

lemma snipped_decomp:
  "\<exists>n rest. snipped i bs ts = take n ts @ rest \<and> length rest \<le> 1 \<and> n + length rest \<le> length ts \<and>
     map tl_id rest = map tl_id (take (length rest) (drop n ts)) \<and>
     map written_to_backend rest = map written_to_backend (take (length rest) (drop n ts))"
proof (cases "dropWhile (\<lambda>t. tl_id t \<noteq> i) ts")
  case Nil
  then have "i \<notin> tl_id ` set ts" by auto
  then show ?thesis
    by (intro exI [of _ "length ts"] exI [of _ "[]"]) (simp add: snipped_not_in)
next
  case (Cons t r)
  let ?n = "length (takeWhile (\<lambda>t. tl_id t \<noteq> i) ts)"
  have ts: "ts = takeWhile (\<lambda>t. tl_id t \<noteq> i) ts @ t # r"
    using Cons by (rule dropWhile_split)
  have tk: "take ?n ts = takeWhile (\<lambda>t. tl_id t \<noteq> i) ts"
    by (metis takeWhile_eq_take)
  have "drop ?n ts = t # r" using Cons by (metis dropWhile_eq_drop)
  moreover have "?n + 1 \<le> length ts"
    using arg_cong [OF ts, of length] by simp
  ultimately show ?thesis
    using Cons tk
    by (intro exI [of _ ?n] exI [of _ "[case bs of None \<Rightarrow> t | Some s \<Rightarrow> t\<lparr>tl_size := s\<rparr>]"])
      (auto simp: snipped_def split: option.splits)
qed

lemma snipped_take:
  "\<exists>n. map tl_id (snipped i bs ts) = take n (map tl_id ts) \<and>
       map written_to_backend (snipped i bs ts) = take n (map written_to_backend ts)"
proof -
  obtain n rest where d: "snipped i bs ts = take n ts @ rest" "n + length rest \<le> length ts"
    "map tl_id rest = map tl_id (take (length rest) (drop n ts))"
    "map written_to_backend rest = map written_to_backend (take (length rest) (drop n ts))"
    using snipped_decomp by blast
  show ?thesis
    by (intro exI [of _ "n + length rest"]) (use d in \<open>simp add: take_add take_map drop_map\<close>)
qed

lemma written_prefix_map:
  "map written_to_backend xs = map written_to_backend ys \<Longrightarrow> written_prefix xs = written_prefix ys"
proof (induction xs arbitrary: ys)
  case (Cons x xs)
  then obtain y ys' where ys: "ys = y # ys'" by (cases ys) auto
  have "(\<forall>t \<in> set xs. \<not> written_to_backend t) = (\<forall>t \<in> set ys'. \<not> written_to_backend t)"
    using Cons.prems ys by (metis (mono_tags, lifting) image_iff list.inject list.set_map list.simps(9))
  with Cons ys show ?case by auto
qed simp

lemma written_prefix_take: "written_prefix ts \<Longrightarrow> written_prefix (take n ts)"
  by (metis append_take_drop_id written_prefix_append)

lemma written_prefix_snipped: "written_prefix ts \<Longrightarrow> written_prefix (snipped i bs ts)"
  using snipped_take [of i bs ts] written_prefix_map [of "snipped i bs ts"] written_prefix_take
  by (metis take_map)

lemma distinct_snipped: "distinct (map tl_id ts) \<Longrightarrow> distinct (map tl_id (snipped i bs ts))"
  using snipped_take [of i bs ts] by (metis distinct_take)


subsection \<open>Every operation keeps the invariant\<close>

lemma sp_inv_newTLog [vd_inv]:
  "sp_inv p \<Longrightarrow> i \<notin> set (sp_ids p) \<Longrightarrow> sp_inv (SP_newTLog i p)"
  by (auto simp: sp_inv_def sp_ids_def) (auto simp: SP_newTLog_def TLog_new_def)

lemma sp_inv_set_written [vd_inv]:
  "sp_inv p \<Longrightarrow> SP_setTLogWrittenToBackend i True p = Inr p' \<Longrightarrow> sp_inv p'"
  using sp_set_written [of i p p'] by (auto simp: sp_inv_def sp_ids_def written_prefix_mark)

lemma SP_snapshot_Inr:
  assumes "SP_snapshot n md u cs date fc i p = Inr p'"
  shows "n \<notin> snap_name ` set (sp_snapshots p)"
    and "sp_tlogs p' = sp_tlogs p @ [TLog_new i]" and "sp_current p' = [TLog_new i]"
    and "map snap_num (sp_snapshots p') =
           map snap_num (sp_snapshots p) @ [getNextSnapshotNum (sp_snapshots p)]"
    and "map snap_name (sp_snapshots p') = map snap_name (sp_snapshots p) @ [n]"
    and "map snap_tlogs (sp_snapshots p') = map snap_tlogs (sp_snapshots p) @ [sp_current p]"
proof -
  show "n \<notin> snap_name ` set (sp_snapshots p)"
    using assms
    by (auto simp: SP_snapshot_def SP_snapshotExists_def Snapshots_snapshotExists_def find_by_name_def
        find_pos_lt_iff split: if_splits)
  show "sp_tlogs p' = sp_tlogs p @ [TLog_new i]" "sp_current p' = [TLog_new i]"
    "map snap_num (sp_snapshots p') =
       map snap_num (sp_snapshots p) @ [getNextSnapshotNum (sp_snapshots p)]"
    "map snap_name (sp_snapshots p') = map snap_name (sp_snapshots p) @ [n]"
    "map snap_tlogs (sp_snapshots p') = map snap_tlogs (sp_snapshots p) @ [sp_current p]"
    using assms
    by (auto simp: SP_snapshot_def Let_def sp_tlogs_def SP_newTLog_def Snapshot_new_def
        split: if_splits)
qed

lemma sorted_next_num:
  assumes "sorted_wrt (<) (map snap_num ss)" and "ss \<noteq> [] \<longrightarrow> snap_num (last ss) \<noteq> - 1"
  shows "sorted_wrt (<) (map snap_num ss @ [getNextSnapshotNum ss])"
proof (cases ss rule: rev_cases)
  case (snoc xs s)
  with assms(2) have lt: "snap_num s < snap_num s + 1"
    by (simp add: inc_less_eq_self_iff_eq flip: not_le)
  with assms(1) snoc show ?thesis
    by (auto simp: sorted_wrt_append getNextSnapshotNum_def intro: less_trans)
qed (simp add: getNextSnapshotNum_def)

lemma sp_inv_snapshot [vd_inv]:
  assumes "sp_inv p" and r: "SP_snapshot n md u cs date fc i p = Inr p'"
    and "i \<notin> set (sp_ids p)"
    and "sp_snapshots p \<noteq> [] \<longrightarrow> snap_num (last (sp_snapshots p)) \<noteq> - 1"
  shows "sp_inv p'"
proof -
  note f = SP_snapshot_Inr [OF r]
  have "[] \<notin> set (map snap_tlogs (sp_snapshots p'))"
    unfolding f(6) using assms(1) by (auto simp: sp_inv_def)
  then have "\<forall>s \<in> set (sp_snapshots p'). snap_tlogs s \<noteq> []" by force
  moreover have "distinct (sp_ids p')"
    using assms(1,3) by (simp add: sp_inv_def sp_ids_def f(2)) (simp add: TLog_new_def)
  ultimately show ?thesis
    using assms(1,4) f(1) sorted_next_num [of "sp_snapshots p"]
    unfolding sp_inv_def f(2-5) by simp
qed

lemma SP_deleteSnapshot_Inr:
  assumes "SP_deleteSnapshot n p = Inr p'"
  shows "Snapshots_deleteSnapshot n (sp_snapshots p) (sp_current p) =
           Inr (sp_snapshots p', sp_current p')"
    and "sp_tlogs p' = sp_tlogs p"
proof -
  show r: "Snapshots_deleteSnapshot n (sp_snapshots p) (sp_current p) =
           Inr (sp_snapshots p', sp_current p')"
    using assms by (auto simp: SP_deleteSnapshot_def)
  show "sp_tlogs p' = sp_tlogs p"
    using Snapshots_deleteSnapshot_tlogs [OF r] by (simp add: sp_tlogs_def)
qed

lemma sp_inv_deleteSnapshot [vd_inv]:
  assumes "sp_inv p" and "SP_deleteSnapshot n p = Inr p'"
  shows "sp_inv p'"
proof -
  note r = SP_deleteSnapshot_Inr [OF assms(2)]
  note f = deleteSnapshot_frame [OF r(1)]
  from f(1) assms(1) have "sorted_wrt (<) (map snap_num (sp_snapshots p'))"
    by (auto simp: sp_inv_def intro: sorted_wrt_less_delete)
  moreover from f(2) assms(1) have "distinct (map snap_name (sp_snapshots p'))"
    by (auto simp: sp_inv_def)
  ultimately show ?thesis
    using assms(1) r(2) f(3,4) by (simp add: sp_inv_def sp_ids_def)
qed

lemma sp_inv_deleteAllButLast [vd_inv]:
  assumes "sp_inv p" and "SP_deleteAllButLastSnapshot p = Inr p'"
  shows "sp_inv p'"
proof -
  from assms(2) obtain ss where r: "Snapshots_deleteAllButLastSnapshot (sp_snapshots p) = Inr ss"
    and p': "p' = p\<lparr>sp_snapshots := ss\<rparr>"
    by (auto simp: SP_deleteAllButLastSnapshot_def)
  from r obtain s where ss: "ss = [s]" and "sp_snapshots p \<noteq> []"
    by (auto simp: Snapshots_deleteAllButLastSnapshot_def split: list.splits)
  then obtain s0 where "s0 \<in> set (sp_snapshots p)" by (cases "sp_snapshots p") auto
  with assms(1) have "snapshots_tlogs (sp_snapshots p) \<noteq> []"
    by (auto simp: sp_inv_def snapshots_tlogs_def)
  with ss assms(1) p' Snapshots_deleteAllButLast_tlogs [OF r] show ?thesis
    by (simp add: sp_inv_def sp_ids_def sp_tlogs_def)
qed

lemma sp_inv_deleteAfter [vd_inv]:
  assumes "sp_inv p" and "SP_deleteTLogsAndSnapshotsAfterSnapshot n i p = Inr p'"
    and "i \<notin> set (sp_ids p)"
  shows "sp_inv p'"
proof -
  from assms(2) obtain k where p': "p' = SP_newTLog i (p\<lparr>sp_snapshots := take k (sp_snapshots p), sp_current := []\<rparr>)"
    by (auto simp: SP_deleteTLogsAndSnapshotsAfterSnapshot_def
        Snapshots_deleteTLogsAndSnapshotsAfterSnapshot_def)
  have split: "sp_tlogs p = snapshots_tlogs (take k (sp_snapshots p)) @
      (snapshots_tlogs (drop k (sp_snapshots p)) @ sp_current p)"
    by (simp add: sp_tlogs_def flip: snapshots_tlogs_simps(3) append_assoc)
  have tl: "sp_tlogs p' = snapshots_tlogs (take k (sp_snapshots p)) @ [TLog_new i]"
    by (simp add: p' sp_tlogs_def SP_newTLog_def)
  have "written_prefix (snapshots_tlogs (take k (sp_snapshots p)))"
    using assms(1) split by (simp add: sp_inv_def written_prefix_append)
  moreover have "distinct (sp_ids p')"
    using assms(1,3) split tl by (auto simp: sp_inv_def sp_ids_def TLog_new_def)
  ultimately show ?thesis
    using assms(1) tl
    by (auto simp: sp_inv_def p' SP_newTLog_def sorted_wrt_less_take take_map [symmetric]
        dest: in_set_takeD)
qed

lemma sp_inv_snip [vd_inv]:
  assumes "sp_inv p" and r: "SP_snip i bs p = (found, p')"
  shows "sp_inv p'"
proof -
  obtain f ss where s: "Snapshots_snip i bs (sp_snapshots p) = (f, ss)"
    by (cases "Snapshots_snip i bs (sp_snapshots p)")
  from Snapshots_snip_frame [OF s] obtain k where
    k: "map snap_num ss = take k (map snap_num (sp_snapshots p))"
       "map snap_name ss = take k (map snap_name (sp_snapshots p))" by blast
  from Snapshots_snip_frame [OF s] assms(1) have nes: "\<forall>s \<in> set ss. snap_tlogs s \<noteq> []"
    by (simp add: sp_inv_def)
  from r s consider "sp_snapshots p' = ss" "sp_current p' = snipped i bs (sp_current p)"
    | "sp_snapshots p' = butlast ss" "sp_current p' = snap_tlogs (last ss)" "f"
    by (cases f) (auto simp: SP_snip_def TLogs_snip_eq)
  then show ?thesis
  proof cases
    case 1
    have "snipped i bs (sp_current p) \<noteq> []"
      using assms(1) by (cases "sp_current p") (auto simp: sp_inv_def snipped_def)
    with 1 k nes assms(1) sp_tlogs_snip [OF r] show ?thesis
      by (simp add: sp_inv_def sp_ids_def written_prefix_snipped distinct_snipped sorted_wrt_less_take)
  next
    case 2
    have ne: "snap_tlogs (last ss) \<noteq> []"
      using s 2(3) Snapshots_snip_last [of i bs "sp_snapshots p" ss] by simp
    have "map snap_num (butlast ss) = take (length ss - 1) (take k (map snap_num (sp_snapshots p)))"
      and "map snap_name (butlast ss) = take (length ss - 1) (take k (map snap_name (sp_snapshots p)))"
      by (simp_all add: butlast_conv_take take_map [symmetric] k)
    with 2 ne nes assms(1) sp_tlogs_snip [OF r] in_set_butlastD [of _ ss] show ?thesis
      by (simp add: sp_inv_def sp_ids_def written_prefix_snipped distinct_snipped sorted_wrt_less_take)
  qed
qed


lemma sp_inv_trim [vd_inv]:
  assumes "sp_inv p" and "i \<notin> set (sp_ids p)"
  shows "sp_inv (SP_trimToBackend i p)"
proof -
  obtain ss cur ready where t: "trim_loop (sp_snapshots p) (sp_current p) = (ss, cur, ready)"
    by (cases "trim_loop (sp_snapshots p) (sp_current p)") auto
  then have snaps: "sp_snapshots (SP_trimToBackend i p) = ss"
    by (simp add: SP_trimToBackend_def SP_newTLog_def)
  have cur: "sp_current (SP_trimToBackend i p) \<noteq> []"
    by (simp add: SP_trimToBackend_def SP_newTLog_def t)
  from trim_loop_prefix [OF t] obtain k where k: "ss = take k (sp_snapshots p)" by blast
  have pre: "\<exists>m. takeWhile written_to_backend (sp_tlogs p) = take m (sp_tlogs p)"
    by (metis takeWhile_eq_take)
  then obtain m where m: "takeWhile written_to_backend (sp_tlogs p) = take m (sp_tlogs p)" ..
  have "distinct (map tl_id (take m (sp_tlogs p)))"
    using assms(1) by (simp add: sp_inv_def sp_ids_def take_map [symmetric])
  moreover have "i \<notin> tl_id ` set (take m (sp_tlogs p))"
    using assms(2) by (auto simp: sp_ids_def dest: in_set_takeD)
  ultimately have "distinct (sp_ids (SP_trimToBackend i p))"
    by (simp add: sp_ids_def sp_tlogs_trimToBackend m TLog_new_def)
  moreover have "written_prefix (sp_tlogs (SP_trimToBackend i p))"
    using assms(1) pre by (auto simp: sp_inv_def sp_tlogs_trimToBackend written_prefix_take)
  ultimately show ?thesis
    using assms(1) snaps cur k
    by (auto simp: sp_inv_def take_map [symmetric] sorted_wrt_less_take dest: in_set_takeD)
qed

lemma snapshots_tlogs_update:
  assumes "i < length ss"
  shows "snapshots_tlogs (ss[i := s]) =
    snapshots_tlogs (take i ss) @ snap_tlogs s @ snapshots_tlogs (drop (Suc i) ss)"
  using assms by (simp add: upd_conv_take_nth_drop)

lemma snapshots_tlogs_split:
  assumes "i < length ss"
  shows "snapshots_tlogs ss =
    snapshots_tlogs (take i ss) @ snap_tlogs (ss ! i) @ snapshots_tlogs (drop (Suc i) ss)"
  using snapshots_tlogs_update [OF assms, of "ss ! i"] by simp

lemma written_prefix_replace:
  assumes "written_prefix (a @ b @ c)" and "b \<noteq> []"
    and "\<forall>t \<in> set b. written_to_backend t" and "\<forall>t \<in> set b'. written_to_backend t"
  shows "written_prefix (a @ b' @ c)"
proof -
  obtain t where "t \<in> set b" using assms(2) by (cases b) auto
  with assms(1,3) have "\<forall>t \<in> set a. written_to_backend t" and "written_prefix a" "written_prefix c"
    by (auto simp: written_prefix_append)
  with assms(4) written_prefix_all_written [of b'] show ?thesis
    by (simp add: written_prefix_append)
qed

lemma sp_inv_replace [vd_inv]:
  assumes "sp_inv p" and "SP_replace ins outs n sid p = Inr (r, p')"
    and "SP_isSnapshotInBackend n p = Inr True"
    and "distinct (map tl_id outs)" and "set (map tl_id outs) \<inter> set (sp_ids p) = {}"
  shows "sp_inv p'"
proof -
  let ?ss = "sp_snapshots p"
  let ?i = "find_by_num n ?ss"
  from assms(2) obtain ss' where rep: "Snapshots_replace ins outs n ?ss = Inr ss'"
    and p': "p' = p\<lparr>sp_snapshots := ss', sp_scrub_id := sid\<rparr>"
    by (auto simp: SP_replace_def SP_new_scrub_id_def)
  from rep have w: "\<forall>t \<in> set outs. written_to_backend t" and ne: "?i \<noteq> length ?ss"
    by (auto simp: Snapshots_replace_def list_all_iff)
  then have lt: "?i < length ?ss" by (simp add: find_by_num_def find_pos_less)
  from assms(3) ne have inb: "inBackend (?ss ! ?i)"
    by (auto simp: SP_isSnapshotInBackend_def Snapshots_getSnapshot_num_def)
  from rep ne consider "ss' = ?ss" | "ss' = ?ss[?i := (?ss ! ?i)\<lparr>snap_tlogs := outs\<rparr>]" "outs \<noteq> []"
    by (auto simp: Snapshots_replace_def TLogs_replace_def split: if_splits)
  then show ?thesis
  proof cases
    case 1
    with assms(1) p' show ?thesis by (simp add: sp_inv_def sp_ids_def sp_tlogs_def)
  next
    case 2
    let ?a = "snapshots_tlogs (take ?i ?ss)" and ?c = "snapshots_tlogs (drop (Suc ?i) ?ss) @ sp_current p"
    have old: "sp_tlogs p = ?a @ snap_tlogs (?ss ! ?i) @ ?c"
      by (subst sp_tlogs_def, subst snapshots_tlogs_split [OF lt]) simp
    have new: "sp_tlogs p' = ?a @ outs @ ?c"
      by (simp add: sp_tlogs_def p' 2 snapshots_tlogs_update [OF lt])
    have "written_prefix (sp_tlogs p')"
      unfolding new
    proof (rule written_prefix_replace)
      show "written_prefix (?a @ snap_tlogs (?ss ! ?i) @ ?c)"
        using assms(1) by (simp add: sp_inv_def flip: old)
    qed (use assms(1) lt inb w in \<open>auto simp: inBackend_iff sp_inv_def\<close>)
    moreover have "distinct (sp_ids p')"
      using assms(1,4,5) unfolding sp_inv_def sp_ids_def old new by auto
    moreover have "map snap_num ss' = map snap_num ?ss" "map snap_name ss' = map snap_name ?ss"
      using lt by (simp_all add: 2 map_update list_update_same_conv)
    moreover have "\<forall>s \<in> set ss'. snap_tlogs s \<noteq> []"
      using assms(1) 2 by (auto simp: sp_inv_def dest!: subsetD [OF set_update_subset_insert])
    ultimately show ?thesis
      using assms(1) p' by (simp add: sp_inv_def)
  qed
qed

lemma sp_inv_setScrubbed [vd_inv]:
  assumes "sp_inv p" and "SP_setSnapshotScrubbed n b p = Inr p'"
  shows "sp_inv p'"
proof -
  let ?ss = "sp_snapshots p"
  let ?i = "find_by_num n ?ss"
  from assms(2) have ne: "?i \<noteq> length ?ss"
    and p': "p' = p\<lparr>sp_snapshots := ?ss[?i := (?ss ! ?i)\<lparr>scrubbed := b\<rparr>]\<rparr>"
    by (auto simp: SP_setSnapshotScrubbed_def)
  then have lt: "?i < length ?ss" by (simp add: find_by_num_def find_pos_less)
  have "sp_tlogs p' = sp_tlogs p"
    by (simp add: sp_tlogs_def p' snapshots_tlogs_update [OF lt] snapshots_tlogs_split [OF lt, symmetric])
  moreover have "map snap_num (sp_snapshots p') = map snap_num ?ss"
      "map snap_name (sp_snapshots p') = map snap_name ?ss"
    using lt by (simp_all add: p' map_update list_update_same_conv)
  moreover have "\<forall>s \<in> set (sp_snapshots p'). snap_tlogs s \<noteq> []"
    using assms(1) lt by (auto simp: sp_inv_def p' dest!: subsetD [OF set_update_subset_insert])
  ultimately show ?thesis using assms(1) p' by (simp add: sp_inv_def sp_ids_def)
qed

lemma sp_inv_addSize [vd_inv]:
  assumes "sp_inv p" and "SP_addCurrentBackendSize s p = Inr p'"
  shows "sp_inv p'"
proof -
  from assms(2) have ne: "sp_current p \<noteq> []"
    and p': "p' = p\<lparr>sp_current := butlast (sp_current p) @ [add_to_backend_size s (last (sp_current p))]\<rparr>"
    by (auto simp: SP_addCurrentBackendSize_def)
  have m: "map written_to_backend (sp_tlogs p') = map written_to_backend (sp_tlogs p)"
    "map tl_id (sp_tlogs p') = map tl_id (sp_tlogs p)"
    using ne by (cases "sp_current p" rule: rev_cases;
        simp add: sp_tlogs_def p' add_to_backend_size_def)+
  show ?thesis
    using assms(1) m written_prefix_map [OF m(1)] by (simp add: sp_inv_def sp_ids_def p')
qed

end
