(* ===== verification/Persistor_Properties.thy ===== *)
theory Persistor_Properties
  imports Persistor_Invariant
begin

text \<open>
  The snapshot database as a state machine, and what its queries return. \<open>sp_step\<close> has a rule for
  every state changing operation of src/src/volumedriver/SnapshotPersistor.cpp; its guards are what
  the callers provide: the UUID of a new TLog is fresh, a snapshot number does not wrap around, and
  a scrub result is applied to a snapshot that is on the backend, with new TLogs.
\<close>

subsection \<open>The state machine\<close>

inductive sp_step :: "persistor \<Rightarrow> persistor \<Rightarrow> bool" where
  step_newTLog: "i \<notin> set (sp_ids p) \<Longrightarrow> sp_step p (SP_newTLog i p)"
| step_written: "SP_setTLogWrittenToBackend i True p = Inr p' \<Longrightarrow> sp_step p p'"
| step_snapshot:
    "SP_snapshot n md u cs date fc i p = Inr p' \<Longrightarrow> i \<notin> set (sp_ids p) \<Longrightarrow>
     sp_snapshots p \<noteq> [] \<longrightarrow> snap_num (last (sp_snapshots p)) \<noteq> - 1 \<Longrightarrow> sp_step p p'"
| step_delete: "SP_deleteSnapshot num p = Inr p' \<Longrightarrow> sp_step p p'"
| step_delete_but_last: "SP_deleteAllButLastSnapshot p = Inr p' \<Longrightarrow> sp_step p p'"
| step_restore:
    "SP_deleteTLogsAndSnapshotsAfterSnapshot num i p = Inr p' \<Longrightarrow> i \<notin> set (sp_ids p) \<Longrightarrow>
     sp_step p p'"
| step_snip: "SP_snip i bs p = (found, p') \<Longrightarrow> sp_step p p'"
| step_trim: "i \<notin> set (sp_ids p) \<Longrightarrow> sp_step p (SP_trimToBackend i p)"
| step_replace:
    "SP_replace ins outs num sid p = Inr (r, p') \<Longrightarrow> SP_isSnapshotInBackend num p = Inr True \<Longrightarrow>
     distinct (map tl_id outs) \<Longrightarrow> set (map tl_id outs) \<inter> set (sp_ids p) = {} \<Longrightarrow> sp_step p p'"
| step_scrubbed: "SP_setSnapshotScrubbed num b p = Inr p' \<Longrightarrow> sp_step p p'"
| step_size: "SP_addCurrentBackendSize sz p = Inr p' \<Longrightarrow> sp_step p p'"
| step_scrub_id: "sp_step p (SP_new_scrub_id sid p)"

inductive sp_reachable :: "persistor \<Rightarrow> bool" where
  reach_new: "sp_reachable (SP_new par i sid)"
| reach_step: "sp_reachable p \<Longrightarrow> sp_step p p' \<Longrightarrow> sp_reachable p'"

lemma sp_inv_new: "sp_inv (SP_new par i sid)"
  by (simp add: sp_inv_def SP_new_def SP_newTLog_def sp_ids_def sp_tlogs_def)

lemma sp_inv_new_scrub_id [vd_inv]: "sp_inv p \<Longrightarrow> sp_inv (SP_new_scrub_id sid p)"
  by (simp add: sp_inv_def SP_new_scrub_id_def sp_ids_def sp_tlogs_def)

lemma sp_step_inv: "sp_step p p' \<Longrightarrow> sp_inv p \<Longrightarrow> sp_inv p'"
  by (induction rule: sp_step.induct) (blast intro: vd_inv)+

lemma sp_reachable_sp_inv: "sp_reachable p \<Longrightarrow> sp_inv p"
  by (induction rule: sp_reachable.induct) (blast intro: sp_inv_new sp_step_inv)+

subsection \<open>Helpers for the queries\<close>

lemma verifier_loop_eq:
  "verifier_loop seen ts =
     (if written_prefix ts \<and> (seen \<longrightarrow> (\<forall>t \<in> set ts. \<not> written_to_backend t))
      then Inr (seen \<or> (\<exists>t \<in> set ts. \<not> written_to_backend t))
      else Inl (IOException ''marked as written to backend but a previous TLog was not''))"
  by (induction ts arbitrary: seen) (auto intro: written_prefix_all_unwritten)

lemma verify_snapshots_loop_eq:
  "verify_snapshots_loop seen ss = verifier_loop seen (snapshots_tlogs ss)"
proof (induction ss arbitrary: seen)
  case (Cons s ss)
  show ?case by (auto simp: Cons verifier_loop_eq written_prefix_append)
qed simp

lemma reversed_since_cork_none:
  assumes "written_prefix ts" and "seen \<longrightarrow> (\<forall>t \<in> set ts. written_to_backend t)"
    and "\<forall>c. cork = Some c \<longrightarrow> c \<notin> tl_id ` set ts"
  shows "reversed_since_cork_loop cork seen (rev ts @ us) vec =
    reversed_since_cork_loop cork (seen \<or> (\<exists>t \<in> set ts. written_to_backend t)) us
      (vec @ rev (map tl_id (takeWhile written_to_backend ts)))"
  using assms
proof (induction ts arbitrary: seen vec us rule: rev_induct)
  case (snoc t ts)
  then have ne: "\<not> (cork \<noteq> None \<and> tl_id t = the cork)" by (cases cork) auto
  show ?case
  proof (cases "written_to_backend t")
    case True
    with snoc.prems(1) have all: "\<forall>x \<in> set ts. written_to_backend x"
      by (auto simp: written_prefix_append)
    then have tw: "takeWhile written_to_backend ts = ts"
      by (simp add: takeWhile_eq_all_conv)
    from snoc True ne all show ?thesis
      by (auto simp: tw takeWhile_append_all written_prefix_append)
  next
    case False
    with snoc ne show ?thesis
      by (auto simp: written_prefix_append verify_def takeWhile_tail)
  qed
qed simp

lemma since_cork_current:
  assumes "written_prefix (a @ t # b)" and "written_to_backend t" and "tl_id t \<notin> tl_id ` set b"
  shows "reversed_since_cork_loop (Some (tl_id t)) False (rev (a @ t # b)) [] =
    Inr (True, rev (map tl_id (takeWhile written_to_backend b)))"
proof -
  from assms(1,2) have "written_prefix b" by (auto simp: written_prefix_append)
  with assms(2,3) reversed_since_cork_none [of b False "Some (tl_id t)" "t # rev a" "[]"]
  show ?thesis by simp
qed

text \<open>
  Snapshots whose TLogs and cork are not the wanted cork are passed over, and their written TLogs
  collected. \<open>as\<close> are the snapshots, newest first; \<open>later\<close> is what was collected before.
\<close>

lemma takeWhile_append_prefix:
  assumes "written_prefix (xs @ ys)"
  shows "takeWhile written_to_backend (xs @ ys) =
    takeWhile written_to_backend xs @ takeWhile written_to_backend ys"
proof (cases "\<forall>x \<in> set xs. written_to_backend x")
  case True
  then have "takeWhile written_to_backend xs = xs" by (simp add: takeWhile_eq_all_conv)
  with takeWhile_append_all [OF True] show ?thesis by metis
next
  case False
  then have ex: "\<exists>x \<in> set xs. \<not> written_to_backend x" by blast
  with assms have "\<forall>y \<in> set ys. \<not> written_to_backend y" by (simp add: written_prefix_append)
  then have "takeWhile written_to_backend ys = []" by (cases ys) simp_all
  with takeWhile_append_not_all [OF ex, of ys] show ?thesis by (simp only: append_Nil2)
qed

lemma since_cork_snapshots_none:
  assumes "written_prefix (snapshots_tlogs ss)"
    and "\<forall>c. cork = Some c \<longrightarrow> c \<notin> tl_id ` set (snapshots_tlogs ss) \<and> c \<notin> cork_uuid ` set ss"
  shows "since_cork_snapshots_loop cork (rev ss @ us) vec =
    since_cork_snapshots_loop cork us
      (vec @ rev (map tl_id (takeWhile written_to_backend (snapshots_tlogs ss))))"
  using assms
proof (induction ss arbitrary: vec us rule: rev_induct)
  case (snoc s ss)
  let ?ids = "\<lambda>ts. rev (map tl_id (takeWhile written_to_backend ts))"
  have wp: "written_prefix (snapshots_tlogs ss)" "written_prefix (snap_tlogs s)"
    using snoc.prems(1) by (simp_all add: written_prefix_append)
  have "Snapshot_getReversedTLogsOnBackendSinceLastCork cork s vec =
      Inr (False, vec @ ?ids (snap_tlogs s))"
    using snoc.prems(2) wp(2) reversed_since_cork_none [of "snap_tlogs s" False cork "[]" vec]
    by (cases cork) (auto simp: Snapshot_getReversedTLogsOnBackendSinceLastCork_def
        TLogs_getReversedTLogsOnBackendSinceLastCork_def)
  moreover have "\<forall>c. cork = Some c \<longrightarrow>
      c \<notin> tl_id ` set (snapshots_tlogs ss) \<and> c \<notin> cork_uuid ` set ss"
    using snoc.prems(2) by auto
  ultimately show ?case
    using snoc.IH [OF wp(1)] snoc.prems(1) by (simp add: takeWhile_append_prefix)
qed simp

lemma find_append_case:
  "find P (xs @ ys) = (case find P xs of None \<Rightarrow> find P ys | Some x \<Rightarrow> Some x)"
  by (induction xs) auto

lemma TLogs_isTLogWritten_eq:
  "TLogs_isTLogWrittenToBackend i ts = map_option written_to_backend (find (\<lambda>t. tl_id t = i) ts)"
  by (induction ts) (auto simp: TLogs_isTLogWrittenToBackend_def)

lemma Snapshots_isTLogWritten_eq:
  "Snapshots_isTLogWrittenToBackend i ss \<longleftrightarrow>
     (case find (\<lambda>t. tl_id t = i) (snapshots_tlogs ss) of
        None \<Rightarrow> False | Some t \<Rightarrow> written_to_backend t)"
proof (induction ss)
  case (Cons s ss)
  then show ?case
    by (cases "find (\<lambda>t. tl_id t = i) (snap_tlogs s)")
      (auto simp: TLogs_isTLogWritten_eq find_append_case split: option.splits bool.splits)
qed simp

lemma find_by_num_distinct:
  assumes "distinct (map snap_num ss)" and "s \<in> set ss"
  shows "find_by_num (snap_num s) ss \<noteq> length ss" and "ss ! find_by_num (snap_num s) ss = s"
proof -
  let ?i = "find_by_num (snap_num s) ss"
  show ne: "?i \<noteq> length ss" using assms(2) by (auto simp: find_by_num_def find_pos_lt_iff)
  then have "snap_num (ss ! ?i) = snap_num s" "ss ! ?i \<in> set ss"
    using find_pos_nth [of "\<lambda>t. snap_num t = snap_num s" ss] find_pos_less [of _ ss]
    by (auto simp: find_by_num_def)
  with assms show "ss ! ?i = s" by (metis distinct_map inj_onD)
qed

lemma find_by_num_split:
  "n \<notin> snap_num ` set xs \<Longrightarrow> snap_num s = n \<Longrightarrow> find_by_num n (xs @ s # ys) = length xs"
  unfolding find_by_num_def find_pos_def by (induction xs) auto

lemma all_tlogs_loop_eq:
  assumes "distinct (map snap_num (sp_snapshots p))" and "set xs \<subseteq> set (sp_snapshots p)"
  shows "all_tlogs_loop p (map snap_num xs) vec = vec @ map tl_id (snapshots_tlogs xs)"
  using assms(2) find_by_num_distinct [OF assms(1)]
  by (induction xs arbitrary: vec)
    (auto simp: SP_getTLogsInSnapshot_def Snapshots_getTLogsInSnapshot_def Let_def)

lemma sp_inv_distinct_num: "sp_inv p \<Longrightarrow> distinct (map snap_num (sp_snapshots p))"
  by (simp add: sp_inv_def strict_sorted_iff)

lemma SP_getAllTLogs_ids: "sp_inv p \<Longrightarrow> SP_getAllTLogs True p [] = sp_ids p"
proof -
  assume a: "sp_inv p"
  then have "sort (map snap_num (sp_snapshots p)) = map snap_num (sp_snapshots p)"
    by (simp add: sp_inv_def strict_sorted_iff sorted_sort_id)
  then show ?thesis
    using all_tlogs_loop_eq [OF sp_inv_distinct_num [OF a], of "sp_snapshots p"]
    by (simp add: SP_getAllTLogs_def SP_getCurrentTLogs_def sp_ids_def sp_tlogs_def)
qed

lemma SP_isTLogWritten_eq:
  assumes "distinct (sp_ids p)" and "t \<in> set (sp_tlogs p)"
  shows "SP_isTLogWrittenToBackend (tl_id t) p = written_to_backend t"
proof -
  have *: "find (\<lambda>t'. tl_id t' = tl_id t) ts = (if t \<in> set ts then Some t else None)"
    if "set ts \<subseteq> set (sp_tlogs p)" for ts
    using that assms inj_on_eq_iff [of tl_id "set (sp_tlogs p)"]
    by (induction ts) (auto simp: sp_ids_def distinct_map inj_on_eq_iff)
  show ?thesis
    using * [of "sp_current p"] * [of "snapshots_tlogs (sp_snapshots p)"] assms(2)
    by (auto simp: SP_isTLogWrittenToBackend_def TLogs_isTLogWritten_eq Snapshots_isTLogWritten_eq
        sp_tlogs_def)
qed

lemma written_split_loop_eq:
  assumes "distinct (sp_ids p)" and "set ts \<subseteq> set (sp_tlogs p)" and "written_prefix ts"
    and "\<not> ok \<longrightarrow> (\<forall>t \<in> set ts. \<not> written_to_backend t)"
  shows "written_split_loop p want ok (map tl_id ts) out =
    Inr (out @ map tl_id (filter (\<lambda>t. written_to_backend t = want) ts))"
  using assms(2-)
proof (induction ts arbitrary: ok out)
  case (Cons t ts)
  have "SP_isTLogWrittenToBackend (tl_id t) p = written_to_backend t"
    using SP_isTLogWritten_eq [OF assms(1)] Cons.prems(1) by simp
  with Cons show ?case
    by (cases "written_to_backend t") (auto simp: verify_def written_prefix_all_unwritten)
qed simp

lemma written_prefix_filter:
  "written_prefix ts \<Longrightarrow> filter written_to_backend ts = takeWhile written_to_backend ts \<and>
     filter (\<lambda>t. \<not> written_to_backend t) ts = dropWhile written_to_backend ts"
  by (induction ts) (auto simp: filter_id_conv filter_empty_conv)

lemma backend_size_loop_eq:
  assumes "it \<le> stop" and "stop \<le> it + length ss"
  shows "backend_size_loop ss it stop r =
    Inr (r + TLogs_backend_size (snapshots_tlogs (take (stop - it) ss)))"
  using assms
proof (induction ss arbitrary: it r)
  case (Cons s ss)
  show ?case
  proof (cases "it = stop")
    case False
    with Cons.prems have "Suc it \<le> stop" "stop \<le> Suc it + length ss" by auto
    moreover from this have "stop - it = Suc (stop - Suc it)" by simp
    ultimately show ?thesis
      using Cons.IH [of "Suc it"] False
      by (simp add: Snapshot_backend_size_def TLogs_backend_size_def TLogs_backend_size_loop_sum
          algebra_simps)
  qed (simp add: TLogs_backend_size_def)
qed (simp add: TLogs_backend_size_def)

lemma remove1_find_pos:
  assumes "find_pos (\<lambda>x. f x = n) xs \<noteq> length xs"
  shows "remove1 n (map f xs) =
    map f (take (find_pos (\<lambda>x. f x = n) xs) xs) @ map f (drop (Suc (find_pos (\<lambda>x. f x = n) xs)) xs)"
  using assms by (induction xs) (auto simp: find_pos_def)

lemma deleteSnapshot_nums:
  assumes "Snapshots_deleteSnapshot n ss io = Inr (ss', io')"
  shows "n \<in> snap_num ` set ss \<and> map snap_num ss' = remove1 n (map snap_num ss)"
proof -
  let ?it = "find_by_num n ss"
  from assms have ne: "?it \<noteq> length ss" by (auto simp: Snapshots_deleteSnapshot_def)
  then have "n \<in> snap_num ` set ss" by (auto simp: find_by_num_def find_pos_lt_iff)
  moreover have "map snap_num ss' = map snap_num (take ?it ss) @ map snap_num (drop (Suc ?it) ss)"
  proof (cases "Suc ?it = length ss")
    case False
    with ne find_pos_less [of "\<lambda>s. snap_num s = n" ss]
    have "drop (Suc ?it) ss = ss ! Suc ?it # drop (Suc (Suc ?it)) ss"
      by (simp add: find_by_num_def Cons_nth_drop_Suc)
    with False assms show ?thesis by (auto simp: Snapshots_deleteSnapshot_def Let_def)
  qed (use assms in \<open>auto simp: Snapshots_deleteSnapshot_def Let_def\<close>)
  ultimately show ?thesis
    using ne remove1_find_pos [of snap_num n ss] by (simp add: find_by_num_def)
qed

lemma trim_loop_takeWhile:
  "trim_loop ss cur = (ss', cur', ready) \<Longrightarrow> ss' = takeWhile inBackend ss"
  by (induction ss arbitrary: ss') (auto split: if_splits prod.splits)

lemma find_by_name_split:
  "n \<notin> snap_name ` set xs \<Longrightarrow> snap_name s = n \<Longrightarrow> find_by_name n (xs @ s # ys) = length xs"
  unfolding find_by_name_def find_pos_def by (induction xs) auto

lemma getBackendSize_from_begin:
  assumes "n \<notin> snap_name ` set xs" and "snap_name s = n"
  shows "Snapshots_getBackendSize n None (xs @ s # ys) =
    Inr (TLogs_backend_size (snapshots_tlogs (xs @ [s])))"
  using find_by_name_split [OF assms] backend_size_loop_eq [of 0 "Suc (length xs)" "xs @ s # ys" 0]
  by (simp add: Snapshots_getBackendSize_def verify_def)

lemma getBackendSize_between:
  assumes "a \<notin> snap_name ` set xs" and "snap_name s = a"
    and "b \<notin> snap_name ` set (xs @ s # ys)" and "snap_name t = b"
  shows "Snapshots_getBackendSize b (Some a) (xs @ s # ys @ t # zs) =
    Inr (TLogs_backend_size (snapshots_tlogs (ys @ [t])))"
proof -
  have "find_by_name b (xs @ s # ys @ t # zs) = Suc (length xs + length ys)"
    using find_by_name_split [OF assms(3,4), of zs] by simp
  moreover have "backend_size_loop (ys @ t # zs) (Suc (length xs)) (Suc (Suc (length xs + length ys))) 0 =
      Inr (TLogs_backend_size (snapshots_tlogs (ys @ [t])))"
    using backend_size_loop_eq [of "Suc (length xs)" "Suc (Suc (length xs + length ys))" "ys @ t # zs" 0]
    by (simp add: Suc_diff_le)
  ultimately show ?thesis
    using find_by_name_split [OF assms(1,2)] by (simp add: Snapshots_getBackendSize_def verify_def)
qed

lemma TLogs_replace_eq:
  "TLogs_replace self ins outs =
     (if ins \<noteq> map tl_id self then Inl (IOException ''In tlogs not equal to out ones'')
      else if outs = [] then Inl (IOException ''Result of a scrub cannot be empty, refusing replace'')
      else Inr outs)"
proof -
  have "ins \<noteq> map tl_id self \<longleftrightarrow>
      length ins \<noteq> length self \<or> (\<exists>i < length self. tl_id (self ! i) \<noteq> ins ! i)"
    unfolding list_eq_iff_nth_eq by (metis length_map nth_map)
  then show ?thesis by (simp add: TLogs_replace_def)
qed

subsection \<open>Example states\<close>

text \<open>
  A database with two snapshots (numbers 0 and 1) and TLogs 1 to 3 in the first, 4 in the second
  and 5 as the current one; the first four are on the backend.
\<close>

definition ex_tlog :: "uuid \<Rightarrow> bool \<Rightarrow> tlog" where
  "ex_tlog i w = \<lparr>tl_id = i, written_to_backend = w, tl_size = 10\<rparr>"

definition ex_snap :: "u64 \<Rightarrow> string \<Rightarrow> tlogs \<Rightarrow> snapshot" where
  "ex_snap n nm ts = Snapshot_new n nm ts [] 77 False ''today'' 99"

definition ex_sp :: persistor where
  "ex_sp = \<lparr>sp_current = [ex_tlog 5 False],
     sp_snapshots = [ex_snap 0 ''a'' [ex_tlog 1 True, ex_tlog 2 True, ex_tlog 3 True],
                     ex_snap 1 ''b'' [ex_tlog 4 True]],
     sp_parent = None, sp_scrub_id = 7\<rparr>"

lemmas ex_defs = ex_sp_def ex_snap_def ex_tlog_def Snapshot_new_def

lemma ex_sp_inv: "sp_inv ex_sp"
  by (simp add: sp_inv_def ex_defs sp_ids_def sp_tlogs_def)

lemma ex_reachable: "sp_reachable (SP_trimToBackend 2 (SP_new None 1 7))"
proof (rule reach_step [OF reach_new])
  show "sp_step (SP_new None 1 7) (SP_trimToBackend 2 (SP_new None 1 7))"
    by (rule step_trim) (simp add: sp_ids_def sp_tlogs_def SP_new_def SP_newTLog_def TLog_new_def)
qed

subsection \<open>Properties\<close>



text \<open>
  C16. verifySanity_ accepts a database exactly when no TLog that is marked as written to the
  backend follows an unwritten one in the sequence of all TLogs; otherwise it throws.
\<close>

theorem SP_verifySanity_spec:
  "SP_verifySanity p =
     (if written_prefix (sp_tlogs p) then Inr ()
      else Inl (IOException ''marked as written to backend but a previous TLog was not''))"
  by (auto simp: SP_verifySanity_def verify_snapshots_loop_eq verifier_loop_eq sp_tlogs_def
      written_prefix_append)

text \<open>
  C9. Deleting a snapshot removes exactly that snapshot and loses no TLog: its TLogs move to
  the next snapshot or to the current ones, and the sequence of all TLogs stays the same. It
  throws SnapshotNotFoundException exactly when there is no snapshot with that number.
\<close>

theorem SP_deleteSnapshot_spec:
  "case SP_deleteSnapshot n p of
     Inl e \<Rightarrow> e = SnapshotNotFoundException \<and> n \<notin> snap_num ` set (sp_snapshots p)
   | Inr p' \<Rightarrow> n \<in> snap_num ` set (sp_snapshots p) \<and> sp_tlogs p' = sp_tlogs p \<and>
       map snap_num (sp_snapshots p') = remove1 n (map snap_num (sp_snapshots p)) \<and>
       sp_parent p' = sp_parent p"
proof (cases "SP_deleteSnapshot n p")
  case (Inl e)
  then have "e = SnapshotNotFoundException \<and> find_by_num n (sp_snapshots p) = length (sp_snapshots p)"
    by (auto simp: SP_deleteSnapshot_def Snapshots_deleteSnapshot_def rbind_Inl_iff Let_def
        split: if_splits)
  then show ?thesis
    using Inl find_pos_lt_iff [of "\<lambda>s. snap_num s = n" "sp_snapshots p"]
    by (auto simp: find_by_num_def)
next
  case (Inr p')
  note d = SP_deleteSnapshot_Inr [OF Inr]
  have "sp_parent p' = sp_parent p" using Inr by (auto simp: SP_deleteSnapshot_def)
  with Inr d(2) deleteSnapshot_nums [OF d(1)] show ?thesis by simp
qed

text \<open>
  C12. Marking a TLog as written to the backend succeeds exactly when every TLog before it is
  already marked; it then marks that TLog and changes nothing else in the sequence.
\<close>

theorem SP_setTLogWritten_spec:
  "case SP_setTLogWrittenToBackend i True p of
     Inl e \<Rightarrow> \<not> all_written_before i (sp_tlogs p)
   | Inr p' \<Rightarrow> all_written_before i (sp_tlogs p) \<and> sp_tlogs p' = mark i True (sp_tlogs p)"
  using sp_set_written [of i p] sp_set_written_succeeds [of i p]
  by (auto split: sum.splits)

text \<open>
  C13. trimToBackend, the restart of a volume from its backend, keeps exactly the TLogs before the
  first unwritten one and the snapshots that are completely on the backend before it, and starts a
  new TLog.
\<close>

theorem SP_trimToBackend_spec:
  "sp_tlogs (SP_trimToBackend i p) = takeWhile written_to_backend (sp_tlogs p) @ [TLog_new i] \<and>
   sp_snapshots (SP_trimToBackend i p) = takeWhile inBackend (sp_snapshots p)"
proof
  show "sp_snapshots (SP_trimToBackend i p) = takeWhile inBackend (sp_snapshots p)"
    using trim_loop_takeWhile [of "sp_snapshots p" "sp_current p"]
    by (auto simp: SP_trimToBackend_def SP_newTLog_def split: prod.splits)
qed (rule sp_tlogs_trimToBackend)

text \<open>
  C17. snip keeps everything up to and including the named TLog, with the given backend size, and
  drops the rest; it reports whether the TLog is in the database.
\<close>

theorem SP_snip_spec:
  "SP_snip i bs p = (found, p') \<Longrightarrow>
     found = (i \<in> set (sp_ids p)) \<and> sp_tlogs p' = snipped i bs (sp_tlogs p)"
  by (rule sp_tlogs_snip)

theorem SP_snip_spec_witness:
  "fst (SP_snip 2 None ex_sp) \<and> sp_ids (snd (SP_snip 2 None ex_sp)) = [1, 2]"
  using SP_snip_spec [of 2 None ex_sp "fst (SP_snip 2 None ex_sp)" "snd (SP_snip 2 None ex_sp)"]
  by (simp add: sp_ids_def ex_defs snipped_def) (simp add: sp_tlogs_def)

text \<open>
  C11. For an existing snapshot, getTLogsTillSnapshot and getTLogsAfterSnapshot split the sequence
  of all TLog ids in two, and a restore to that snapshot (deleteTLogsAndSnapshotsAfterSnapshot)
  keeps exactly the first part and starts a new TLog.
\<close>

theorem SP_restore_split:
  assumes "sp_inv p" and "n \<in> snap_num ` set (sp_snapshots p)"
  shows "\<exists>till after p'.
    SP_getTLogsTillSnapshot n p [] = Inr till \<and> SP_getTLogsAfterSnapshot n p [] = Inr after \<and>
    till @ after = sp_ids p \<and>
    SP_deleteTLogsAndSnapshotsAfterSnapshot n fresh p = Inr p' \<and> sp_ids p' = till @ [fresh]"
proof -
  from assms(2) obtain xs s ys where ss: "sp_snapshots p = xs @ s # ys" and n: "n = snap_num s"
    by (auto dest: split_list)
  from sp_inv_distinct_num [OF assms(1)] ss n
  have ni: "n \<notin> snap_num ` set xs" "n \<notin> snap_num ` set ys" by auto
  let ?till = "map tl_id (snapshots_tlogs (xs @ [s]))"
  have "find_by_num n (sp_snapshots p) = length xs"
    using find_by_num_split [OF ni(1)] n by (simp add: ss)
  then have "SP_deleteTLogsAndSnapshotsAfterSnapshot n fresh p =
      Inr (SP_newTLog fresh (p\<lparr>sp_snapshots := xs @ [s], sp_current := []\<rparr>))"
    by (simp add: SP_deleteTLogsAndSnapshotsAfterSnapshot_def
        Snapshots_deleteTLogsAndSnapshotsAfterSnapshot_def find_or_throw_def ss)
  moreover have "SP_getTLogsTillSnapshot n p [] = Inr ?till"
    using getTLogsTill_split [OF ni(1), of s ys] n by (simp add: SP_getTLogsTillSnapshot_def ss)
  moreover have "SP_getTLogsAfterSnapshot n p [] =
      Inr (map tl_id (snapshots_tlogs ys @ sp_current p))"
    using tlogs_after_loop_split [OF ni(2), of s "rev xs" "[]"] n
    by (simp add: SP_getTLogsAfterSnapshot_def Snapshots_getTLogsAfterSnapshot_def ss)
  ultimately show ?thesis
    by (simp add: sp_ids_def sp_tlogs_def ss SP_newTLog_def TLog_new_def)
qed

theorem SP_restore_split_witness:
  "\<exists>till after p'.
    SP_getTLogsTillSnapshot 0 ex_sp [] = Inr till \<and> SP_getTLogsAfterSnapshot 0 ex_sp [] = Inr after \<and>
    till @ after = sp_ids ex_sp \<and>
    SP_deleteTLogsAndSnapshotsAfterSnapshot 0 9 ex_sp = Inr p' \<and> sp_ids p' = till @ [9]"
  by (rule SP_restore_split [OF ex_sp_inv]) (simp add: ex_defs)

text \<open>
  C15. getTLogsWrittenToBackend and getTLogsNotWrittenToBackend never run into their assertion on a
  database that satisfies the invariant, and together return every TLog once, in order.
\<close>

theorem SP_written_partition:
  assumes "sp_inv p"
  shows "\<exists>w u. SP_getTLogsWrittenToBackend p [] = Inr w \<and> SP_getTLogsNotWrittenToBackend p [] = Inr u \<and>
    w @ u = sp_ids p \<and> w = map tl_id (takeWhile written_to_backend (sp_tlogs p))"
proof -
  have i: "distinct (sp_ids p)" "written_prefix (sp_tlogs p)" using assms by (simp_all add: sp_inv_def)
  note split = written_split_loop_eq [OF i(1) subset_refl i(2), of True]
  note f = written_prefix_filter [OF i(2)]
  have "SP_getTLogsWrittenToBackend p [] = Inr (map tl_id (takeWhile written_to_backend (sp_tlogs p)))"
    using split [of True "[]"] f
    by (simp add: SP_getTLogsWrittenToBackend_def SP_getAllTLogs_ids [OF assms] sp_ids_def)
  moreover have "SP_getTLogsNotWrittenToBackend p [] =
      Inr (map tl_id (dropWhile written_to_backend (sp_tlogs p)))"
    using split [of False "[]"] f
    by (simp add: SP_getTLogsNotWrittenToBackend_def SP_getAllTLogs_ids [OF assms] sp_ids_def)
  ultimately show ?thesis
    by (simp add: sp_ids_def flip: map_append)
qed

theorem SP_written_partition_witness:
  "\<exists>w u. SP_getTLogsWrittenToBackend ex_sp [] = Inr w \<and>
    SP_getTLogsNotWrittenToBackend ex_sp [] = Inr u \<and> w @ u = [1, 2, 3, 4, 5] \<and> w = [1, 2, 3, 4]"
  using SP_written_partition [OF ex_sp_inv] by (simp add: sp_ids_def sp_tlogs_def ex_defs)

text \<open>
  C10. Replaying TLogs after a restart: if the metadata store's cork is that of a snapshot on the
  backend (and of no later snapshot or TLog), getTLogsOnBackendSinceLastCork returns exactly the
  ids of the written TLogs after that snapshot, oldest first.
\<close>

theorem SP_since_snapshot_cork:
  assumes "sp_inv p" and "sp_snapshots p = xs @ s # ys" and "inBackend s"
    and "cork_uuid s \<notin> cork_uuid ` set ys"
    and "cork_uuid s \<notin> tl_id ` set (snapshots_tlogs ys @ sp_current p)"
    and "sp_parent p = None \<longleftrightarrow> implicit_start_cork = None"
  shows "SP_getTLogsOnBackendSinceLastCork (Some (cork_uuid s)) implicit_start_cork p =
    Inr (map tl_id (takeWhile written_to_backend (snapshots_tlogs ys @ sp_current p)))"
proof -
  let ?c = "Some (cork_uuid s)"
  have "sp_tlogs p = (snapshots_tlogs xs @ snap_tlogs s) @ snapshots_tlogs ys @ sp_current p"
    by (simp add: sp_tlogs_def assms(2))
  with assms(1) have wp: "written_prefix (snapshots_tlogs ys @ sp_current p)"
    by (metis sp_inv_def written_prefix_append)
  from wp have wps: "written_prefix (snapshots_tlogs ys)" "written_prefix (sp_current p)"
    unfolding written_prefix_append by blast+
  have "TLogs_getReversedTLogsOnBackendSinceLastCork ?c (sp_current p) [] =
      Inr (False, rev (map tl_id (takeWhile written_to_backend (sp_current p))))"
    using reversed_since_cork_none [OF wps(2), of False ?c "[]" "[]"] assms(5)
    by (simp add: TLogs_getReversedTLogsOnBackendSinceLastCork_def image_Un)
  moreover have "Snapshot_getReversedTLogsOnBackendSinceLastCork ?c s vec = Inr (True, vec)" for vec
    using assms(3) by (simp add: Snapshot_getReversedTLogsOnBackendSinceLastCork_def inBackend_iff)
  moreover from this have "since_cork_snapshots_loop ?c (rev (sp_snapshots p)) vec =
      Inr (True, vec @ rev (map tl_id (takeWhile written_to_backend (snapshots_tlogs ys))))" for vec
    using since_cork_snapshots_none [OF wps(1), of ?c "s # rev xs" vec] assms(4,5)
    by (simp add: assms(2) image_Un)
  ultimately show ?thesis
    using assms(6) unfolding takeWhile_append_prefix [OF wp]
    by (auto simp: SP_getTLogsOnBackendSinceLastCork_def verify_def)
qed

theorem SP_since_snapshot_cork_witness:
  "SP_getTLogsOnBackendSinceLastCork (Some 3) None ex_sp = Inr [4]"
  using SP_since_snapshot_cork [OF ex_sp_inv, of "[]" "hd (sp_snapshots ex_sp)"
      "[sp_snapshots ex_sp ! 1]" None]
  by (simp add: ex_defs inBackend_def)

text \<open>
  C18. Backend sizes add up: for two snapshots a before b with distinct names, the size up to b is
  the size up to a plus the size between a and b; no assertion of getBackendSize fires.
\<close>

theorem getBackendSize_telescopes:
  assumes "distinct (map snap_name ss)" and "ss = xs @ s # ys @ t # zs"
  shows "\<exists>x y z. Snapshots_getBackendSize (snap_name s) None ss = Inr x \<and>
    Snapshots_getBackendSize (snap_name t) (Some (snap_name s)) ss = Inr y \<and>
    Snapshots_getBackendSize (snap_name t) None ss = Inr z \<and> z = x + y"
proof -
  have ni: "snap_name s \<notin> snap_name ` set xs" "snap_name t \<notin> snap_name ` set (xs @ s # ys)"
    using assms by auto
  show ?thesis
    using getBackendSize_from_begin [OF ni(1) refl, of "ys @ t # zs"]
      getBackendSize_from_begin [OF ni(2) refl, of zs] getBackendSize_between [OF ni(1) refl ni(2) refl, of zs]
    by (simp add: assms(2) TLogs_backend_size_sum algebra_simps)
qed

theorem getBackendSize_telescopes_witness:
  "\<exists>x y z. Snapshots_getBackendSize ''a'' None (sp_snapshots ex_sp) = Inr x \<and>
    Snapshots_getBackendSize ''b'' (Some ''a'') (sp_snapshots ex_sp) = Inr y \<and>
    Snapshots_getBackendSize ''b'' None (sp_snapshots ex_sp) = Inr z \<and> z = x + y"
  using getBackendSize_telescopes [of "sp_snapshots ex_sp" "[]" "sp_snapshots ex_sp ! 0" "[]"
      "sp_snapshots ex_sp ! 1" "[]"]
  by (simp add: ex_defs)



end
