(* ===== verification/Effects.thy ===== *)
theory Effects
  imports VD_Prelude
begin

text \<open>
  Code that changes an object and may throw: a function from the object's state to a result and the
  state that is left behind. Unlike a result that carries the new state only on success, this keeps
  what the C++ code leaves in the object when an exception passes through it, which matters where
  a caller catches the exception and goes on (\<open>ignore_errors\<close>). The second part is the
  \<^verbatim>\<open>std::map\<close> of the standard library, as the list of its pairs in key order.
\<close>

subsection \<open>State and exceptions\<close>

type_synonym ('s, 'a) sm = "'s \<Rightarrow> 'a result \<times> 's"

definition sret :: "'a \<Rightarrow> ('s, 'a) sm" where
  "sret x s = (Inr x, s)"

definition sthrow :: "vd_error \<Rightarrow> ('s, 'a) sm" where
  "sthrow e s = (Inl e, s)"

definition sbind :: "('s, 'a) sm \<Rightarrow> ('a \<Rightarrow> ('s, 'b) sm) \<Rightarrow> ('s, 'b) sm" where
  "sbind m f s = (case m s of (Inl e, s') \<Rightarrow> (Inl e, s') | (Inr x, s') \<Rightarrow> f x s')"

definition sget :: "('s \<Rightarrow> 'a) \<Rightarrow> ('s, 'a) sm" where
  "sget f s = (Inr (f s), s)"

definition smod :: "('s \<Rightarrow> 's) \<Rightarrow> ('s, unit) sm" where
  "smod f s = (Inr (), f s)"

definition sverify :: "bool \<Rightarrow> string \<Rightarrow> ('s, unit) sm" where
  "sverify b msg s = (verify b msg, s)"

definition slift :: "'a result \<Rightarrow> ('s, 'a) sm" where
  "slift r s = (r, s)"

text \<open>\<^verbatim>\<open>try\<close> with a handler for every exception, which sees the state the body left.\<close>

definition scatch :: "('s, 'a) sm \<Rightarrow> (vd_error \<Rightarrow> ('s, 'a) sm) \<Rightarrow> ('s, 'a) sm" where
  "scatch m h s = (case m s of (Inl e, s') \<Rightarrow> h e s' | (Inr x, s') \<Rightarrow> (Inr x, s'))"

fun sfor :: "'a list \<Rightarrow> ('a \<Rightarrow> ('s, unit) sm) \<Rightarrow> ('s, unit) sm" where
  "sfor [] f = sret ()"
| "sfor (x # xs) f = sbind (f x) (\<lambda>_. sfor xs f)"

text \<open>An operation of a member object, run inside the owner.\<close>

definition szoom :: "('s \<Rightarrow> 'b) \<Rightarrow> ('b \<Rightarrow> 's \<Rightarrow> 's) \<Rightarrow> ('b, 'a) sm \<Rightarrow> ('s, 'a) sm" where
  "szoom sel upd m s = (case m (sel s) of (r, b) \<Rightarrow> (r, upd b s))"

lemma sret_Inr [simp]: "sret x s = (r, s') \<longleftrightarrow> r = Inr x \<and> s' = s"
  by (auto simp: sret_def)

lemma sthrow_Inr [simp]: "sthrow e s = (r, s') \<longleftrightarrow> r = Inl e \<and> s' = s"
  by (auto simp: sthrow_def)

lemma sbind_Inr [simp]:
  "sbind m f s = (Inr y, s'') \<longleftrightarrow> (\<exists>x s'. m s = (Inr x, s') \<and> f x s' = (Inr y, s''))"
  by (auto simp: sbind_def split: prod.splits sum.splits)

lemma sget_Inr [simp]: "sget f s = (r, s') \<longleftrightarrow> r = Inr (f s) \<and> s' = s"
  by (auto simp: sget_def)

lemma smod_Inr [simp]: "smod f s = (r, s') \<longleftrightarrow> r = Inr () \<and> s' = f s"
  by (auto simp: smod_def)

lemma sverify_Inr [simp]: "sverify b msg s = (Inr u, s') \<longleftrightarrow> b \<and> s' = s"
  by (auto simp: sverify_def)

lemma slift_Inr [simp]: "slift q s = (r, s') \<longleftrightarrow> q = r \<and> s' = s"
  by (auto simp: slift_def)

lemma szoom_Inr [simp]:
  "szoom sel upd m s = (r, s') \<longleftrightarrow> (\<exists>b. m (sel s) = (r, b) \<and> s' = upd b s)"
  by (auto simp: szoom_def split: prod.splits)

lemma scatch_Inr:
  "scatch m h s = (Inr x, s'') \<longleftrightarrow>
     m s = (Inr x, s'') \<or> (\<exists>e s'. m s = (Inl e, s') \<and> h e s' = (Inr x, s''))"
  by (auto simp: scatch_def split: prod.splits sum.splits)

text \<open>One step of a computation whose first part is known.\<close>

lemma sbind_run: "m s = (Inr x, s') \<Longrightarrow> sbind m k s = k x s'"
  by (simp add: sbind_def)

lemma sbind_sget: "sbind (sget f) k s = k (f s) s"
  by (simp add: sbind_def sget_def)

lemma sbind_verified: "b \<Longrightarrow> sbind (sverify b t) k s = k () s"
  by (simp add: sbind_def sverify_def verify_def)

lemma sfor_append: "sfor (xs @ ys) f = sbind (sfor xs f) (\<lambda>_. sfor ys f)"
proof (induction xs)
  case Nil
  show ?case by (simp add: sbind_def sret_def fun_eq_iff)
next
  case (Cons x xs)
  then show ?case by (auto simp: sbind_def fun_eq_iff split: prod.splits sum.splits)
qed

text \<open>What every step of a loop keeps, the loop keeps.\<close>

lemma sfor_inv:
  assumes "sfor xs f s = (Inr (), s')" and "I s"
    and "\<And>x s s' u. x \<in> set xs \<Longrightarrow> I s \<Longrightarrow> f x s = (Inr u, s') \<Longrightarrow> I s'"
  shows "I s'"
  using assms
proof (induction xs arbitrary: s)
  case (Cons x xs)
  from Cons.prems(1) obtain u s1 where s1: "f x s = (Inr u, s1)" "sfor xs f s1 = (Inr (), s')"
    by auto
  show ?case
  proof (rule Cons.IH [OF s1(2)])
    show "I s1" using Cons.prems(2,3) s1(1) by (meson list.set_intros(1))
  qed (use Cons.prems(3) in \<open>meson list.set_intros(2)\<close>)
qed simp

subsection \<open>Ordered maps\<close>

type_synonym 'v std_map = "(u64 \<times> 'v) list"

definition std_map_inv :: "('k::linorder \<times> 'v) list \<Rightarrow> bool" where
  "std_map_inv m \<longleftrightarrow> sorted_wrt (<) (map fst m)"

fun std_map_insert :: "'k::linorder \<Rightarrow> 'v \<Rightarrow> ('k \<times> 'v) list \<Rightarrow> ('k \<times> 'v) list" where
  "std_map_insert k v [] = [(k, v)]"
| "std_map_insert k v ((k', v') # m) =
     (if k < k' then (k, v) # (k', v') # m
      else if k = k' then (k, v) # m
      else (k', v') # std_map_insert k v m)"

lemma set_std_map_insert: "fst ` set (std_map_insert k v m) = insert k (fst ` set m)"
  by (induction k v m rule: std_map_insert.induct) auto

lemma std_map_insert_inv [intro]: "std_map_inv m \<Longrightarrow> std_map_inv (std_map_insert k v m)"
proof (induction k v m rule: std_map_insert.induct)
  case (2 k v k' v' m)
  then show ?case
    using set_std_map_insert [of k v m] by (auto simp: std_map_inv_def image_iff Ball_def)
qed (simp add: std_map_inv_def)

lemma std_map_lookup_insert:
  assumes "std_map_inv m"
  shows "map_of (std_map_insert k v m) = (map_of m)(k \<mapsto> v)"
  using assms
proof (induction k v m rule: std_map_insert.induct)
  case (2 k v k' v' m)
  then show ?case by (auto simp: std_map_inv_def fun_eq_iff)
qed auto

lemma std_map_distinct: "std_map_inv m \<Longrightarrow> distinct (map fst m)"
  by (simp add: std_map_inv_def strict_sorted_iff)

end
