(* ===== verification/Locations.thy ===== *)
theory Locations
  imports VD_Prelude
begin

unbundle bit_operations_syntax

text \<open>
  Where a cluster of a volume is stored: \<open>SCO\<close> (src/src/volumedriver/SCO.h, SCO.cpp), the name of a
  storage container object; \<open>ClusterLocation\<close>, a SCO and an offset in it; \<open>ClusterLocationAndHash\<close>,
  a location with the hash of the data; and \<open>Entry\<close> (Entry.h, Entry.cpp), the record of a TLog.
  The textual names of SCOs and locations are parsed and printed as the code does it.
\<close>

subsection \<open>SCO\<close>

record sco =
  sco_version :: u8
  sco_number :: u32
  sco_cloneID :: u8

definition SCO_new :: "u32 \<Rightarrow> u8 \<Rightarrow> u8 \<Rightarrow> sco" where
  "SCO_new number cloneID version =
     \<lparr>sco_version = version, sco_number = number, sco_cloneID = cloneID\<rparr>"

definition SCO_asBool :: "sco \<Rightarrow> bool" where
  "SCO_asBool s = (sco_number s \<noteq> 0 \<or> sco_version s \<noteq> 0 \<or> sco_cloneID s \<noteq> 0)"

definition SCO_less :: "sco \<Rightarrow> sco \<Rightarrow> bool" where
  "SCO_less s t =
     (sco_number s < sco_number t \<or>
      (sco_number s = sco_number t \<and> sco_version s < sco_version t) \<or>
      (sco_number s = sco_number t \<and> sco_version s = sco_version t \<and> sco_cloneID s < sco_cloneID t))"

definition SCO_greater :: "sco \<Rightarrow> sco \<Rightarrow> bool" where
  "SCO_greater s t =
     (sco_number s > sco_number t \<or>
      (sco_number s = sco_number t \<and> sco_version s > sco_version t) \<or>
      (sco_number s = sco_number t \<and> sco_version s = sco_version t \<and> sco_cloneID s > sco_cloneID t))"

definition SCO_incrementNumber :: "u32 \<Rightarrow> sco \<Rightarrow> sco" where
  "SCO_incrementNumber inc s = s\<lparr>sco_number := sco_number s + inc\<rparr>"

definition SCO_incrementVersion :: "u8 \<Rightarrow> sco \<Rightarrow> sco" where
  "SCO_incrementVersion inc s = s\<lparr>sco_version := sco_version s + inc\<rparr>"

definition SCO_incrementCloneID :: "u8 \<Rightarrow> sco \<Rightarrow> sco" where
  "SCO_incrementCloneID inc s = s\<lparr>sco_cloneID := sco_cloneID s + inc\<rparr>"

definition SCO_decrementNumber :: "u32 \<Rightarrow> sco \<Rightarrow> sco" where
  "SCO_decrementNumber dec s = s\<lparr>sco_number := sco_number s - dec\<rparr>"

definition SCO_decrementVersion :: "u8 \<Rightarrow> sco \<Rightarrow> sco" where
  "SCO_decrementVersion dec s = s\<lparr>sco_version := sco_version s - dec\<rparr>"

definition SCO_decrementCloneID :: "u8 \<Rightarrow> sco \<Rightarrow> sco" where
  "SCO_decrementCloneID dec s = s\<lparr>sco_cloneID := sco_cloneID s - dec\<rparr>"

text \<open>
  \<^verbatim>\<open>str[i]\<close> of a \<^verbatim>\<open>std::string\<close>: the terminating zero at the end. \<open>isxdigit\<close> is that of the C
  locale.
\<close>

definition char_at :: "string \<Rightarrow> nat \<Rightarrow> char" where
  "char_at s i = (if i < length s then s ! i else CHR 0x00)"

definition isxdigit :: "char \<Rightarrow> bool" where
  "isxdigit c = (c \<in> set ''0123456789abcdefABCDEF'')"

definition hasonlyhexdigits :: "string \<Rightarrow> nat \<Rightarrow> nat \<Rightarrow> bool result" where
  "hasonlyhexdigits s i1 i2 =
     rbind (verify (i1 \<le> i2) ''i1 <= i2'') (\<lambda>_.
       Inr (list_all (\<lambda>i. isxdigit (char_at s i)) [i1 ..< i2]))"

definition isSCOString :: "string \<Rightarrow> bool" where
  "isSCOString s =
     (length s = 14 \<and> hasonlyhexdigits s 0 2 = Inr True \<and> char_at s 2 = CHR ''_'' \<and>
      hasonlyhexdigits s 3 11 = Inr True \<and> char_at s 11 = CHR ''_'' \<and>
      hasonlyhexdigits s 12 14 = Inr True)"

text \<open>A number on a \<^verbatim>\<open>std::hex\<close> stream, and \<^verbatim>\<open>setw\<close> with the fill character 0.\<close>

definition hexdigit :: "nat \<Rightarrow> char" where
  "hexdigit d = ''0123456789abcdef'' ! d"

fun hexstr :: "nat \<Rightarrow> string" where
  "hexstr n = (if n < 16 then [hexdigit n] else hexstr (n div 16) @ [hexdigit (n mod 16)])"

declare hexstr.simps [simp del]

definition setw :: "nat \<Rightarrow> string \<Rightarrow> string" where
  "setw w s = replicate (w - length s) (CHR ''0'') @ s"

definition SCO_str :: "sco \<Rightarrow> string" where
  "SCO_str s =
     setw 2 (hexstr (unat (sco_cloneID s))) @ ''_'' @ setw 8 (hexstr (unat (sco_number s))) @ ''_'' @
     setw 2 (hexstr (unat (sco_version s)))"

text \<open>The switch of \<open>gethexnum\<close>.\<close>

definition hexval :: "char \<Rightarrow> u64 option" where
  "hexval c =
     (if c \<in> set ''0123456789'' then Some (of_nat (of_char c - of_char CHR ''0''))
      else if c = CHR ''a'' \<or> c = CHR ''A'' then Some 0xa
      else if c = CHR ''b'' \<or> c = CHR ''B'' then Some 0xb
      else if c = CHR ''c'' \<or> c = CHR ''C'' then Some 0xc
      else if c = CHR ''d'' \<or> c = CHR ''D'' then Some 0xd
      else if c = CHR ''e'' \<or> c = CHR ''E'' then Some 0xe
      else if c = CHR ''f'' \<or> c = CHR ''F'' then Some 0xf
      else None)"

fun gethexnum_loop :: "string \<Rightarrow> u64 \<Rightarrow> u64 result" where
  "gethexnum_loop [] res = Inr res"
| "gethexnum_loop (c # cs) res =
     (case hexval c of
        None \<Rightarrow> Inl (IOException ''Not a valid hexadecimal character '')
      | Some d \<Rightarrow> gethexnum_loop cs (push_bit 4 res + d))"

definition gethexnum :: "string \<Rightarrow> nat \<Rightarrow> nat \<Rightarrow> u64 result" where
  "gethexnum s i1 i2 =
     rbind (verify (i1 < i2) ''i1 < i2'') (\<lambda>_. gethexnum_loop (map (char_at s) [i1 ..< i2]) 0)"

definition SCO_parse :: "string \<Rightarrow> sco result" where
  "SCO_parse s =
     (if \<not> isSCOString s then Inl (IOException ''Not a SCOName string'')
      else rbind (gethexnum s 0 2) (\<lambda>c.
           rbind (gethexnum s 3 11) (\<lambda>n.
           rbind (gethexnum s 12 14) (\<lambda>v.
             Inr \<lparr>sco_version = ucast v, sco_number = ucast n, sco_cloneID = ucast c\<rparr>))))"

subsection \<open>ClusterLocation\<close>

record cluster_location =
  cl_offset :: u16
  cl_sco :: sco

definition ClusterLocation_new :: "u32 \<Rightarrow> u16 \<Rightarrow> u8 \<Rightarrow> u8 \<Rightarrow> cluster_location" where
  "ClusterLocation_new number offset cloneID version =
     \<lparr>cl_offset = offset, cl_sco = SCO_new number cloneID version\<rparr>"

definition isNull :: "cluster_location \<Rightarrow> bool" where
  "isNull l = (sco_number (cl_sco l) = 0)"

definition ClusterLocation_cloneID :: "u8 \<Rightarrow> cluster_location \<Rightarrow> cluster_location" where
  "ClusterLocation_cloneID c l = l\<lparr>cl_sco := (cl_sco l)\<lparr>sco_cloneID := c\<rparr>\<rparr>"

definition ClusterLocation_incrementOffset :: "u16 \<Rightarrow> cluster_location \<Rightarrow> cluster_location" where
  "ClusterLocation_incrementOffset inc l = l\<lparr>cl_offset := cl_offset l + inc\<rparr>"

definition ClusterLocation_incrementCloneID :: "u8 \<Rightarrow> cluster_location \<Rightarrow> cluster_location" where
  "ClusterLocation_incrementCloneID inc l = l\<lparr>cl_sco := SCO_incrementCloneID inc (cl_sco l)\<rparr>"

definition ClusterLocation_incrementNumber :: "u32 \<Rightarrow> cluster_location \<Rightarrow> cluster_location" where
  "ClusterLocation_incrementNumber inc l = l\<lparr>cl_sco := SCO_incrementNumber inc (cl_sco l)\<rparr>"

definition ClusterLocation_incrementVersion :: "u8 \<Rightarrow> cluster_location \<Rightarrow> cluster_location" where
  "ClusterLocation_incrementVersion inc l = l\<lparr>cl_sco := SCO_incrementVersion inc (cl_sco l)\<rparr>"

definition ClusterLocation_decrementCloneID :: "u8 \<Rightarrow> cluster_location \<Rightarrow> cluster_location" where
  "ClusterLocation_decrementCloneID dec l = l\<lparr>cl_sco := SCO_decrementCloneID dec (cl_sco l)\<rparr>"

definition ClusterLocation_decrementNumber :: "u32 \<Rightarrow> cluster_location \<Rightarrow> cluster_location" where
  "ClusterLocation_decrementNumber dec l = l\<lparr>cl_sco := SCO_decrementNumber dec (cl_sco l)\<rparr>"

definition ClusterLocation_decrementVersion :: "u8 \<Rightarrow> cluster_location \<Rightarrow> cluster_location" where
  "ClusterLocation_decrementVersion dec l = l\<lparr>cl_sco := SCO_decrementVersion dec (cl_sco l)\<rparr>"

definition isClusterLocationString :: "string \<Rightarrow> bool \<Rightarrow> bool" where
  "isClusterLocationString s test_sco_string =
     (if length s \<noteq> 19 then False
      else if test_sco_string \<and> \<not> isSCOString (take 14 s) then False
      else if char_at s 14 \<noteq> CHR '':'' then False
      else hasonlyhexdigits s 15 19 = Inr True)"

definition ClusterLocation_parse :: "string \<Rightarrow> cluster_location result" where
  "ClusterLocation_parse s =
     rbind (SCO_parse (take 14 s)) (\<lambda>sc.
       if \<not> isClusterLocationString s False then Inl (IOException ''Not an offset string'')
       else rbind (gethexnum s 15 19) (\<lambda>off. Inr \<lparr>cl_offset = ucast off, cl_sco = sc\<rparr>))"

definition ClusterLocation_str :: "cluster_location \<Rightarrow> string" where
  "ClusterLocation_str l = SCO_str (cl_sco l) @ '':'' @ setw 4 (hexstr (unat (cl_offset l)))"

subsection \<open>ClusterLocationAndHash\<close>

text \<open>
  The hash (\<open>youtils::Weed\<close>, an MD5 sum) is a 16 byte value. A build without
  \<^verbatim>\<open>ENABLE_MD5_HASH\<close> has no such member; it is constantly 0 there. The hash of a cluster of
  zeroes is a parameter.
\<close>

record clh =
  clusterLocation :: cluster_location
  weed :: "128 word"

definition null_location :: cluster_location where
  "null_location = ClusterLocation_new 0 0 0 0"

definition clh_zero :: clh where
  "clh_zero = \<lparr>clusterLocation = null_location, weed = 0\<rparr>"

definition discarded_location_and_hash :: "128 word \<Rightarrow> clh" where
  "discarded_location_and_hash zero_weed = \<lparr>clusterLocation = null_location, weed = zero_weed\<rparr>"

definition clh_cloneID :: "u8 \<Rightarrow> clh \<Rightarrow> clh" where
  "clh_cloneID c l = l\<lparr>clusterLocation := ClusterLocation_cloneID c (clusterLocation l)\<rparr>"

subsection \<open>Entry\<close>

datatype entry_type = SyncTC | TLogCRC | SCOCRC | LOC

fun entry_type_value :: "entry_type \<Rightarrow> u64" where
  "entry_type_value SyncTC = 0"
| "entry_type_value TLogCRC = 1"
| "entry_type_value SCOCRC = 2"
| "entry_type_value LOC = 3"

record entry =
  e_clusteraddress :: u64
  e_loc :: clh

definition max_valid_cluster_address :: u64 where
  "max_valid_cluster_address = push_bit 35 1 - 1"

definition checksum_shift :: nat where
  "checksum_shift = 32"

definition checksum_mask :: u64 where
  "checksum_mask = push_bit checksum_shift 1 - 1"

definition Entry_sync :: entry where
  "Entry_sync = \<lparr>e_clusteraddress = 0, e_loc = clh_zero\<rparr>"

definition Entry_loc :: "u64 \<Rightarrow> clh \<Rightarrow> entry result" where
  "Entry_loc ca loc =
     rbind (verify (\<not> isNull (clusterLocation loc)) ''not loc_and_hash_.clusterLocation.isNull()'') (\<lambda>_.
     rbind (verify (ca \<le> max_valid_cluster_address) ''clusteraddress_ <= max_valid_cluster_address()'') (\<lambda>_.
       Inr \<lparr>e_clusteraddress = ca, e_loc = loc\<rparr>))"

definition Entry_crc :: "u32 \<Rightarrow> entry_type \<Rightarrow> entry result" where
  "Entry_crc cs t =
     rbind (verify (t = TLogCRC \<or> t = SCOCRC) ''type == Type::TLogCRC or type == Type::SCOCRC'') (\<lambda>_.
       Inr \<lparr>e_clusteraddress = ucast cs OR push_bit checksum_shift (entry_type_value t),
            e_loc = clh_zero\<rparr>)"

definition Entry_clusterAddress :: "entry \<Rightarrow> u64 result" where
  "Entry_clusterAddress e =
     (if \<not> isNull (clusterLocation (e_loc e))
      then rbind (verify (e_clusteraddress e \<le> max_valid_cluster_address)
                    ''clusteraddress_ <= max_valid_cluster_address()'') (\<lambda>_. Inr (e_clusteraddress e))
      else Inr (e_clusteraddress e))"

definition Entry_getCheckSum :: "entry \<Rightarrow> u32" where
  "Entry_getCheckSum e = ucast (e_clusteraddress e AND checksum_mask)"

definition Entry_type :: "entry \<Rightarrow> entry_type result" where
  "Entry_type e =
     (if \<not> isNull (clusterLocation (e_loc e)) then Inr LOC
      else let crc_type = drop_bit checksum_shift (e_clusteraddress e)
           in if crc_type = entry_type_value TLogCRC then Inr TLogCRC
              else if crc_type = entry_type_value SCOCRC then Inr SCOCRC
              else if e_clusteraddress e = entry_type_value SyncTC then Inr SyncTC
              else Inl InvalidEntryException)"

text \<open>The checkers \<open>isLocation\<close>, \<open>isTLogCRC\<close>, \<open>isSCOCRC\<close> and \<open>isSync\<close>: a rubbish entry is none of them.\<close>

definition Entry_is :: "entry_type \<Rightarrow> entry \<Rightarrow> bool" where
  "Entry_is t e = (case Entry_type e of Inr t' \<Rightarrow> t' = t | Inl _ \<Rightarrow> False)"

subsection \<open>Hexadecimal strings\<close>

lemma hexval_hexdigit: "d < 16 \<Longrightarrow> hexval (hexdigit d) = Some (of_nat d)"
proof -
  have "list_all (\<lambda>d. hexval (hexdigit d) = Some (of_nat d)) [0..<16]" by code_simp
  then show "d < 16 \<Longrightarrow> ?thesis" by (simp add: list_all_iff)
qed

lemma isxdigit_hexdigit: "d < 16 \<Longrightarrow> isxdigit (hexdigit d)"
proof -
  have "list_all (\<lambda>d. isxdigit (hexdigit d)) [0..<16]" by code_simp
  then show "d < 16 \<Longrightarrow> ?thesis" by (simp add: list_all_iff)
qed

lemma gethexnum_loop_append:
  "gethexnum_loop (xs @ ys) r = rbind (gethexnum_loop xs r) (gethexnum_loop ys)"
  by (induction xs arbitrary: r) (auto split: option.splits)

lemma gethexnum_loop_hexstr: "gethexnum_loop (hexstr n) 0 = Inr (of_nat n)"
proof (induction n rule: hexstr.induct)
  case (1 n)
  show ?case
  proof (cases "n < 16")
    case True
    then show ?thesis by (simp add: hexstr.simps [of n] hexval_hexdigit)
  next
    case False
    have "(of_nat n :: u64) = of_nat (n div 16 * 16 + n mod 16)" by simp
    then have "push_bit 4 (of_nat (n div 16)) + of_nat (n mod 16) = (of_nat n :: u64)"
      unfolding of_nat_add of_nat_mult by (simp add: push_bit_eq_mult)
    with 1 False show ?thesis
      by (simp add: hexstr.simps [of n] gethexnum_loop_append hexval_hexdigit)
  qed
qed

lemma gethexnum_loop_zeros: "gethexnum_loop (replicate k (CHR ''0'')) 0 = Inr 0"
  by (induction k) (auto simp: hexval_def)

lemma gethexnum_loop_setw: "gethexnum_loop (setw w (hexstr n)) 0 = Inr (of_nat n)"
  by (simp add: setw_def gethexnum_loop_append gethexnum_loop_zeros gethexnum_loop_hexstr)

lemma list_all_hexstr: "list_all isxdigit (hexstr n)"
proof (induction n rule: hexstr.induct)
  case (1 n)
  then show ?case by (simp add: hexstr.simps [of n] isxdigit_hexdigit)
qed

lemma list_all_setw: "list_all isxdigit (setw w (hexstr n))"
proof -
  have "isxdigit (CHR ''0'')" by (simp add: isxdigit_def)
  with list_all_hexstr [of n] show ?thesis by (auto simp: setw_def list_all_iff)
qed

lemma length_hexstr: "n < 16 ^ Suc w \<Longrightarrow> length (hexstr n) \<le> Suc w"
proof (induction w arbitrary: n)
  case (Suc w)
  show ?case
  proof (cases "n < 16")
    case False
    have "n div 16 < 16 ^ Suc w" using Suc.prems by (simp add: less_mult_imp_div_less)
    with False Suc.IH [of "n div 16"] show ?thesis by (simp add: hexstr.simps [of n])
  qed (simp add: hexstr.simps [of n])
next
  case 0
  then show ?case by (simp add: hexstr.simps [of n])
qed

lemma length_setw: "n < 16 ^ w \<Longrightarrow> 0 < w \<Longrightarrow> length (setw w (hexstr n)) = w"
  using length_hexstr [of n "w - 1"] by (cases w) (auto simp: setw_def)

lemma map_char_at:
  assumes "i = length a" and "j = length a + length b"
  shows "map (char_at (a @ b @ c)) [i ..< j] = b"
  using assms by (auto intro!: nth_equalityI simp: char_at_def nth_append)

lemma hasonlyhexdigits_iff:
  "hasonlyhexdigits s i1 i2 = Inr True \<longleftrightarrow>
     i1 \<le> i2 \<and> list_all isxdigit (map (char_at s) [i1 ..< i2])"
  by (auto simp: hasonlyhexdigits_def list_all_iff)

lemma char_at_append: "char_at (a @ b # c) (length a) = b"
  by (simp add: char_at_def)

text \<open>The three fields of a SCO name, and the pieces of the string at their positions.\<close>

lemma SCO_fields:
  fixes s :: sco
  defines "a \<equiv> setw 2 (hexstr (unat (sco_cloneID s)))"
    and "b \<equiv> setw 8 (hexstr (unat (sco_number s)))"
    and "c \<equiv> setw 2 (hexstr (unat (sco_version s)))"
  shows "SCO_str s = a @ ''_'' @ b @ ''_'' @ c"
    and "length a = 2" and "length b = 8" and "length c = 2"
proof -
  show "SCO_str s = a @ ''_'' @ b @ ''_'' @ c" by (simp add: SCO_str_def a_def b_def c_def)
  show "length a = 2"
    unfolding a_def using unat_bound [of "sco_cloneID s"] by (intro length_setw) simp_all
  show "length b = 8"
    unfolding b_def using unat_bound [of "sco_number s"] by (intro length_setw) simp_all
  show "length c = 2"
    unfolding c_def using unat_bound [of "sco_version s"] by (intro length_setw) simp_all
qed

lemma length_SCO_str: "length (SCO_str s) = 14"
  using SCO_fields [of s] by simp

lemma SCO_str_pieces:
  "map (char_at (SCO_str s @ r)) [0 ..< 2] = setw 2 (hexstr (unat (sco_cloneID s)))"
  "map (char_at (SCO_str s @ r)) [3 ..< 11] = setw 8 (hexstr (unat (sco_number s)))"
  "map (char_at (SCO_str s @ r)) [12 ..< 14] = setw 2 (hexstr (unat (sco_version s)))"
  "char_at (SCO_str s @ r) 2 = CHR ''_''" "char_at (SCO_str s @ r) 11 = CHR ''_''"
proof -
  note f = SCO_fields [of s]
  let ?a = "setw 2 (hexstr (unat (sco_cloneID s)))"
  let ?b = "setw 8 (hexstr (unat (sco_number s)))"
  let ?c = "setw 2 (hexstr (unat (sco_version s)))"
  show "map (char_at (SCO_str s @ r)) [0 ..< 2] = ?a"
    using map_char_at [of 0 "[]" 2 ?a "''_'' @ ?b @ ''_'' @ ?c @ r"] f by simp
  show "map (char_at (SCO_str s @ r)) [3 ..< 11] = ?b"
    using map_char_at [of 3 "?a @ ''_''" 11 ?b "''_'' @ ?c @ r"] f by simp
  show "map (char_at (SCO_str s @ r)) [12 ..< 14] = ?c"
    using map_char_at [of 12 "?a @ ''_'' @ ?b @ ''_''" 14 ?c r] f by simp
  show "char_at (SCO_str s @ r) 2 = CHR ''_''"
    using char_at_append [of ?a "CHR ''_''" "?b @ ''_'' @ ?c @ r"] f by simp
  show "char_at (SCO_str s @ r) 11 = CHR ''_''"
    using char_at_append [of "?a @ ''_'' @ ?b" "CHR ''_''" "?c @ r"] f by simp
qed

lemma isSCOString_str: "isSCOString (SCO_str s)"
  unfolding isSCOString_def hasonlyhexdigits_iff SCO_str_pieces [of s "[]", unfolded append_Nil2]
  by (simp add: length_SCO_str list_all_setw)

lemma SCO_parse_str: "SCO_parse (SCO_str s) = Inr s"
proof -
  have "gethexnum (SCO_str s) 0 2 = Inr (of_nat (unat (sco_cloneID s)))"
    "gethexnum (SCO_str s) 3 11 = Inr (of_nat (unat (sco_number s)))"
    "gethexnum (SCO_str s) 12 14 = Inr (of_nat (unat (sco_version s)))"
    unfolding gethexnum_def SCO_str_pieces [of s "[]", unfolded append_Nil2]
    by (simp_all add: verify_def gethexnum_loop_setw)
  then show ?thesis
    by (simp add: SCO_parse_def isSCOString_str ucast_down_up)
qed

lemma isClusterLocationString_str: "isClusterLocationString (ClusterLocation_str l) test"
  and ClusterLocation_parse_str: "ClusterLocation_parse (ClusterLocation_str l) = Inr l"
proof -
  let ?o = "setw 4 (hexstr (unat (cl_offset l)))"
  let ?s = "ClusterLocation_str l"
  have len: "length ?o = 4"
    using unat_bound [of "cl_offset l"] by (intro length_setw) simp_all
  have take: "take 14 ?s = SCO_str (cl_sco l)"
    by (simp add: ClusterLocation_str_def length_SCO_str)
  have colon: "char_at ?s 14 = CHR '':''"
    using char_at_append [of "SCO_str (cl_sco l)" "CHR '':''" ?o]
    by (simp add: ClusterLocation_str_def length_SCO_str)
  have off: "map (char_at ?s) [15 ..< 19] = ?o"
    using map_char_at [of 15 "SCO_str (cl_sco l) @ '':''" 19 ?o "[]"] len
    by (simp add: ClusterLocation_str_def length_SCO_str)
  show str: "isClusterLocationString ?s test" for test
    unfolding isClusterLocationString_def hasonlyhexdigits_iff off colon take
    using len by (simp add: ClusterLocation_str_def length_SCO_str isSCOString_str list_all_setw)
  have "gethexnum ?s 15 19 = Inr (of_nat (unat (cl_offset l)))"
    unfolding gethexnum_def off by (simp add: verify_def gethexnum_loop_setw)
  with str show "ClusterLocation_parse ?s = Inr l"
    by (simp add: ClusterLocation_parse_def take SCO_parse_str ucast_down_up)
qed

subsection \<open>Entries\<close>

lemma Entry_type_cases:
  "Entry_loc ca loc = Inr e \<Longrightarrow> Entry_type e = Inr LOC"
  "Entry_type Entry_sync = Inr SyncTC"
  by (auto simp: Entry_loc_def Entry_type_def Entry_sync_def clh_zero_def null_location_def
      ClusterLocation_new_def SCO_new_def isNull_def checksum_shift_def)

lemma crc_address:
  fixes cs :: u32
  shows "drop_bit 32 (ucast cs OR push_bit 32 1 :: u64) = 1"
    and "drop_bit 32 (ucast cs OR push_bit 32 2 :: u64) = 2"
    and "ucast ((ucast cs OR push_bit 32 k :: u64) AND (push_bit 32 1 - 1)) = cs"
proof -
  have hi: "\<not> bit cs (32 + n)" for n
    using bit_imp_le_length [of cs "32 + n"] by auto
  show "drop_bit 32 (ucast cs OR push_bit 32 1 :: u64) = 1"
    by (auto intro!: bit_word_eqI simp: bit_simps hi)
  show "drop_bit 32 (ucast cs OR push_bit 32 2 :: u64) = 2"
    by (auto intro!: bit_word_eqI simp: bit_simps hi)
  have m: "push_bit 32 1 - 1 = (mask 32 :: u64)" by (simp add: mask_eq_exp_minus_1)
  show "ucast ((ucast cs OR push_bit 32 k :: u64) AND (push_bit 32 1 - 1)) = cs"
    unfolding m by (auto intro!: bit_word_eqI simp: bit_simps hi)
qed

subsection \<open>Properties\<close>

text \<open>
  C22. Names round trip: every SCO and every cluster location is printed as a string that the
  checks accept, and parsing that string gives the SCO or location back.
\<close>

theorem names_round_trip:
  "isSCOString (SCO_str s) \<and> SCO_parse (SCO_str s) = Inr s \<and>
   isClusterLocationString (ClusterLocation_str l) True \<and>
   ClusterLocation_parse (ClusterLocation_str l) = Inr l"
  by (simp add: isSCOString_str SCO_parse_str isClusterLocationString_str ClusterLocation_parse_str)

text \<open>
  C23. A TLog entry can be told apart by its content: a location entry, a sync entry and a checksum
  entry of either type have the type they were made with, and a checksum entry gives its checksum
  back.
\<close>

theorem Entry_type_round_trip:
  "(case Entry_loc ca loc of
      Inr e \<Rightarrow> Entry_type e = Inr LOC \<and> Entry_clusterAddress e = Inr ca \<and> e_loc e = loc
    | Inl _ \<Rightarrow> isNull (clusterLocation loc) \<or> ca > max_valid_cluster_address) \<and>
   (case Entry_crc cs t of
      Inr e \<Rightarrow> Entry_type e = Inr t \<and> Entry_getCheckSum e = cs
    | Inl _ \<Rightarrow> t \<in> {SyncTC, LOC}) \<and>
   Entry_type Entry_sync = Inr SyncTC"
proof (intro conjI)
  show "case Entry_loc ca loc of
      Inr e \<Rightarrow> Entry_type e = Inr LOC \<and> Entry_clusterAddress e = Inr ca \<and> e_loc e = loc
    | Inl _ \<Rightarrow> isNull (clusterLocation loc) \<or> ca > max_valid_cluster_address"
    by (simp add: Entry_loc_def verify_def Entry_type_def Entry_clusterAddress_def not_le)
  show "case Entry_crc cs t of
      Inr e \<Rightarrow> Entry_type e = Inr t \<and> Entry_getCheckSum e = cs
    | Inl _ \<Rightarrow> t \<in> {SyncTC, LOC}"
    by (cases t) (simp_all add: Entry_crc_def verify_def Entry_type_def Entry_getCheckSum_def
        checksum_mask_def checksum_shift_def crc_address clh_zero_def null_location_def
        ClusterLocation_new_def SCO_new_def isNull_def Let_def del: push_bit_of_1 push_bit_numeral drop_bit_or)
qed (rule Entry_type_cases)

end
