(* ===== verification/Metadata_Backend.thy ===== *)
theory Metadata_Backend
  imports Effects Locations
begin

text \<open>
  The storage below the metadata store of a volume. \<open>CachePage\<close>
  (src/src/volumedriver/CachedMetaDataPage.h) maps cluster addresses to pages; the abstract class
  \<open>MetaDataBackendInterface\<close> is a record of its virtual functions, and the locale
  \<open>metadata_backend\<close> is what the metadata store relies on. Two implementations are modelled:
  \<open>RocksDBMetaDataBackend\<close> and \<open>TokyoCabinetMetaDataBackend\<close>. The databases they call, RocksDB and
  Tokyo Cabinet, are parameters: a record with their calls, and a locale with their documented
  behaviour. A value in the database is the C++ object that was written there (a page, a counter,
  a UUID) rather than its bytes.
\<close>

subsection \<open>Pages\<close>

text \<open>\<open>page_bits_\<close> comes from the environment (\<^verbatim>\<open>METADATASTORE_BITS\<close>) and is the argument \<open>pb\<close>.\<close>

definition page_capacity :: "nat \<Rightarrow> nat" where
  "page_capacity pb = 2 ^ pb"

definition page_offset :: "nat \<Rightarrow> u64 \<Rightarrow> nat" where
  "page_offset pb ca = unat (ca AND (of_nat (page_capacity pb) - 1))"

definition pageAddress :: "nat \<Rightarrow> u64 \<Rightarrow> u64" where
  "pageAddress pb ca = drop_bit pb ca"

definition clusterAddress :: "nat \<Rightarrow> u64 \<Rightarrow> u64" where
  "clusterAddress pb pa = push_bit pb pa"

definition page_zero :: "nat \<Rightarrow> clh list" where
  "page_zero pb = replicate (page_capacity pb) clh_zero"

definition page_empty :: "clh list \<Rightarrow> bool" where
  "page_empty d = list_all (\<lambda>l. isNull (clusterLocation l)) d"

subsection \<open>The interface\<close>

record 'b mdb =
  mdb_getPage :: "u64 \<Rightarrow> ('b, clh list option) sm"
  mdb_putPage :: "u64 \<Rightarrow> clh list \<Rightarrow> 32 word \<Rightarrow> ('b, unit) sm"
  mdb_discardPage :: "u64 \<Rightarrow> clh list \<Rightarrow> 32 word \<Rightarrow> ('b, unit) sm"
  mdb_pageExistsInParent :: "u64 \<Rightarrow> ('b, bool) sm"
  mdb_sync :: "('b, unit) sm"
  mdb_clear_all_keys :: "('b, unit) sm"
  mdb_scrub_id :: "('b, uuid option) sm"
  mdb_set_scrub_id :: "uuid \<Rightarrow> ('b, unit) sm"
  mdb_setCork :: "uuid \<Rightarrow> ('b, unit) sm"
  mdb_getUsedClusters :: "'b \<Rightarrow> u64"
  mdb_lastCorkUUID :: "('b, uuid option) sm"

text \<open>
  What a client may rely on when a call returns: \<open>pgs\<close> are the pages in the backend, \<open>crk\<close> its
  cork. Nothing is said about a call that throws.
\<close>

locale metadata_backend =
  fixes pb :: nat
    and ops :: "'b mdb"
    and pgs :: "'b \<Rightarrow> u64 \<Rightarrow> clh list option"
    and crk :: "'b \<Rightarrow> uuid option"
  assumes getPage:
      "mdb_getPage ops pa b = (Inr r, b') \<Longrightarrow>
         r = pgs b pa \<and> (\<forall>d. r = Some d \<longrightarrow> length d = page_capacity pb) \<and> pgs b' = pgs b \<and> crk b' = crk b"
    and putPage:
      "mdb_putPage ops pa d delta b = (Inr u, b') \<Longrightarrow> pgs b' = (pgs b)(pa \<mapsto> d) \<and> crk b' = crk b"
    and discardPage:
      "mdb_discardPage ops pa d delta b = (Inr u, b') \<Longrightarrow>
         pgs b' = (pgs b)(pa := None) \<and> crk b' = crk b"
    and pageExistsInParent:
      "mdb_pageExistsInParent ops pa b = (Inr x, b') \<Longrightarrow> pgs b' = pgs b \<and> crk b' = crk b"
    and sync: "mdb_sync ops b = (Inr u, b') \<Longrightarrow> pgs b' = pgs b \<and> crk b' = crk b"
    and clear_all_keys: "mdb_clear_all_keys ops b = (Inr u, b') \<Longrightarrow> pgs b' = Map.empty \<and> crk b' = None"
    and set_scrub_id: "mdb_set_scrub_id ops sid b = (Inr u, b') \<Longrightarrow> pgs b' = pgs b \<and> crk b' = crk b"
    and setCork: "mdb_setCork ops c b = (Inr u, b') \<Longrightarrow> pgs b' = pgs b \<and> crk b' = Some c"
    and lastCorkUUID:
      "mdb_lastCorkUUID ops b = (Inr c', b') \<Longrightarrow> c' = crk b \<and> pgs b' = pgs b \<and> crk b' = crk b"
    and scrub_id: "mdb_scrub_id ops b = (Inr c', b') \<Longrightarrow> pgs b' = pgs b \<and> crk b' = crk b"
begin

text \<open>A page that was put is what a later get of that address returns.\<close>

lemma get_after_put:
  assumes "mdb_putPage ops pa d delta b = (Inr u, b1)" and "mdb_getPage ops pa' b1 = (Inr r, b2)"
  shows "r = (if pa' = pa then Some d else pgs b pa')"
  using putPage [OF assms(1)] getPage [OF assms(2)] by auto

end

subsection \<open>Key-value databases\<close>

datatype kv_value = PageValue "clh list" | CounterValue u64 | UUIDValue uuid

record 'db kv_api =
  kv_get :: "u64 \<Rightarrow> ('db, kv_value option) sm"
  kv_put :: "u64 \<Rightarrow> kv_value \<Rightarrow> ('db, unit) sm"
  kv_delete :: "u64 \<Rightarrow> ('db, bool) sm"
  kv_sync :: "('db, unit) sm"
  kv_clear :: "('db, unit) sm"

text \<open>
  The documented behaviour of a call that succeeds. \<open>kv_delete\<close> tells whether there was a record.
\<close>

locale kv_database =
  fixes kv :: "'db kv_api" and view :: "'db \<Rightarrow> u64 \<Rightarrow> kv_value option"
  assumes get: "kv_get kv k db = (Inr r, db') \<Longrightarrow> r = view db k \<and> view db' = view db"
    and put: "kv_put kv k v db = (Inr u, db') \<Longrightarrow> view db' = (view db)(k \<mapsto> v)"
    and delete: "kv_delete kv k db = (Inr ex, db') \<Longrightarrow> view db' = (view db)(k := None)"
    and deleted: "kv_delete kv k db = (Inr ex, db') \<Longrightarrow> ex = (view db k \<noteq> None)"
    and sync: "kv_sync kv db = (Inr u, db') \<Longrightarrow> view db' = view db"
    and clear: "kv_clear kv db = (Inr u, db') \<Longrightarrow> view db' = Map.empty"

definition cork_key :: u64 where
  "cork_key = - 1"

definition used_clusters_key :: u64 where
  "used_clusters_key = - 1 - 1"

definition scrub_id_key :: u64 where
  "scrub_id_key = - 1 - 2"

lemma key_distinct [simp]:
  "cork_key \<noteq> used_clusters_key" "cork_key \<noteq> scrub_id_key" "used_clusters_key \<noteq> scrub_id_key"
  "used_clusters_key \<noteq> cork_key" "scrub_id_key \<noteq> cork_key" "scrub_id_key \<noteq> used_clusters_key"
  by (simp_all add: cork_key_def used_clusters_key_def scrub_id_key_def)

definition check_page_address :: "u64 \<Rightarrow> ('s, unit) sm" where
  "check_page_address pa =
     (if pa = cork_key \<or> pa = used_clusters_key \<or> pa = scrub_id_key
      then sthrow MetaDataStoreBackendException else sret ())"

subsection \<open>RocksDBMetaDataBackend\<close>

record 'db rocks =
  rk_db :: 'db
  rk_used_clusters :: u64

definition rk_on_db :: "('db, 'a) sm \<Rightarrow> ('db rocks, 'a) sm" where
  "rk_on_db = szoom rk_db (\<lambda>d s. s\<lparr>rk_db := d\<rparr>)"

text \<open>The constructor, after the database was opened.\<close>

definition RocksDB_init :: "'db kv_api \<Rightarrow> ('db rocks, unit) sm" where
  "RocksDB_init kv =
     sbind (smod (\<lambda>s. s\<lparr>rk_used_clusters := 0\<rparr>)) (\<lambda>_.
     sbind (rk_on_db (kv_get kv used_clusters_key)) (\<lambda>res.
       case res of
         Some (CounterValue n) \<Rightarrow> smod (\<lambda>s. s\<lparr>rk_used_clusters := n\<rparr>)
       | Some _ \<Rightarrow> sthrow (AssertFailed ''res.size() == sizeof(used_clusters_)'')
       | None \<Rightarrow> sret ()))"

text \<open>The value of a page's key: its size must be that of a page before it is copied.\<close>

definition page_of_value :: "nat \<Rightarrow> kv_value option \<Rightarrow> ('s, clh list option) sm" where
  "page_of_value pb res =
     (case res of
        None \<Rightarrow> sret None
      | Some (PageValue d) \<Rightarrow>
          sbind (sverify (length d = page_capacity pb) ''res.size() == CachePage::size()'')
            (\<lambda>_. sret (Some d))
      | Some _ \<Rightarrow> sthrow (AssertFailed ''res.size() == CachePage::size()''))"

definition RocksDB_getPage :: "nat \<Rightarrow> 'db kv_api \<Rightarrow> u64 \<Rightarrow> ('db rocks, clh list option) sm" where
  "RocksDB_getPage pb kv pa =
     sbind (check_page_address pa) (\<lambda>_.
     sbind (rk_on_db (kv_get kv pa)) (page_of_value pb))"

definition RocksDB_putPage ::
  "'db kv_api \<Rightarrow> u64 \<Rightarrow> clh list \<Rightarrow> 32 word \<Rightarrow> ('db rocks, unit) sm" where
  "RocksDB_putPage kv pa d used_clusters_diff =
     sbind (check_page_address pa) (\<lambda>_.
     sbind (sget (\<lambda>s. rk_used_clusters s + scast used_clusters_diff)) (\<lambda>used_clusters.
     sbind (rk_on_db (kv_put kv pa (PageValue d))) (\<lambda>_.
       rk_on_db (kv_put kv used_clusters_key (CounterValue used_clusters)))))"

definition RocksDB_discardPage ::
  "'db kv_api \<Rightarrow> u64 \<Rightarrow> clh list \<Rightarrow> 32 word \<Rightarrow> ('db rocks, unit) sm" where
  "RocksDB_discardPage kv pa d used_clusters_diff =
     sbind (check_page_address pa) (\<lambda>_.
     sbind (sget (\<lambda>s. rk_used_clusters s + scast used_clusters_diff)) (\<lambda>used_clusters.
     sbind (rk_on_db (kv_delete kv pa)) (\<lambda>_.
       rk_on_db (kv_put kv used_clusters_key (CounterValue used_clusters)))))"

definition RocksDB_pageExistsInParent :: "u64 \<Rightarrow> ('db rocks, bool) sm" where
  "RocksDB_pageExistsInParent pa = sret False"

definition RocksDB_sync :: "'db kv_api \<Rightarrow> ('db rocks, unit) sm" where
  "RocksDB_sync kv = rk_on_db (kv_sync kv)"

definition RocksDB_clear_all_keys :: "'db kv_api \<Rightarrow> ('db rocks, unit) sm" where
  "RocksDB_clear_all_keys kv = rk_on_db (kv_clear kv)"

definition RocksDB_setCork :: "'db kv_api \<Rightarrow> uuid \<Rightarrow> ('db rocks, unit) sm" where
  "RocksDB_setCork kv c = rk_on_db (kv_put kv cork_key (UUIDValue c))"

definition kv_uuid :: "kv_value option \<Rightarrow> uuid option result" where
  "kv_uuid res =
     (case res of
        None \<Rightarrow> Inr None
      | Some (UUIDValue c) \<Rightarrow> Inr (Some c)
      | Some _ \<Rightarrow> Inl (AssertFailed ''res.size() == yt::UUID::getUUIDStringSize()''))"

definition RocksDB_lastCorkUUID :: "'db kv_api \<Rightarrow> ('db rocks, uuid option) sm" where
  "RocksDB_lastCorkUUID kv = sbind (rk_on_db (kv_get kv cork_key)) (\<lambda>res. slift (kv_uuid res))"

definition RocksDB_scrub_id :: "'db kv_api \<Rightarrow> ('db rocks, uuid option) sm" where
  "RocksDB_scrub_id kv = sbind (rk_on_db (kv_get kv scrub_id_key)) (\<lambda>res. slift (kv_uuid res))"

definition RocksDB_set_scrub_id :: "'db kv_api \<Rightarrow> uuid \<Rightarrow> ('db rocks, unit) sm" where
  "RocksDB_set_scrub_id kv sid = rk_on_db (kv_put kv scrub_id_key (UUIDValue sid))"

definition RocksDBMetaDataBackend :: "nat \<Rightarrow> 'db kv_api \<Rightarrow> 'db rocks mdb" where
  "RocksDBMetaDataBackend pb kv =
     \<lparr>mdb_getPage = RocksDB_getPage pb kv, mdb_putPage = RocksDB_putPage kv,
      mdb_discardPage = RocksDB_discardPage kv,
      mdb_pageExistsInParent = RocksDB_pageExistsInParent,
      mdb_sync = RocksDB_sync kv, mdb_clear_all_keys = RocksDB_clear_all_keys kv,
      mdb_scrub_id = RocksDB_scrub_id kv, mdb_set_scrub_id = RocksDB_set_scrub_id kv,
      mdb_setCork = RocksDB_setCork kv, mdb_getUsedClusters = rk_used_clusters,
      mdb_lastCorkUUID = RocksDB_lastCorkUUID kv\<rparr>"

lemma page_of_value_Inr:
  assumes "page_of_value pb res s = (Inr r, s')"
  shows "s' = s \<and> map_option PageValue r = res \<and> (\<forall>d. r = Some d \<longrightarrow> length d = page_capacity pb)"
  using assms by (auto simp: page_of_value_def split: option.splits kv_value.splits)

text \<open>The pages and the cork in a database.\<close>

definition kv_pages :: "(u64 \<Rightarrow> kv_value option) \<Rightarrow> u64 \<Rightarrow> clh list option" where
  "kv_pages m pa =
     (if pa = cork_key \<or> pa = used_clusters_key \<or> pa = scrub_id_key then None
      else case m pa of Some (PageValue d) \<Rightarrow> Some d | _ \<Rightarrow> None)"

definition kv_cork :: "(u64 \<Rightarrow> kv_value option) \<Rightarrow> uuid option" where
  "kv_cork m = (case m cork_key of Some (UUIDValue c) \<Rightarrow> Some c | _ \<Rightarrow> None)"

lemma kv_pages_upd:
  assumes "pa \<noteq> cork_key" "pa \<noteq> used_clusters_key" "pa \<noteq> scrub_id_key"
  shows "kv_pages (m(pa \<mapsto> PageValue d)) = (kv_pages m)(pa \<mapsto> d)"
    and "kv_pages (m(pa := None)) = (kv_pages m)(pa := None)"
    and "kv_cork (m(pa := x)) = kv_cork m"
  using assms by (auto simp: kv_pages_def kv_cork_def fun_eq_iff)

lemma kv_pages_special [simp]:
  "kv_pages (m(used_clusters_key := x)) = kv_pages m" "kv_pages (m(cork_key := x)) = kv_pages m"
  "kv_pages (m(scrub_id_key := x)) = kv_pages m" "kv_cork (m(used_clusters_key := x)) = kv_cork m"
  "kv_cork (m(scrub_id_key := x)) = kv_cork m" "kv_cork (m(cork_key \<mapsto> UUIDValue c)) = Some c"
  by (auto simp: kv_pages_def kv_cork_def fun_eq_iff)

lemma check_page_address_Inr [simp]:
  "check_page_address pa s = (Inr u, s') \<longleftrightarrow>
     pa \<noteq> cork_key \<and> pa \<noteq> used_clusters_key \<and> pa \<noteq> scrub_id_key \<and> s' = s"
  by (auto simp: check_page_address_def)

lemmas RocksDB_defs = RocksDBMetaDataBackend_def RocksDB_getPage_def RocksDB_putPage_def
  RocksDB_discardPage_def RocksDB_pageExistsInParent_def RocksDB_sync_def
  RocksDB_clear_all_keys_def RocksDB_setCork_def RocksDB_lastCorkUUID_def RocksDB_scrub_id_def
  RocksDB_set_scrub_id_def rk_on_db_def

context kv_database
begin

lemma RocksDB_getPage_ok:
  assumes "RocksDB_getPage pb kv pa s = (Inr r, s')"
  shows "r = kv_pages (view (rk_db s)) pa \<and> (\<forall>d. r = Some d \<longrightarrow> length d = page_capacity pb) \<and>
    view (rk_db s') = view (rk_db s)"
proof -
  from assms obtain res db where g: "kv_get kv pa (rk_db s) = (Inr res, db)"
    and r: "page_of_value pb res (s\<lparr>rk_db := db\<rparr>) = (Inr r, s')"
    and ok: "pa \<noteq> cork_key" "pa \<noteq> used_clusters_key" "pa \<noteq> scrub_id_key"
    by (auto simp: RocksDB_getPage_def rk_on_db_def)
  from get [OF g] page_of_value_Inr [OF r] ok show ?thesis
    by (auto simp: kv_pages_def split: option.splits kv_value.splits)
qed

lemma RocksDB_putPage_ok:
  assumes "RocksDB_putPage kv pa d delta s = (Inr u, s')"
  shows "kv_pages (view (rk_db s')) = (kv_pages (view (rk_db s)))(pa \<mapsto> d) \<and>
    kv_cork (view (rk_db s')) = kv_cork (view (rk_db s)) \<and> rk_used_clusters s' = rk_used_clusters s"
proof -
  from assms obtain u' db db' where w: "kv_put kv pa (PageValue d) (rk_db s) = (Inr u', db)"
      "kv_put kv used_clusters_key (CounterValue (rk_used_clusters s + scast delta)) db = (Inr u, db')"
      "s' = s\<lparr>rk_db := db'\<rparr>"
    and ok: "pa \<noteq> cork_key" "pa \<noteq> used_clusters_key" "pa \<noteq> scrub_id_key"
    by (auto simp: RocksDB_putPage_def rk_on_db_def)
  from put [OF w(1)] put [OF w(2)] w(3) ok show ?thesis by (simp add: kv_pages_upd)
qed

lemma RocksDB_discardPage_ok:
  assumes "RocksDB_discardPage kv pa d delta s = (Inr u, s')"
  shows "kv_pages (view (rk_db s')) = (kv_pages (view (rk_db s)))(pa := None) \<and>
    kv_cork (view (rk_db s')) = kv_cork (view (rk_db s)) \<and> rk_used_clusters s' = rk_used_clusters s"
proof -
  from assms obtain ex db db' where w: "kv_delete kv pa (rk_db s) = (Inr ex, db)"
      "kv_put kv used_clusters_key (CounterValue (rk_used_clusters s + scast delta)) db = (Inr u, db')"
      "s' = s\<lparr>rk_db := db'\<rparr>"
    and ok: "pa \<noteq> cork_key" "pa \<noteq> used_clusters_key" "pa \<noteq> scrub_id_key"
    by (auto simp: RocksDB_discardPage_def rk_on_db_def)
  from delete [OF w(1)] put [OF w(2)] w(3) ok show ?thesis by (simp add: kv_pages_upd)
qed

lemma RocksDB_lastCork_ok:
  assumes "RocksDB_lastCorkUUID kv s = (Inr r, s')"
  shows "r = kv_cork (view (rk_db s)) \<and> view (rk_db s') = view (rk_db s)"
proof -
  from assms obtain res db where g: "kv_get kv cork_key (rk_db s) = (Inr res, db)"
    and "s' = s\<lparr>rk_db := db\<rparr>" "kv_uuid res = Inr r"
    by (auto simp: RocksDB_lastCorkUUID_def rk_on_db_def)
  with get [OF g] show ?thesis
    by (auto simp: kv_uuid_def kv_cork_def split: option.splits kv_value.splits)
qed

end

sublocale kv_database < rocks: metadata_backend pb "RocksDBMetaDataBackend pb kv"
  "\<lambda>s. kv_pages (view (rk_db s))" "\<lambda>s. kv_cork (view (rk_db s))" for pb
proof (unfold_locales, goal_cases)
  case (1 pa b r b')
  then show ?case using RocksDB_getPage_ok [of pb pa b r b'] by (simp add: RocksDBMetaDataBackend_def)
next
  case (2 pa d delta b u b')
  then show ?case using RocksDB_putPage_ok [of pa d delta b u b'] by (simp add: RocksDBMetaDataBackend_def)
next
  case (3 pa d delta b u b')
  then show ?case using RocksDB_discardPage_ok [of pa d delta b u b'] by (simp add: RocksDBMetaDataBackend_def)
next
  case (4 pa b x b')
  then show ?case by (simp add: RocksDB_defs)
next
  case (5 b u b')
  then show ?case using sync by (auto simp: RocksDB_defs)
next
  case (6 b u b')
  then show ?case using clear by (auto simp: RocksDB_defs kv_pages_def kv_cork_def fun_eq_iff)
next
  case (7 sid b u b')
  then show ?case using put by (auto simp: RocksDB_defs)
next
  case (8 c b u b')
  then show ?case using put by (auto simp: RocksDB_defs)
next
  case (9 b c' b')
  then show ?case using RocksDB_lastCork_ok [of b c' b'] by (simp add: RocksDBMetaDataBackend_def)
next
  case (10 b c' b')
  then show ?case using get by (auto simp: RocksDB_defs)
qed

subsection \<open>TokyoCabinetMetaDataBackend\<close>

text \<open>
  \<^verbatim>\<open>tcbdbget3\<close> returns a null pointer both when there is no record and when the call fails, and the
  result of \<^verbatim>\<open>tcbdbvanish\<close> is not looked at; the model has both.
\<close>

record 'db tcbt =
  tc_db :: 'db
  tc_used_clusters :: u64

definition tc_on_db :: "('db, 'a) sm \<Rightarrow> ('db tcbt, 'a) sm" where
  "tc_on_db = szoom tc_db (\<lambda>d s. s\<lparr>tc_db := d\<rparr>)"

definition tcbdbget :: "'db kv_api \<Rightarrow> u64 \<Rightarrow> ('db, kv_value option) sm" where
  "tcbdbget kv k = scatch (kv_get kv k) (\<lambda>e. sret None)"

definition TC_init :: "'db kv_api \<Rightarrow> ('db tcbt, unit) sm" where
  "TC_init kv =
     sbind (smod (\<lambda>s. s\<lparr>tc_used_clusters := 0\<rparr>)) (\<lambda>_.
     sbind (tc_on_db (tcbdbget kv used_clusters_key)) (\<lambda>res.
       case res of
         Some (CounterValue n) \<Rightarrow> smod (\<lambda>s. s\<lparr>tc_used_clusters := n\<rparr>)
       | Some _ \<Rightarrow> sthrow (AssertFailed ''used_clusters_size == sizeof(used_clusters_)'')
       | None \<Rightarrow> sret ()))"

definition TC_getPage :: "nat \<Rightarrow> 'db kv_api \<Rightarrow> u64 \<Rightarrow> ('db tcbt, clh list option) sm" where
  "TC_getPage pb kv pa =
     sbind (check_page_address pa) (\<lambda>_. sbind (tc_on_db (tcbdbget kv pa)) (page_of_value pb))"

definition TC_put_used_clusters :: "'db kv_api \<Rightarrow> u64 \<Rightarrow> ('db tcbt, unit) sm" where
  "TC_put_used_clusters kv used_clusters =
     sbind (smod (\<lambda>s. s\<lparr>tc_used_clusters := used_clusters\<rparr>)) (\<lambda>_.
       tc_on_db (kv_put kv used_clusters_key (CounterValue used_clusters)))"

definition TC_putPage ::
  "'db kv_api \<Rightarrow> u64 \<Rightarrow> clh list \<Rightarrow> 32 word \<Rightarrow> ('db tcbt, unit) sm" where
  "TC_putPage kv pa d used_clusters_diff =
     sbind (check_page_address pa) (\<lambda>_.
     sbind (sget (\<lambda>s. tc_used_clusters s + scast used_clusters_diff)) (\<lambda>used_clusters.
     sbind (tc_on_db (kv_put kv pa (PageValue d))) (\<lambda>_. TC_put_used_clusters kv used_clusters)))"

definition TC_discardPage ::
  "'db kv_api \<Rightarrow> u64 \<Rightarrow> clh list \<Rightarrow> 32 word \<Rightarrow> ('db tcbt, unit) sm" where
  "TC_discardPage kv pa d used_clusters_diff =
     sbind (check_page_address pa) (\<lambda>_.
     sbind (sget (\<lambda>s. tc_used_clusters s + scast used_clusters_diff)) (\<lambda>used_clusters.
     sbind (tc_on_db (kv_delete kv pa)) (\<lambda>res.
       if \<not> res then sret () else TC_put_used_clusters kv used_clusters)))"

definition TC_pageExistsInParent :: "u64 \<Rightarrow> ('db tcbt, bool) sm" where
  "TC_pageExistsInParent pa = sret False"

definition TC_sync :: "'db kv_api \<Rightarrow> ('db tcbt, unit) sm" where
  "TC_sync kv = tc_on_db (kv_sync kv)"

definition TC_clear_all_keys :: "'db kv_api \<Rightarrow> ('db tcbt, unit) sm" where
  "TC_clear_all_keys kv = scatch (tc_on_db (kv_clear kv)) (\<lambda>e. sret ())"

definition TC_setCork :: "'db kv_api \<Rightarrow> uuid \<Rightarrow> ('db tcbt, unit) sm" where
  "TC_setCork kv c = tc_on_db (kv_put kv cork_key (UUIDValue c))"

definition TC_lastCorkUUID :: "'db kv_api \<Rightarrow> ('db tcbt, uuid option) sm" where
  "TC_lastCorkUUID kv = sbind (tc_on_db (tcbdbget kv cork_key)) (\<lambda>res. slift (kv_uuid res))"

definition TC_scrub_id :: "'db kv_api \<Rightarrow> ('db tcbt, uuid option) sm" where
  "TC_scrub_id kv = sbind (tc_on_db (tcbdbget kv scrub_id_key)) (\<lambda>res. slift (kv_uuid res))"

definition TC_set_scrub_id :: "'db kv_api \<Rightarrow> uuid \<Rightarrow> ('db tcbt, unit) sm" where
  "TC_set_scrub_id kv sid = tc_on_db (kv_put kv scrub_id_key (UUIDValue sid))"

definition TokyoCabinetMetaDataBackend :: "nat \<Rightarrow> 'db kv_api \<Rightarrow> 'db tcbt mdb" where
  "TokyoCabinetMetaDataBackend pb kv =
     \<lparr>mdb_getPage = TC_getPage pb kv, mdb_putPage = TC_putPage kv,
      mdb_discardPage = TC_discardPage kv, mdb_pageExistsInParent = TC_pageExistsInParent,
      mdb_sync = TC_sync kv, mdb_clear_all_keys = TC_clear_all_keys kv,
      mdb_scrub_id = TC_scrub_id kv, mdb_set_scrub_id = TC_set_scrub_id kv,
      mdb_setCork = TC_setCork kv, mdb_getUsedClusters = tc_used_clusters,
      mdb_lastCorkUUID = TC_lastCorkUUID kv\<rparr>"

lemmas TC_defs = TokyoCabinetMetaDataBackend_def TC_getPage_def TC_putPage_def TC_discardPage_def
  TC_pageExistsInParent_def TC_sync_def TC_clear_all_keys_def TC_setCork_def TC_lastCorkUUID_def
  TC_set_scrub_id_def TC_put_used_clusters_def tc_on_db_def tcbdbget_def

text \<open>A database whose reads and whose \<open>clear\<close> do not fail, which is what this backend needs.\<close>

locale kv_database_reliable = kv_database +
  assumes get_total: "\<exists>r db'. kv_get kv k db = (Inr r, db')"
    and clear_total: "\<exists>db'. kv_clear kv db = (Inr (), db')"
begin

lemma tcbdbget_ok:
  assumes "tcbdbget kv k db = (r, db')"
  shows "r = Inr (view db k) \<and> view db' = view db"
proof -
  obtain x db1 where "kv_get kv k db = (Inr x, db1)" using get_total by blast
  with get [OF this] assms show ?thesis by (auto simp: tcbdbget_def scatch_def)
qed

lemma TC_getPage_ok:
  assumes "TC_getPage pb kv pa s = (Inr r, s')"
  shows "r = kv_pages (view (tc_db s)) pa \<and> (\<forall>d. r = Some d \<longrightarrow> length d = page_capacity pb) \<and>
    view (tc_db s') = view (tc_db s)"
proof -
  from assms obtain res db where g: "tcbdbget kv pa (tc_db s) = (Inr res, db)"
    and r: "page_of_value pb res (s\<lparr>tc_db := db\<rparr>) = (Inr r, s')"
    and ok: "pa \<noteq> cork_key" "pa \<noteq> used_clusters_key" "pa \<noteq> scrub_id_key"
    by (auto simp: TC_getPage_def tc_on_db_def)
  from tcbdbget_ok [OF g] page_of_value_Inr [OF r] ok show ?thesis
    by (auto simp: kv_pages_def split: option.splits kv_value.splits)
qed

lemma TC_putPage_ok:
  assumes "TC_putPage kv pa d delta s = (Inr u, s')"
  shows "kv_pages (view (tc_db s')) = (kv_pages (view (tc_db s)))(pa \<mapsto> d) \<and>
    kv_cork (view (tc_db s')) = kv_cork (view (tc_db s)) \<and>
    tc_used_clusters s' = tc_used_clusters s + scast delta"
proof -
  from assms obtain u' db db' where w: "kv_put kv pa (PageValue d) (tc_db s) = (Inr u', db)"
      "kv_put kv used_clusters_key (CounterValue (tc_used_clusters s + scast delta)) db = (Inr u, db')"
      "s' = s\<lparr>tc_db := db', tc_used_clusters := tc_used_clusters s + scast delta\<rparr>"
    and ok: "pa \<noteq> cork_key" "pa \<noteq> used_clusters_key" "pa \<noteq> scrub_id_key"
    by (auto simp: TC_putPage_def TC_put_used_clusters_def tc_on_db_def)
  from put [OF w(1)] put [OF w(2)] w(3) ok show ?thesis by (simp add: kv_pages_upd)
qed

lemma TC_discardPage_ok:
  assumes "TC_discardPage kv pa d delta s = (Inr u, s')"
  shows "kv_pages (view (tc_db s')) = (kv_pages (view (tc_db s)))(pa := None) \<and>
    kv_cork (view (tc_db s')) = kv_cork (view (tc_db s))"
proof -
  from assms obtain ex db where w: "kv_delete kv pa (tc_db s) = (Inr ex, db)"
    and s': "if ex then TC_put_used_clusters kv (tc_used_clusters s + scast delta) (s\<lparr>tc_db := db\<rparr>) = (Inr u, s')
      else s' = s\<lparr>tc_db := db\<rparr>"
    and ok: "pa \<noteq> cork_key" "pa \<noteq> used_clusters_key" "pa \<noteq> scrub_id_key"
    by (auto simp: TC_discardPage_def tc_on_db_def split: if_splits)
  from s' have "\<exists>x. view (tc_db s') = view db \<or> view (tc_db s') = (view db)(used_clusters_key \<mapsto> x)"
    using put by (fastforce simp: TC_put_used_clusters_def tc_on_db_def split: if_splits)
  with delete [OF w] ok show ?thesis by (auto simp: kv_pages_upd)
qed

end

sublocale kv_database_reliable < tc: metadata_backend pb "TokyoCabinetMetaDataBackend pb kv"
  "\<lambda>s. kv_pages (view (tc_db s))" "\<lambda>s. kv_cork (view (tc_db s))" for pb
proof (unfold_locales, goal_cases)
  case (1 pa b r b')
  then show ?case using TC_getPage_ok [of pb pa b r b'] by (simp add: TokyoCabinetMetaDataBackend_def)
next
  case (2 pa d delta b u b')
  then show ?case using TC_putPage_ok [of pa d delta b u b'] by (simp add: TokyoCabinetMetaDataBackend_def)
next
  case (3 pa d delta b u b')
  then show ?case using TC_discardPage_ok [of pa d delta b u b'] by (simp add: TokyoCabinetMetaDataBackend_def)
next
  case (4 pa b x b')
  then show ?case by (simp add: TokyoCabinetMetaDataBackend_def TC_pageExistsInParent_def)
next
  case (5 b u b')
  then show ?case using sync by (auto simp: TokyoCabinetMetaDataBackend_def TC_sync_def tc_on_db_def)
next
  case (6 b u b')
  obtain db' where "kv_clear kv (tc_db b) = (Inr (), db')" using clear_total by blast
  with 6 clear [OF this] show ?case
    by (auto simp: TokyoCabinetMetaDataBackend_def TC_clear_all_keys_def tc_on_db_def scatch_def szoom_def
        kv_pages_def kv_cork_def fun_eq_iff)
next
  case (7 sid b u b')
  then show ?case using put by (auto simp: TokyoCabinetMetaDataBackend_def TC_set_scrub_id_def tc_on_db_def)
next
  case (8 c b u b')
  then show ?case using put by (auto simp: TokyoCabinetMetaDataBackend_def TC_setCork_def tc_on_db_def)
next
  case (9 b c' b')
  then obtain res db where g: "tcbdbget kv cork_key (tc_db b) = (Inr res, db)"
    and "b' = b\<lparr>tc_db := db\<rparr>" "kv_uuid res = Inr c'"
    by (auto simp: TokyoCabinetMetaDataBackend_def TC_lastCorkUUID_def tc_on_db_def)
  with tcbdbget_ok [OF g] show ?case
    by (auto simp: kv_uuid_def kv_cork_def split: option.splits kv_value.splits)
next
  case (10 b c' b')
  then show ?case
    by (auto simp: TokyoCabinetMetaDataBackend_def TC_scrub_id_def tc_on_db_def dest!: tcbdbget_ok)
qed

subsection \<open>A database in memory\<close>

text \<open>The hypotheses on the databases can hold: a function from keys to values has them.\<close>

definition mem_kv :: "(u64 \<Rightarrow> kv_value option) kv_api" where
  "mem_kv =
     \<lparr>kv_get = (\<lambda>k m. (Inr (m k), m)), kv_put = (\<lambda>k v m. (Inr (), m(k \<mapsto> v))),
      kv_delete = (\<lambda>k m. (Inr (m k \<noteq> None), m(k := None))),
      kv_sync = (\<lambda>m. (Inr (), m)), kv_clear = (\<lambda>m. (Inr (), Map.empty))\<rparr>"

interpretation mem: kv_database_reliable mem_kv "\<lambda>m. m"
  by unfold_locales (auto simp: mem_kv_def)

subsection \<open>Properties\<close>


lemma ex_rocks_put:
  "RocksDB_putPage mem_kv 5 [clh_zero] 1 \<lparr>rk_db = Map.empty, rk_used_clusters = 3\<rparr> =
     (Inr (), \<lparr>rk_db = [5 \<mapsto> PageValue [clh_zero], used_clusters_key \<mapsto> CounterValue 4], rk_used_clusters = 3\<rparr>)"
  by (simp add: RocksDB_putPage_def check_page_address_def cork_key_def used_clusters_key_def
      scrub_id_key_def rk_on_db_def mem_kv_def sbind_def sret_def sget_def szoom_def)

lemma ex_tc_put:
  "TC_putPage mem_kv 5 [clh_zero] 1 \<lparr>tc_db = Map.empty, tc_used_clusters = 3\<rparr> =
     (Inr (), \<lparr>tc_db = [5 \<mapsto> PageValue [clh_zero], used_clusters_key \<mapsto> CounterValue 4], tc_used_clusters = 4\<rparr>)"
  by (simp add: TC_putPage_def TC_put_used_clusters_def check_page_address_def cork_key_def
      used_clusters_key_def scrub_id_key_def tc_on_db_def mem_kv_def sbind_def sret_def sget_def
      smod_def szoom_def)




end
