(* ===== verification/Cached_Metadata_Store.thy ===== *)
theory Cached_Metadata_Store
  imports Metadata_Backend
begin

text \<open>
  The metadata store of a volume, src/src/volumedriver/CachedMetaDataStore.h and
  CachedMetaDataStore.cpp: the map from cluster addresses to locations. Recent writes are collected
  in \<open>corks_\<close>, one map per TLog; below them is a cache of pages with least recently used
  replacement; below that the backend. A page is named by its position in \<open>pages_\<close>; the intrusive
  containers \<open>page_list_\<close> and \<open>page_map_\<close> are lists of such positions. The operations run under the
  locks of the class, one at a time. \<open>ASSERT\<close> is compiled out of a release build and is not
  modelled; \<open>VERIFY\<close> is.
\<close>

subsection \<open>State\<close>

record page =
  pg_address :: u64
  pg_data :: "clh list"
  pg_dirty :: bool
  pg_written :: u32
  pg_discarded :: u32

record 'b cmds =
  cs_backend :: 'b
  cs_pages :: "page list"
  cs_page_map :: "nat list"
  cs_page_list :: "nat list"
  cs_num_pages :: nat
  cs_cache_hits :: u64
  cs_cache_misses :: u64
  cs_written_clusters :: u64
  cs_discarded_clusters :: u64
  cs_cork_uuid :: "uuid option"
  cs_scrub_id :: "uuid option"
  cs_corks :: "(uuid \<times> clh std_map) list"

text \<open>
  What is fixed for the process and the object: the page size, whether hashes are used, the hash of
  a zero cluster, and the virtual functions of the backend.
\<close>

record 'b cmds_env =
  env_page_bits :: nat
  env_use_hash :: bool
  env_zero_weed :: "128 word"
  env_backend :: "'b mdb"

definition CachePage_new :: "u64 \<Rightarrow> clh list \<Rightarrow> page" where
  "CachePage_new pa d =
     \<lparr>pg_address = pa, pg_data = d, pg_dirty = False, pg_written = 0, pg_discarded = 0\<rparr>"

definition on_backend :: "('b, 'a) sm \<Rightarrow> ('b cmds, 'a) sm" where
  "on_backend = szoom cs_backend (\<lambda>b s. s\<lparr>cs_backend := b\<rparr>)"

definition get_pg :: "'b cmds \<Rightarrow> nat \<Rightarrow> page" where
  "get_pg s i = cs_pages s ! i"

definition upd_pg :: "nat \<Rightarrow> (page \<Rightarrow> page) \<Rightarrow> 'b cmds \<Rightarrow> 'b cmds" where
  "upd_pg i f s = s\<lparr>cs_pages := (cs_pages s)[i := f (cs_pages s ! i)]\<rparr>"

subsection \<open>Writing pages\<close>

text \<open>\<open>disp\<close> is the member function of the backend that is called, putPage or discardPage.\<close>

definition dispose_page ::
  "(u64 \<Rightarrow> clh list \<Rightarrow> 32 word \<Rightarrow> ('b, unit) sm) \<Rightarrow> nat \<Rightarrow> ('b cmds, unit) sm" where
  "dispose_page disp i =
     sbind (sget (\<lambda>s. get_pg s i)) (\<lambda>p.
     sbind (on_backend (disp (pg_address p) (pg_data p) (pg_written p - pg_discarded p))) (\<lambda>_.
     smod (\<lambda>s. upd_pg i (\<lambda>p. p\<lparr>pg_written := 0, pg_discarded := 0, pg_dirty := False\<rparr>)
        (s\<lparr>cs_written_clusters := cs_written_clusters s - ucast (pg_written p),
           cs_discarded_clusters := cs_discarded_clusters s - ucast (pg_discarded p)\<rparr>))))"

definition possibly_discard_page :: "'b cmds_env \<Rightarrow> nat \<Rightarrow> ('b cmds, bool) sm" where
  "possibly_discard_page env i =
     sbind (sget (\<lambda>s. pg_address (get_pg s i))) (\<lambda>pa.
     sbind (on_backend (mdb_pageExistsInParent (env_backend env) pa)) (\<lambda>ex.
       if ex then sret False
       else sbind (dispose_page (mdb_discardPage (env_backend env)) i) (\<lambda>_. sret True)))"

definition maybeWritePage :: "'b cmds_env \<Rightarrow> nat \<Rightarrow> bool \<Rightarrow> ('b cmds, bool) sm" where
  "maybeWritePage env i ignore_errors =
     sbind (sget (\<lambda>s. get_pg s i)) (\<lambda>p.
       if pg_dirty p
       then scatch
              (sbind (if page_empty (pg_data p) then possibly_discard_page env i else sret False)
                (\<lambda>discarded.
                   if discarded then sret False
                   else sbind (dispose_page (mdb_putPage (env_backend env)) i) (\<lambda>_. sret True)))
              (\<lambda>e. if \<not> ignore_errors then sthrow e else sret False)
       else sret False)"

subsection \<open>Finding and loading a page\<close>

definition page_map_find :: "u64 \<Rightarrow> 'b cmds \<Rightarrow> nat option" where
  "page_map_find pa s = find (\<lambda>i. pg_address (get_pg s i) = pa) (cs_page_map s)"

definition unlink_from_list :: "nat \<Rightarrow> 'b cmds \<Rightarrow> 'b cmds" where
  "unlink_from_list i s = s\<lparr>cs_page_list := remove1 i (cs_page_list s)\<rparr>"

definition unlink_from_set :: "nat \<Rightarrow> 'b cmds \<Rightarrow> 'b cmds" where
  "unlink_from_set i s = s\<lparr>cs_page_map := remove1 i (cs_page_map s)\<rparr>"

text \<open>A page for a miss: one that was never used, or the least recently used one, written out.\<close>

definition get_free_page :: "'b cmds_env \<Rightarrow> ('b cmds, nat) sm" where
  "get_free_page env =
     sbind (sget (\<lambda>s. s)) (\<lambda>s.
       if cs_num_pages s < length (cs_pages s) then sret (cs_num_pages s)
       else case cs_page_list s of
              [] \<Rightarrow> sthrow UndefinedBehaviour
            | i # _ \<Rightarrow>
                sbind (smod (\<lambda>s. (unlink_from_set i (unlink_from_list i s))
                              \<lparr>cs_num_pages := cs_num_pages s - 1\<rparr>)) (\<lambda>_.
                sbind (maybeWritePage env i False) (\<lambda>_. sret i)))"

definition get_cache_page :: "'b cmds_env \<Rightarrow> u64 \<Rightarrow> ('b cmds, nat \<times> bool) sm" where
  "get_cache_page env ca =
     (let pa = pageAddress (env_page_bits env) ca
      in sbind (sget (page_map_find pa)) (\<lambda>it.
           case it of
             None \<Rightarrow>
               sbind (smod (\<lambda>s. s\<lparr>cs_cache_misses := cs_cache_misses s + 1\<rparr>)) (\<lambda>_.
               sbind (get_free_page env) (\<lambda>i.
               sbind (smod (upd_pg i (\<lambda>p. CachePage_new pa (pg_data p)))) (\<lambda>_.
               sbind (on_backend (mdb_getPage (env_backend env) pa)) (\<lambda>found.
               sbind (smod (upd_pg i (\<lambda>p. p\<lparr>pg_data :=
                        (case found of Some d \<Rightarrow> d | None \<Rightarrow> page_zero (env_page_bits env))\<rparr>))) (\<lambda>_.
               sbind (smod (\<lambda>s. s\<lparr>cs_page_map := i # cs_page_map s,
                                  cs_num_pages := cs_num_pages s + 1,
                                  cs_page_list := cs_page_list s @ [i]\<rparr>)) (\<lambda>_.
               sret (i, False)))))))
           | Some i \<Rightarrow>
               sbind (smod (\<lambda>s. s\<lparr>cs_cache_hits := cs_cache_hits s + 1,
                                  cs_page_list := remove1 i (cs_page_list s) @ [i]\<rparr>)) (\<lambda>_.
               sret (i, True))))"

text \<open>The argument \<open>loc\<close> is in and out: what is written, or what was read.\<close>

definition get_cluster_location ::
  "'b cmds_env \<Rightarrow> u64 \<Rightarrow> clh \<Rightarrow> bool \<Rightarrow> ('b cmds, bool \<times> clh) sm" where
  "get_cluster_location env ca loc for_write =
     sbind (get_cache_page env ca) (\<lambda>(i, hit).
     sbind (sget (\<lambda>s. pg_data (get_pg s i) ! page_offset (env_page_bits env) ca)) (\<lambda>c.
       if for_write
       then sbind (if isNull (clusterLocation c) \<and> \<not> isNull (clusterLocation loc)
                   then smod (\<lambda>s. upd_pg i (\<lambda>p. p\<lparr>pg_written := pg_written p + 1\<rparr>)
                                (s\<lparr>cs_written_clusters := cs_written_clusters s + 1\<rparr>))
                   else if \<not> isNull (clusterLocation c) \<and> isNull (clusterLocation loc)
                   then smod (\<lambda>s. upd_pg i (\<lambda>p. p\<lparr>pg_discarded := pg_discarded p + 1\<rparr>)
                                (s\<lparr>cs_discarded_clusters := cs_discarded_clusters s + 1\<rparr>))
                   else sret ()) (\<lambda>_.
            sbind (smod (upd_pg i (\<lambda>p. p\<lparr>pg_data := (pg_data p)
                           [page_offset (env_page_bits env) ca := loc], pg_dirty := True\<rparr>))) (\<lambda>_.
            sret (hit, loc)))
       else sret (hit, c)))"

subsection \<open>Reading and writing clusters\<close>

text \<open>The newest cork that has an entry for the address.\<close>

fun corks_lookup :: "(uuid \<times> clh std_map) list \<Rightarrow> u64 \<Rightarrow> clh option" where
  "corks_lookup [] ca = None"
| "corks_lookup (c # cs) ca =
     (case map_of (snd c) ca of Some l \<Rightarrow> Some l | None \<Rightarrow> corks_lookup cs ca)"

definition readCluster :: "'b cmds_env \<Rightarrow> u64 \<Rightarrow> ('b cmds, clh) sm" where
  "readCluster env ca =
     sbind (sget (\<lambda>s. corks_lookup (rev (cs_corks s)) ca)) (\<lambda>r.
       case r of
         Some l \<Rightarrow>
           sbind (smod (\<lambda>s. s\<lparr>cs_cache_hits := cs_cache_hits s + 1\<rparr>)) (\<lambda>_. sret l)
       | None \<Rightarrow>
           sbind (get_cluster_location env ca clh_zero False) (\<lambda>(_, loc).
             if env_use_hash env \<and> isNull (clusterLocation loc)
             then sret (discarded_location_and_hash (env_zero_weed env))
             else sret loc))"

text \<open>Writing without a cork would be undefined: \<^verbatim>\<open>corks_.back()\<close> of an empty list.\<close>

definition writeCluster :: "u64 \<Rightarrow> clh \<Rightarrow> ('b cmds, unit) sm" where
  "writeCluster ca loc =
     sbind (sget cs_corks) (\<lambda>cs.
       if cs = [] then sthrow UndefinedBehaviour
       else smod (\<lambda>s. s\<lparr>cs_corks := butlast cs @
                          [(fst (last cs), std_map_insert ca loc (snd (last cs)))]\<rparr>))"

definition discardCluster :: "'b cmds_env \<Rightarrow> u64 \<Rightarrow> ('b cmds, unit) sm" where
  "discardCluster env ca = writeCluster ca (discarded_location_and_hash (env_zero_weed env))"

subsection \<open>Corks\<close>

definition cork :: "uuid \<Rightarrow> ('b cmds, unit) sm" where
  "cork c =
     sbind (sget cs_corks) (\<lambda>cs.
       if cs \<noteq> [] \<and> fst (last cs) = c then sret ()
       else smod (\<lambda>s. s\<lparr>cs_corks := cs @ [(c, [])]\<rparr>))"

definition lastCork :: "('b cmds, uuid option) sm" where
  "lastCork = sget cs_cork_uuid"

text \<open>
  \<^verbatim>\<open>corks_.front() != corks_.back()\<close> compares the pairs: the ids and the shared pointers. Two
  different elements of the list have different pointers, so it says that there are at least two
  corks.
\<close>

definition unCork :: "'b cmds_env \<Rightarrow> uuid option \<Rightarrow> ('b cmds, unit) sm" where
  "unCork env c =
     sbind (sget cs_corks) (\<lambda>cs.
     sbind (case c of
              None \<Rightarrow> sret ()
            | Some cid \<Rightarrow>
                sbind (sverify (cs \<noteq> []) ''not corks_.empty()'') (\<lambda>_.
                sverify (fst (hd cs) = cid) ''corks_.front().first == *cork'')) (\<lambda>_.
       if cs = [] then sthrow UndefinedBehaviour
       else
         sbind (sverify (length cs \<ge> 2) ''corks_.front() != corks_.back()'') (\<lambda>_.
         sbind (sfor (snd (hd cs)) (\<lambda>(ca, loc).
                  sbind (get_cluster_location env ca loc True) (\<lambda>_. sret ()))) (\<lambda>_.
         sbind (sget cs_page_list) (\<lambda>pl.
         sbind (sfor pl (\<lambda>i. sbind (maybeWritePage env i False) (\<lambda>_. sret ()))) (\<lambda>_.
         sbind (on_backend (mdb_setCork (env_backend env) (fst (hd cs)))) (\<lambda>_.
         smod (\<lambda>s. s\<lparr>cs_cork_uuid := Some (fst (hd cs)), cs_corks := tl (cs_corks s)\<rparr>))))))))"

subsection \<open>The page cache as a whole\<close>

definition init_pages :: "nat \<Rightarrow> nat \<Rightarrow> page list" where
  "init_pages pb capacity = map (\<lambda>i. CachePage_new (of_nat i) (page_zero pb)) [0 ..< capacity]"

definition CMDS_new :: "'b cmds_env \<Rightarrow> 'b \<Rightarrow> nat \<Rightarrow> 'b cmds result \<times> 'b" where
  "CMDS_new env b capacity =
     (if capacity = 0 then (Inl (AssertFailed ''capacity > 0''), b)
      else case mdb_lastCorkUUID (env_backend env) b of
             (Inl e, b1) \<Rightarrow> (Inl e, b1)
           | (Inr c, b1) \<Rightarrow>
               (case mdb_scrub_id (env_backend env) b1 of
                  (Inl e, b2) \<Rightarrow> (Inl e, b2)
                | (Inr sid, b2) \<Rightarrow>
                    (Inr \<lparr>cs_backend = b2, cs_pages = init_pages (env_page_bits env) capacity,
                          cs_page_map = [], cs_page_list = [], cs_num_pages = 0, cs_cache_hits = 0,
                          cs_cache_misses = 0, cs_written_clusters = 0, cs_discarded_clusters = 0,
                          cs_cork_uuid = c, cs_scrub_id = sid, cs_corks = []\<rparr>, b2)))"

text \<open>The loop takes pages from the front of \<open>page_list_\<close> until it is empty.\<close>

fun clear_loop :: "'b cmds_env \<Rightarrow> bool \<Rightarrow> bool \<Rightarrow> nat list \<Rightarrow> ('b cmds, unit) sm" where
  "clear_loop env sync ignore_errors [] = sret ()"
| "clear_loop env sync ignore_errors (i # is) =
     sbind (smod (\<lambda>s. (unlink_from_set i (unlink_from_list i s))
                        \<lparr>cs_num_pages := cs_num_pages s - 1\<rparr>)) (\<lambda>_.
     sbind (if sync then sbind (maybeWritePage env i ignore_errors) (\<lambda>_. sret ()) else sret ()) (\<lambda>_.
       clear_loop env sync ignore_errors is))"

definition write_dirty_pages_and_clear :: "'b cmds_env \<Rightarrow> bool \<Rightarrow> bool \<Rightarrow> ('b cmds, unit) sm" where
  "write_dirty_pages_and_clear env sync ignore_errors =
     sbind (sget cs_page_list) (\<lambda>pl.
     sbind (clear_loop env sync ignore_errors pl) (\<lambda>_.
       smod (\<lambda>s. s\<lparr>cs_pages := map (\<lambda>p. p\<lparr>pg_data := page_zero (env_page_bits env)\<rparr>) (cs_pages s)\<rparr>)))"

definition write_page_keeping :: "'b cmds_env \<Rightarrow> nat \<Rightarrow> ('b cmds, unit) sm" where
  "write_page_keeping env i =
     sbind (sget (\<lambda>s. get_pg s i)) (\<lambda>p.
       if pg_dirty p \<and> \<not> page_empty (pg_data p)
       then sbind (maybeWritePage env i False) (\<lambda>_.
            sbind (dispose_page (mdb_putPage (env_backend env)) i) (\<lambda>_.
            smod (upd_pg i (\<lambda>p. p\<lparr>pg_dirty := False\<rparr>))))
       else sret ())"

definition write_dirty_pages_keeping :: "'b cmds_env \<Rightarrow> ('b cmds, unit) sm" where
  "write_dirty_pages_keeping env =
     sbind (sget cs_page_list) (\<lambda>pl. sfor pl (write_page_keeping env))"

definition drop_cache_including_dirty_pages :: "'b cmds_env \<Rightarrow> ('b cmds, unit) sm" where
  "drop_cache_including_dirty_pages env = write_dirty_pages_and_clear env False True"

definition set_cache_capacity :: "'b cmds_env \<Rightarrow> nat \<Rightarrow> ('b cmds, unit) sm" where
  "set_cache_capacity env new_capacity =
     sbind (sverify (new_capacity > 0) ''new_capacity > 0'') (\<lambda>_.
     sbind (sget (\<lambda>s. length (cs_pages s))) (\<lambda>n.
       if new_capacity \<noteq> n
       then sbind (write_dirty_pages_and_clear env True True) (\<lambda>_.
            smod (\<lambda>s. s\<lparr>cs_pages := init_pages (env_page_bits env) new_capacity\<rparr>))
       else sret ()))"

definition clear_all_keys :: "'b cmds_env \<Rightarrow> ('b cmds, unit) sm" where
  "clear_all_keys env =
     sbind (smod (\<lambda>s. s\<lparr>cs_corks := []\<rparr>)) (\<lambda>_.
     sbind (write_dirty_pages_and_clear env False False) (\<lambda>_.
     sbind (on_backend (mdb_clear_all_keys (env_backend env))) (\<lambda>_.
       smod (\<lambda>s. s\<lparr>cs_cork_uuid := None, cs_scrub_id := None\<rparr>))))"

definition set_scrub_id :: "'b cmds_env \<Rightarrow> uuid \<Rightarrow> ('b cmds, unit) sm" where
  "set_scrub_id env sid =
     sbind (on_backend (mdb_set_scrub_id (env_backend env) sid)) (\<lambda>_.
       smod (\<lambda>s. s\<lparr>cs_scrub_id := Some sid\<rparr>))"

definition getUsedClusters :: "'b cmds_env \<Rightarrow> 'b cmds \<Rightarrow> u64" where
  "getUsedClusters env s =
     cs_written_clusters s - cs_discarded_clusters s + mdb_getUsedClusters (env_backend env) (cs_backend s)"

definition getCorkedClusters :: "'b cmds \<Rightarrow> (uuid \<times> nat) list" where
  "getCorkedClusters s = map (\<lambda>(c, m). (c, length m)) (cs_corks s)"

subsection \<open>Replaying TLogs and applying relocations\<close>

text \<open>
  \<open>pages\<close> are the groups of entries that the page generator hands out, \<open>cloneid\<close> the clone they
  belong to. The result is the number of groups.
\<close>

definition process_entry :: "'b cmds_env \<Rightarrow> u8 \<Rightarrow> entry \<Rightarrow> ('b cmds, unit) sm" where
  "process_entry env cloneid e =
     sbind (slift (Entry_clusterAddress e)) (\<lambda>ca.
     sbind (get_cluster_location env ca (clh_cloneID cloneid (e_loc e)) True) (\<lambda>_. sret ()))"

definition processPages :: "'b cmds_env \<Rightarrow> entry list list \<Rightarrow> u8 \<Rightarrow> ('b cmds, nat) sm" where
  "processPages env pages cloneid =
     sbind (sfor pages (\<lambda>pd. sfor pd (process_entry env cloneid))) (\<lambda>_. sret (length pages))"

text \<open>
  \<open>processCloneTLogs\<close>: \<open>ctl\<close> has, for each clone, the groups of entries of its TLogs (what the
  TLog reader and the page generator made of them).
\<close>

fun clone_tlogs_loop ::
  "'b cmds_env \<Rightarrow> u8 option \<Rightarrow> (u8 \<times> entry list list) list \<Rightarrow> ('b cmds, unit) sm" where
  "clone_tlogs_loop env prev [] = sret ()"
| "clone_tlogs_loop env prev (c # cs) =
     sbind (sverify (case prev of None \<Rightarrow> True | Some p \<Rightarrow> p > fst c) ''prev_cloneid > cloneid'') (\<lambda>_.
     sbind (processPages env (snd c) (fst c)) (\<lambda>_.
       clone_tlogs_loop env (Some (fst c)) cs))"

definition processCloneTLogs ::
  "'b cmds_env \<Rightarrow> (u8 \<times> entry list list) list \<Rightarrow> bool \<Rightarrow> uuid option \<Rightarrow> ('b cmds, unit) sm" where
  "processCloneTLogs env ctl sync c =
     sbind (sget cs_corks) (\<lambda>cs.
     sbind (sverify (length cs = 0 \<or> (length cs = 1 \<and> snd (hd cs) = []))
              ''corks_.size() == 0 or (corks_.size() == 1 and corks_.front().second->empty())'') (\<lambda>_.
     sbind (clone_tlogs_loop env None ctl) (\<lambda>_.
     sbind (if sync
            then sbind (sget cs_page_list) (\<lambda>pl.
                 sbind (sfor pl (\<lambda>i. sbind (maybeWritePage env i False) (\<lambda>_. sret ()))) (\<lambda>_.
                 case c of
                   None \<Rightarrow> sret ()
                 | Some cid \<Rightarrow>
                     sbind (on_backend (mdb_setCork (env_backend env) cid)) (\<lambda>_.
                       on_backend (mdb_sync (env_backend env)))))
            else sret ()) (\<lambda>_.
       smod (\<lambda>s. s\<lparr>cs_cork_uuid := c\<rparr>)))))"

text \<open>
  The loop of \<open>applyRelocs\<close> over the relocation log: pairs of an old and a new entry for the same
  address. \<open>n\<close> counts them.
\<close>

fun relocs_loop :: "'b cmds_env \<Rightarrow> u8 \<Rightarrow> entry list \<Rightarrow> nat \<Rightarrow> ('b cmds, nat) sm" where
  "relocs_loop env scid [] n = sret n"
| "relocs_loop env scid [e_old] n =
     sthrow (IOException ''Wrong Relocation TLog, uneven number of entries'')"
| "relocs_loop env scid (e_old # e_new # es) n =
     sbind (slift (Entry_clusterAddress e_old)) (\<lambda>a_old.
     sbind (slift (Entry_clusterAddress e_new)) (\<lambda>a_new.
       if a_old \<noteq> a_new
       then sthrow (IOException
              ''Wrong Relocation TLog, old clusteraddress does not equal new clusteraddress'')
       else
         sbind (get_cluster_location env a_old clh_zero False) (\<lambda>(_, l_current).
         sbind (if clusterLocation l_current =
                   ClusterLocation_cloneID scid (clusterLocation (e_loc e_old))
                then sbind (get_cluster_location env a_old (clh_cloneID scid (e_loc e_new)) True)
                       (\<lambda>_. sret ())
                else sret ()) (\<lambda>_.
         relocs_loop env scid es (n + 1)))))"

definition applyRelocs ::
  "'b cmds_env \<Rightarrow> entry list \<Rightarrow> u8 \<Rightarrow> uuid \<Rightarrow> uuid \<Rightarrow> ('b cmds, nat) sm" where
  "applyRelocs env relocs scid tmp_scrub_id sid =
     sbind (set_scrub_id env tmp_scrub_id) (\<lambda>_.
     sbind (relocs_loop env scid relocs 0) (\<lambda>n.
     sbind (write_dirty_pages_keeping env) (\<lambda>_.
     sbind (set_scrub_id env sid) (\<lambda>_. sret n))))"

text \<open>\<open>get_page\<close>: the locations of a page, with the clusters that are corked left out.\<close>

definition get_page :: "'b cmds_env \<Rightarrow> u64 \<Rightarrow> ('b cmds, cluster_location list) sm" where
  "get_page env ca =
     (let pb = env_page_bits env;
          ca_start = clusterAddress pb (pageAddress pb ca);
          ca_end = ca_start + of_nat (page_capacity pb)
      in sbind (get_cache_page env ca) (\<lambda>(i, _).
           sget (\<lambda>s. map clusterLocation
             (fold (\<lambda>(k, _) tmp.
                if k \<ge> ca_start \<and> k < ca_end
                then tmp[page_offset pb k := discarded_location_and_hash (env_zero_weed env)]
                else tmp)
               (concat (map snd (cs_corks s))) (pg_data (get_pg s i))))))"

end
