(* ===== verification/Metadata_Store_Refinement.thy ===== *)
theory Metadata_Store_Refinement
  imports Cached_Metadata_Store
begin

text \<open>
  The metadata store implements a map from cluster addresses to locations. \<open>cmds_view\<close> is that map
  for a state of the store: the newest cork that has the address, else the page in the cache, else
  the page in the backend. \<open>cmds_inv\<close> ties the page table, the replacement list and the lookup set
  together and says that a clean page agrees with the backend. The proofs are in the locale
  \<open>cached_store\<close>, which extends the interface of the backend, so they hold for every backend that
  keeps it.
\<close>

subsection \<open>Addresses\<close>

lemma page_offset_take_bit: "page_offset pb ca = unat (take_bit pb ca)"
proof -
  have "(of_nat (page_capacity pb) - 1 :: u64) = mask pb"
    by (simp add: page_capacity_def mask_eq_exp_minus_1)
  then show ?thesis by (simp add: page_offset_def take_bit_eq_mask)
qed

lemma page_offset_less: "page_offset pb ca < page_capacity pb"
  by (simp add: page_offset_take_bit page_capacity_def unsigned_take_bit_eq)

lemma address_eqI:
  assumes "pageAddress pb ca = pageAddress pb ca'" and "page_offset pb ca = page_offset pb ca'"
  shows "ca = ca'"
proof -
  have "take_bit pb ca = take_bit pb ca'"
    using assms(2) unfolding page_offset_take_bit by (rule unsigned_word_eqI)
  moreover have "drop_bit pb ca = drop_bit pb ca'" using assms(1) by (simp add: pageAddress_def)
  ultimately show ?thesis by (metis bits_ident)
qed

subsection \<open>Views\<close>

text \<open>
  A cluster that was never written and one that was discarded are the same to a reader; they have
  different hashes in a page.
\<close>

definition clh_norm :: "128 word \<Rightarrow> clh \<Rightarrow> clh" where
  "clh_norm zw l = (if isNull (clusterLocation l) then discarded_location_and_hash zw else l)"

definition backend_data :: "'b cmds_env \<Rightarrow> ('b \<Rightarrow> u64 \<Rightarrow> clh list option) \<Rightarrow> 'b \<Rightarrow> u64 \<Rightarrow> clh list" where
  "backend_data env pgs b pa =
     (case pgs b pa of Some d \<Rightarrow> d | None \<Rightarrow> page_zero (env_page_bits env))"

definition cached_data ::
  "'b cmds_env \<Rightarrow> ('b \<Rightarrow> u64 \<Rightarrow> clh list option) \<Rightarrow> 'b cmds \<Rightarrow> u64 \<Rightarrow> clh list" where
  "cached_data env pgs s pa =
     (case page_map_find pa s of
        Some i \<Rightarrow> pg_data (get_pg s i)
      | None \<Rightarrow> backend_data env pgs (cs_backend s) pa)"

definition base_view ::
  "'b cmds_env \<Rightarrow> ('b \<Rightarrow> u64 \<Rightarrow> clh list option) \<Rightarrow> 'b cmds \<Rightarrow> u64 \<Rightarrow> clh" where
  "base_view env pgs s ca =
     clh_norm (env_zero_weed env)
       (cached_data env pgs s (pageAddress (env_page_bits env) ca) ! page_offset (env_page_bits env) ca)"

definition disk_view ::
  "'b cmds_env \<Rightarrow> ('b \<Rightarrow> u64 \<Rightarrow> clh list option) \<Rightarrow> 'b \<Rightarrow> u64 \<Rightarrow> clh" where
  "disk_view env pgs b ca =
     clh_norm (env_zero_weed env)
       (backend_data env pgs b (pageAddress (env_page_bits env) ca) ! page_offset (env_page_bits env) ca)"

definition cmds_view ::
  "'b cmds_env \<Rightarrow> ('b \<Rightarrow> u64 \<Rightarrow> clh list option) \<Rightarrow> 'b cmds \<Rightarrow> u64 \<Rightarrow> clh" where
  "cmds_view env pgs s ca =
     (case corks_lookup (rev (cs_corks s)) ca of
        Some l \<Rightarrow> clh_norm (env_zero_weed env) l
      | None \<Rightarrow> base_view env pgs s ca)"

subsection \<open>The invariant\<close>

definition page_table_ok :: "nat set \<Rightarrow> 'b cmds \<Rightarrow> bool" where
  "page_table_ok slots s \<longleftrightarrow>
     distinct (cs_page_list s) \<and> set (cs_page_list s) = slots \<and> cs_num_pages s = card slots \<and>
     distinct (cs_page_map s) \<and> set (cs_page_map s) = slots \<and>
     slots \<subseteq> {..< length (cs_pages s)} \<and> inj_on (\<lambda>i. pg_address (get_pg s i)) slots"

definition pages_ok :: "'b cmds_env \<Rightarrow> ('b \<Rightarrow> u64 \<Rightarrow> clh list option) \<Rightarrow> 'b cmds \<Rightarrow> bool" where
  "pages_ok env pgs s \<longleftrightarrow>
     0 < length (cs_pages s) \<and>
     (\<forall>i < length (cs_pages s). length (pg_data (get_pg s i)) = page_capacity (env_page_bits env)) \<and>
     (\<forall>i \<in> set (cs_page_map s). \<not> pg_dirty (get_pg s i) \<longrightarrow>
        map (clh_norm (env_zero_weed env)) (pg_data (get_pg s i)) =
        map (clh_norm (env_zero_weed env))
          (backend_data env pgs (cs_backend s) (pg_address (get_pg s i))))"

definition cmds_inv :: "'b cmds_env \<Rightarrow> ('b \<Rightarrow> u64 \<Rightarrow> clh list option) \<Rightarrow> 'b cmds \<Rightarrow> bool" where
  "cmds_inv env pgs s \<longleftrightarrow>
     page_table_ok {..< cs_num_pages s} s \<and> pages_ok env pgs s \<and>
     (\<forall>c \<in> set (cs_corks s). std_map_inv (snd c))"

subsection \<open>Lookups in the page table\<close>

lemma page_map_find_Some:
  assumes "page_table_ok slots s"
  shows "page_map_find pa s = Some i \<longleftrightarrow> i \<in> slots \<and> pg_address (get_pg s i) = pa"
proof -
  have inj: "inj_on (\<lambda>i. pg_address (get_pg s i)) (set (cs_page_map s))"
    and sl: "set (cs_page_map s) = slots"
    using assms by (auto simp: page_table_ok_def)
  have "find (\<lambda>i. pg_address (get_pg s i) = pa) xs = Some i \<longleftrightarrow>
      i \<in> set xs \<and> pg_address (get_pg s i) = pa" if "set xs \<subseteq> set (cs_page_map s)" for xs
    using that by (induction xs) (auto dest: inj_onD [OF inj])
  from this [OF subset_refl] show ?thesis by (simp add: page_map_find_def sl)
qed

lemma page_map_find_None:
  assumes "page_table_ok slots s"
  shows "page_map_find pa s = None \<longleftrightarrow> (\<forall>i \<in> slots. pg_address (get_pg s i) \<noteq> pa)"
  using page_map_find_Some [OF assms, of pa] by (metis not_Some_eq)

lemma page_map_find_cong:
  assumes "page_table_ok A s" and "page_table_ok B s'"
    and "\<And>i. i \<in> A \<and> pg_address (get_pg s i) = pa \<longleftrightarrow> i \<in> B \<and> pg_address (get_pg s' i) = pa"
  shows "page_map_find pa s' = page_map_find pa s"
proof -
  have "page_map_find pa s' = Some i \<longleftrightarrow> page_map_find pa s = Some i" for i
    using assms(3) [of i] by (simp add: page_map_find_Some [OF assms(1)] page_map_find_Some [OF assms(2)])
  then show ?thesis by (metis not_Some_eq)
qed

lemma base_view_cong:
  assumes "get_pg s' = get_pg s" and "cs_page_map s' = cs_page_map s"
    and "pgs (cs_backend s') = pgs (cs_backend s)"
  shows "base_view env pgs s' = base_view env pgs s"
  unfolding base_view_def cached_data_def backend_data_def page_map_find_def assms ..

lemma cmds_view_cong:
  assumes "base_view env pgs s' = base_view env pgs s" and "cs_corks s' = cs_corks s"
  shows "cmds_view env pgs s' = cmds_view env pgs s"
  unfolding cmds_view_def assms ..

lemma nth_update_any: "xs[i := v] ! j = (if i = j \<and> i < length xs then v else xs ! j)"
  by (cases "i < length xs") (auto simp: nth_list_update list_update_beyond)

lemma nth_norm:
  assumes "map (clh_norm z) d = map (clh_norm z) d'" and "n < length d"
  shows "clh_norm z (d ! n) = clh_norm z (d' ! n)"
  using assms by (metis length_map nth_map)

lemma norm_empty_page:
  assumes "page_empty d" and "length d = page_capacity pb"
  shows "map (clh_norm z) d = map (clh_norm z) (page_zero pb)"
  using assms
  by (intro nth_equalityI)
    (auto simp: page_zero_def page_empty_def list_all_length clh_norm_def clh_zero_def
      null_location_def isNull_def ClusterLocation_new_def SCO_new_def)

definition override :: "128 word \<Rightarrow> (u64 \<times> clh) list \<Rightarrow> (u64 \<Rightarrow> clh) \<Rightarrow> u64 \<Rightarrow> clh" where
  "override zw m v = fold (\<lambda>(ca, l) v. v(ca := clh_norm zw l)) m v"

lemma override_Cons: "override zw ((ca, l) # m) v = override zw m (v(ca := clh_norm zw l))"
  by (simp add: override_def)

lemma override_map_of:
  "distinct (map fst m) \<Longrightarrow>
     override zw m v ca = (case map_of m ca of Some l \<Rightarrow> clh_norm zw l | None \<Rightarrow> v ca)"
proof (induction m arbitrary: v)
  case (Cons x m)
  obtain k l where x: "x = (k, l)" by fastforce
  with Cons.prems have none: "map_of m k = None" by (simp add: map_of_eq_None_iff)
  have "override zw (x # m) v ca = override zw m (v(k := clh_norm zw l)) ca"
    by (simp add: override_def x)
  with Cons none x show ?case by (cases "ca = k") (simp_all split: option.split)
qed (simp add: override_def)

lemma corks_lookup_append:
  "corks_lookup (xs @ ys) ca = (case corks_lookup xs ca of Some l \<Rightarrow> Some l | None \<Rightarrow> corks_lookup ys ca)"
  by (induction xs) (auto split: option.splits)

subsection \<open>The store over a backend\<close>

locale cached_store = metadata_backend "env_page_bits env" "env_backend env" pgs crk
  for env :: "'b cmds_env" and pgs :: "'b \<Rightarrow> u64 \<Rightarrow> clh list option" and crk :: "'b \<Rightarrow> uuid option"
begin

text \<open>
  What writing a page out leaves: the page is clean and the backend has its content; nothing else
  changes but the counters.
\<close>

definition same_store :: "'b cmds \<Rightarrow> 'b cmds \<Rightarrow> bool" where
  "same_store s s' \<longleftrightarrow>
     cs_page_map s' = cs_page_map s \<and> cs_page_list s' = cs_page_list s \<and>
     cs_num_pages s' = cs_num_pages s \<and> cs_corks s' = cs_corks s \<and>
     cs_cork_uuid s' = cs_cork_uuid s \<and> crk (cs_backend s') = crk (cs_backend s)"

definition page_written :: "nat \<Rightarrow> 'b cmds \<Rightarrow> 'b cmds \<Rightarrow> bool" where
  "page_written i s s' \<longleftrightarrow>
     same_store s s' \<and>
     (\<exists>w d. cs_pages s' =
        (cs_pages s)[i := (cs_pages s ! i)\<lparr>pg_written := w, pg_discarded := d, pg_dirty := False\<rparr>]) \<and>
     (\<forall>pa. pa \<noteq> pg_address (get_pg s i) \<longrightarrow> pgs (cs_backend s') pa = pgs (cs_backend s) pa) \<and>
     map (clh_norm (env_zero_weed env)) (backend_data env pgs (cs_backend s') (pg_address (get_pg s i))) =
     map (clh_norm (env_zero_weed env)) (pg_data (get_pg s i))"

lemma same_store_trans: "same_store s s1 \<Longrightarrow> same_store s1 s2 \<Longrightarrow> same_store s s2"
  by (auto simp: same_store_def)

lemma dispose_put:
  assumes "dispose_page (mdb_putPage (env_backend env)) i s = (Inr u, s')"
  shows "page_written i s s'"
proof -
  let ?p = "get_pg s i"
  from assms obtain b u' where
      b: "mdb_putPage (env_backend env) (pg_address ?p) (pg_data ?p)
            (pg_written ?p - pg_discarded ?p) (cs_backend s) = (Inr u', b)"
    and s': "s' = upd_pg i (\<lambda>p. p\<lparr>pg_written := 0, pg_discarded := 0, pg_dirty := False\<rparr>)
        (s\<lparr>cs_backend := b,
           cs_written_clusters := cs_written_clusters s - ucast (pg_written ?p),
           cs_discarded_clusters := cs_discarded_clusters s - ucast (pg_discarded ?p)\<rparr>)"
    by (auto simp: dispose_page_def on_backend_def)
  from putPage [OF b] s' show ?thesis
    by (auto simp: page_written_def same_store_def upd_pg_def backend_data_def)
qed

lemma dispose_discard:
  assumes "dispose_page (mdb_discardPage (env_backend env)) i s = (Inr u, s')"
    and "page_empty (pg_data (get_pg s i))"
    and "length (pg_data (get_pg s i)) = page_capacity (env_page_bits env)"
  shows "page_written i s s'"
proof -
  let ?p = "get_pg s i"
  from assms(1) obtain b u' where
      b: "mdb_discardPage (env_backend env) (pg_address ?p) (pg_data ?p)
            (pg_written ?p - pg_discarded ?p) (cs_backend s) = (Inr u', b)"
    and s': "s' = upd_pg i (\<lambda>p. p\<lparr>pg_written := 0, pg_discarded := 0, pg_dirty := False\<rparr>)
        (s\<lparr>cs_backend := b,
           cs_written_clusters := cs_written_clusters s - ucast (pg_written ?p),
           cs_discarded_clusters := cs_discarded_clusters s - ucast (pg_discarded ?p)\<rparr>)"
    by (auto simp: dispose_page_def on_backend_def)
  from discardPage [OF b] s' norm_empty_page [OF assms(2,3), of "env_zero_weed env"] show ?thesis
    by (auto simp: page_written_def same_store_def upd_pg_def backend_data_def)
qed

lemma possibly_discard_page_ok:
  assumes "possibly_discard_page env i s = (Inr r, s')"
    and "page_empty (pg_data (get_pg s i))"
    and "length (pg_data (get_pg s i)) = page_capacity (env_page_bits env)"
  shows "if r then page_written i s s'
    else \<exists>b. s' = s\<lparr>cs_backend := b\<rparr> \<and> pgs b = pgs (cs_backend s) \<and> crk b = crk (cs_backend s)"
proof -
  from assms(1) obtain ex b where
      b: "mdb_pageExistsInParent (env_backend env) (pg_address (get_pg s i)) (cs_backend s) = (Inr ex, b)"
    and s': "if ex then r = False \<and> s' = s\<lparr>cs_backend := b\<rparr>
      else \<exists>u. r = True \<and> dispose_page (mdb_discardPage (env_backend env)) i (s\<lparr>cs_backend := b\<rparr>) = (Inr u, s')"
    by (auto simp: possibly_discard_page_def on_backend_def split: if_splits)
  note law = pageExistsInParent [OF b]
  show ?thesis
  proof (cases ex)
    case True
    with s' law show ?thesis by auto
  next
    case False
    with s' obtain u where r: "r"
      and d: "dispose_page (mdb_discardPage (env_backend env)) i (s\<lparr>cs_backend := b\<rparr>) = (Inr u, s')" by auto
    have "page_written i (s\<lparr>cs_backend := b\<rparr>) s'"
      by (rule dispose_discard [OF d]) (use assms(2,3) in \<open>simp_all add: get_pg_def\<close>)
    with r law show ?thesis by (auto simp: page_written_def same_store_def get_pg_def)
  qed
qed

lemma maybeWritePage_ok:
  assumes "maybeWritePage env i False s = (Inr r, s')"
    and "length (pg_data (get_pg s i)) = page_capacity (env_page_bits env)"
  shows "if pg_dirty (get_pg s i) then page_written i s s' else s' = s"
proof (cases "pg_dirty (get_pg s i)")
  case False
  with assms(1) show ?thesis by (auto simp: maybeWritePage_def)
next
  case True
  let ?put = "dispose_page (mdb_putPage (env_backend env)) i"
  show ?thesis
  proof (cases "page_empty (pg_data (get_pg s i))")
    case False
    with assms(1) True obtain u where "?put s = (Inr u, s')"
      by (auto simp: maybeWritePage_def scatch_Inr)
    with True dispose_put show ?thesis by auto
  next
    case e: True
    with assms(1) True obtain r1 s1 where
        p: "possibly_discard_page env i s = (Inr r1, s1)"
      and s1: "if r1 then s' = s1 else \<exists>u. ?put s1 = (Inr u, s')"
      by (auto simp: maybeWritePage_def scatch_Inr split: if_splits)
    note q = possibly_discard_page_ok [OF p e assms(2)]
    show ?thesis
    proof (cases r1)
      case r1: True
      with q s1 True show ?thesis by simp
    next
      case r1: False
      with q s1 obtain b u where b: "s1 = s\<lparr>cs_backend := b\<rparr>" "pgs b = pgs (cs_backend s)"
          "crk b = crk (cs_backend s)" and d: "?put s1 = (Inr u, s')" by auto
      from dispose_put [OF d] b True show ?thesis
        by (auto simp: page_written_def same_store_def get_pg_def)
    qed
  qed
qed

lemma page_written_get_pg:
  assumes "page_written i s s'"
  shows "pg_data (get_pg s' j) = pg_data (get_pg s j)"
    and "pg_address (get_pg s' j) = pg_address (get_pg s j)"
    and "j \<noteq> i \<Longrightarrow> pg_dirty (get_pg s' j) = pg_dirty (get_pg s j)"
    and "i < length (cs_pages s) \<Longrightarrow> \<not> pg_dirty (get_pg s' i)"
    and "length (cs_pages s') = length (cs_pages s)"
  using assms by (auto simp: page_written_def get_pg_def nth_update_any)

lemma page_written_table:
  assumes "page_written i s s'" and "page_table_ok slots s"
  shows "page_table_ok slots s'"
  using assms page_written_get_pg [OF assms(1)]
  by (auto simp: page_table_ok_def page_written_def same_store_def inj_on_def)

text \<open>Slots other than \<open>i\<close> hold other addresses, so writing page \<open>i\<close> out does not touch them.\<close>

lemma page_written_pages:
  assumes "page_written i s s'" and "pages_ok env pgs s" and "i < length (cs_pages s)"
    and "\<forall>j \<in> set (cs_page_map s). j \<noteq> i \<longrightarrow> pg_address (get_pg s j) \<noteq> pg_address (get_pg s i)"
  shows "pages_ok env pgs s'"
proof -
  note g = page_written_get_pg [OF assms(1)]
  have len: "\<forall>i < length (cs_pages s'). length (pg_data (get_pg s' i)) = page_capacity (env_page_bits env)"
    using assms(2) g(1,5) by (simp add: pages_ok_def)
  have "map (clh_norm (env_zero_weed env)) (pg_data (get_pg s' j)) =
      map (clh_norm (env_zero_weed env)) (backend_data env pgs (cs_backend s') (pg_address (get_pg s' j)))"
    if "j \<in> set (cs_page_map s')" "\<not> pg_dirty (get_pg s' j)" for j
  proof (cases "j = i")
    case True
    then show ?thesis using assms(1) g(1,2) by (simp add: page_written_def)
  next
    case False
    from that(1) assms(1) have j: "j \<in> set (cs_page_map s)" by (simp add: page_written_def same_store_def)
    from that(2) False g(3) have "\<not> pg_dirty (get_pg s j)" by simp
    with j assms(2) have "map (clh_norm (env_zero_weed env)) (pg_data (get_pg s j)) =
      map (clh_norm (env_zero_weed env)) (backend_data env pgs (cs_backend s) (pg_address (get_pg s j)))"
      by (simp add: pages_ok_def)
    moreover have "pgs (cs_backend s') (pg_address (get_pg s j)) = pgs (cs_backend s) (pg_address (get_pg s j))"
      using assms(1,4) False j by (simp add: page_written_def)
    ultimately show ?thesis by (simp add: g(1,2) backend_data_def)
  qed
  with len assms(2) g(5) show ?thesis by (auto simp: pages_ok_def)
qed

lemma page_written_view:
  assumes "page_written i s s'" and "page_table_ok slots s" and "i \<in> slots"
  shows "base_view env pgs s' = base_view env pgs s"
proof
  fix ca
  let ?pa = "pageAddress (env_page_bits env) ca"
  note g = page_written_get_pg [OF assms(1)]
  have find: "page_map_find ?pa s' = page_map_find ?pa s"
    using assms(1) g(2) by (simp add: page_map_find_def page_written_def same_store_def)
  show "base_view env pgs s' ca = base_view env pgs s ca"
  proof (cases "page_map_find ?pa s")
    case None
    with assms(2,3) have "pg_address (get_pg s i) \<noteq> ?pa" by (auto simp: page_map_find_None)
    with assms(1) have "pgs (cs_backend s') ?pa = pgs (cs_backend s) ?pa"
      by (auto simp: page_written_def)
    with None find show ?thesis by (simp add: base_view_def cached_data_def backend_data_def)
  next
    case (Some j)
    with find g(1) show ?thesis by (simp add: base_view_def cached_data_def)
  qed
qed

text \<open>Taking a page out of the cache: it is unlinked first and then written out.\<close>

definition unlinked :: "nat \<Rightarrow> 'b cmds \<Rightarrow> 'b cmds" where
  "unlinked i s = (unlink_from_set i (unlink_from_list i s))\<lparr>cs_num_pages := cs_num_pages s - 1\<rparr>"

lemma get_pg_unlinked [simp]: "get_pg (unlinked i s) j = get_pg s j"
  "cs_backend (unlinked i s) = cs_backend s" "cs_pages (unlinked i s) = cs_pages s"
  "cs_corks (unlinked i s) = cs_corks s" "cs_cork_uuid (unlinked i s) = cs_cork_uuid s"
  "cs_page_map (unlinked i s) = remove1 i (cs_page_map s)"
  by (simp_all add: unlinked_def unlink_from_set_def unlink_from_list_def get_pg_def)

lemma unlinked_table:
  assumes "page_table_ok slots s" and "i \<in> slots"
  shows "page_table_ok (slots - {i}) (unlinked i s)"
proof -
  have "finite slots" using assms(1) by (metis page_table_ok_def List.finite_set)
  with assms show ?thesis
    by (auto simp: page_table_ok_def unlinked_def unlink_from_set_def unlink_from_list_def get_pg_def
        card_Diff_singleton inj_on_def)
qed

lemma evict_ok:
  assumes t: "page_table_ok slots s" and p: "pages_ok env pgs s" and i: "i \<in> slots"
    and w: "maybeWritePage env i False (unlinked i s) = (Inr r, s')"
  shows "page_table_ok (slots - {i}) s' \<and> pages_ok env pgs s' \<and>
    base_view env pgs s' = base_view env pgs s \<and>
    cs_corks s' = cs_corks s \<and> cs_cork_uuid s' = cs_cork_uuid s \<and>
    crk (cs_backend s') = crk (cs_backend s) \<and> length (cs_pages s') = length (cs_pages s) \<and>
    (\<forall>j. pg_address (get_pg s' j) = pg_address (get_pg s j))"
proof -
  let ?s0 = "unlinked i s"
  let ?addr = "pg_address (get_pg s i)"
  have lt: "i < length (cs_pages s)" using t i by (auto simp: page_table_ok_def)
  have len: "length (pg_data (get_pg s i)) = page_capacity (env_page_bits env)"
    using p lt by (simp add: pages_ok_def)
  note t0 = unlinked_table [OF t i]
  have p0: "pages_ok env pgs ?s0"
    using p by (auto simp: pages_ok_def dest: notin_set_remove1)
  have other: "pg_address (get_pg s j) \<noteq> ?addr" if "j \<in> slots - {i}" for j
    using t i that by (auto simp: page_table_ok_def dest: inj_onD)
  have sets: "set (cs_page_map ?s0) = slots - {i}" using t0 by (simp add: page_table_ok_def)
  from maybeWritePage_ok [OF w] len
  consider (wr) "page_written i ?s0 s'" | (cl) "s' = ?s0" "\<not> pg_dirty (get_pg s i)"
    by (auto split: if_splits)
  then have res: "page_table_ok (slots - {i}) s' \<and> pages_ok env pgs s' \<and> same_store ?s0 s' \<and>
      length (cs_pages s') = length (cs_pages s) \<and>
      (\<forall>j. pg_data (get_pg s' j) = pg_data (get_pg s j) \<and> pg_address (get_pg s' j) = pg_address (get_pg s j)) \<and>
      (\<forall>pa. pa \<noteq> ?addr \<longrightarrow> pgs (cs_backend s') pa = pgs (cs_backend s) pa) \<and>
      map (clh_norm (env_zero_weed env)) (backend_data env pgs (cs_backend s') ?addr) =
      map (clh_norm (env_zero_weed env)) (pg_data (get_pg s i))"
  proof cases
    case wr
    have "pages_ok env pgs s'"
      by (rule page_written_pages [OF wr p0]) (use lt other sets in auto)
    with wr page_written_table [OF wr t0] page_written_get_pg [OF wr] show ?thesis
      by (simp add: page_written_def)
  next
    case cl
    moreover have "i \<in> set (cs_page_map s)" using t i by (simp add: page_table_ok_def)
    ultimately show ?thesis using p t0 p0 by (simp add: pages_ok_def same_store_def)
  qed
  have "base_view env pgs s' ca = base_view env pgs s ca" for ca
  proof (cases "pageAddress (env_page_bits env) ca = ?addr")
    case True
    then have "page_map_find ?addr s = Some i" using t i by (simp add: page_map_find_Some)
    moreover have "page_map_find ?addr s' = None"
      using res other by (auto simp: page_map_find_None)
    moreover have "page_offset (env_page_bits env) ca < length (pg_data (get_pg s i))"
      using len page_offset_less by simp
    ultimately show ?thesis
      using res True nth_norm by (metis base_view_def cached_data_def length_map option.simps(4,5))
  next
    case False
    let ?pa = "pageAddress (env_page_bits env) ca"
    have "page_map_find ?pa s' = page_map_find ?pa s"
      by (rule page_map_find_cong [OF t, of "slots - {i}"]) (use res False in auto)
    then show ?thesis
      using res False by (auto simp: base_view_def cached_data_def backend_data_def split: option.splits)
  qed
  with res show ?thesis by (auto simp: same_store_def)
qed

text \<open>What the operations below leave alone.\<close>

definition same_corks :: "'b cmds \<Rightarrow> 'b cmds \<Rightarrow> bool" where
  "same_corks s s' \<longleftrightarrow> cs_corks s' = cs_corks s \<and> cs_cork_uuid s' = cs_cork_uuid s \<and>
     crk (cs_backend s') = crk (cs_backend s)"

lemma same_corks_refl [simp]: "same_corks s s"
  by (simp add: same_corks_def)

lemma same_corks_trans: "same_corks s s1 \<Longrightarrow> same_corks s1 s2 \<Longrightarrow> same_corks s s2"
  by (simp add: same_corks_def)

lemma get_free_page_ok:
  assumes t: "page_table_ok {..< cs_num_pages s} s" and p: "pages_ok env pgs s"
    and g: "get_free_page env s = (Inr i, s')"
  shows "\<exists>slots. page_table_ok slots s' \<and> i \<notin> slots \<and> insert i slots = {..< cs_num_pages s' + 1} \<and>
    slots \<subseteq> {..< cs_num_pages s} \<and>
    i < length (cs_pages s') \<and> pages_ok env pgs s' \<and> base_view env pgs s' = base_view env pgs s \<and>
    same_corks s s' \<and> (\<forall>j. pg_address (get_pg s' j) = pg_address (get_pg s j))"
proof (cases "cs_num_pages s < length (cs_pages s)")
  case True
  with g have "i = cs_num_pages s" "s' = s" by (auto simp: get_free_page_def)
  with True t p show ?thesis
    by (intro exI [of _ "{..< cs_num_pages s}"]) auto
next
  case False
  let ?slots = "{..< cs_num_pages s}"
  from t False have full: "cs_num_pages s = length (cs_pages s)"
    by (auto simp: page_table_ok_def)
  from False g obtain r where i: "cs_page_list s \<noteq> []" "i = hd (cs_page_list s)"
    and w: "maybeWritePage env i False (unlinked i s) = (Inr r, s')"
    by (auto simp: get_free_page_def unlinked_def split: list.splits)
  have mem: "i \<in> ?slots" using t i by (metis hd_in_set page_table_ok_def)
  note e = evict_ok [OF t p mem w]
  have "cs_num_pages s' = cs_num_pages s - 1"
    using e mem by (simp add: page_table_ok_def)
  with e mem full show ?thesis
    by (intro exI [of _ "?slots - {i}"]) (auto simp: same_corks_def)
qed

text \<open>Filling page \<open>i\<close> with the page \<open>pa\<close> of the backend and linking it.\<close>

definition page_loaded :: "nat \<Rightarrow> u64 \<Rightarrow> clh list \<Rightarrow> 'b \<Rightarrow> 'b cmds \<Rightarrow> 'b cmds" where
  "page_loaded i pa d b s =
     s\<lparr>cs_backend := b, cs_pages := (cs_pages s)[i := CachePage_new pa d],
       cs_page_map := i # cs_page_map s, cs_num_pages := cs_num_pages s + 1,
       cs_page_list := cs_page_list s @ [i]\<rparr>"

lemma page_loaded_ok:
  assumes t: "page_table_ok slots s" and p: "pages_ok env pgs s" and i: "i \<notin> slots" "i < length (cs_pages s)"
    and new: "\<forall>j \<in> slots. pg_address (get_pg s j) \<noteq> pa"
    and b: "pgs b = pgs (cs_backend s)" "crk b = crk (cs_backend s)"
    and d: "d = backend_data env pgs (cs_backend s) pa" "length d = page_capacity (env_page_bits env)"
  shows "page_table_ok (insert i slots) (page_loaded i pa d b s) \<and>
    pages_ok env pgs (page_loaded i pa d b s) \<and>
    base_view env pgs (page_loaded i pa d b s) = base_view env pgs s \<and>
    same_corks s (page_loaded i pa d b s) \<and> get_pg (page_loaded i pa d b s) i = CachePage_new pa d"
proof -
  let ?s' = "page_loaded i pa d b s"
  have gp: "get_pg ?s' j = (if j = i then CachePage_new pa d else get_pg s j)" for j
    using i(2) by (simp add: get_pg_def page_loaded_def nth_update_any)
  have sel: "cs_page_map ?s' = i # cs_page_map s" "cs_backend ?s' = b"
    "length (cs_pages ?s') = length (cs_pages s)"
    by (simp_all add: page_loaded_def)
  have fin: "finite slots" using t by (metis page_table_ok_def List.finite_set)
  have t': "page_table_ok (insert i slots) ?s'"
    unfolding page_table_ok_def
  proof (intro conjI)
    show "inj_on (\<lambda>i. pg_address (get_pg ?s' i)) (insert i slots)"
      using t i new by (auto simp: page_table_ok_def gp inj_on_def CachePage_new_def)
  qed (use t i fin in \<open>auto simp: page_table_ok_def page_loaded_def\<close>)
  have p': "pages_ok env pgs ?s'"
    unfolding pages_ok_def
  proof (intro conjI)
    show "\<forall>j \<in> set (cs_page_map ?s'). \<not> pg_dirty (get_pg ?s' j) \<longrightarrow>
      map (clh_norm (env_zero_weed env)) (pg_data (get_pg ?s' j)) =
      map (clh_norm (env_zero_weed env)) (backend_data env pgs (cs_backend ?s') (pg_address (get_pg ?s' j)))"
      using p d b unfolding sel gp by (auto simp: pages_ok_def CachePage_new_def backend_data_def)
    show "\<forall>j < length (cs_pages ?s'). length (pg_data (get_pg ?s' j)) = page_capacity (env_page_bits env)"
      using p d(2) unfolding sel gp by (auto simp: pages_ok_def CachePage_new_def)
  qed (use p in \<open>simp add: pages_ok_def sel\<close>)
  have "cached_data env pgs ?s' x = cached_data env pgs s x" for x
  proof (cases "x = pa")
    case True
    with t' have "page_map_find x ?s' = Some i" by (simp add: page_map_find_Some gp CachePage_new_def)
    moreover have "page_map_find x s = None" using True t new by (simp add: page_map_find_None)
    ultimately show ?thesis
      using True by (simp add: cached_data_def gp CachePage_new_def flip: d(1))
  next
    case False
    have f: "page_map_find x ?s' = page_map_find x s"
      by (rule page_map_find_cong [OF t t']) (use False i in \<open>auto simp: gp CachePage_new_def\<close>)
    show ?thesis
    proof (cases "page_map_find x s")
      case None
      with f show ?thesis by (simp add: cached_data_def backend_data_def sel b)
    next
      case (Some j)
      with t i(1) have "j \<noteq> i" by (auto simp: page_map_find_Some)
      with f Some show ?thesis by (simp add: cached_data_def gp)
    qed
  qed
  then have "base_view env pgs ?s' = base_view env pgs s" by (simp add: base_view_def fun_eq_iff)
  with t' p' gp b show ?thesis by (simp add: same_corks_def page_loaded_def)
qed

lemma load_steps:
  assumes "i < length (cs_pages s)"
  shows "(let s1 = upd_pg i (\<lambda>p. CachePage_new pa (pg_data p)) s;
             s2 = upd_pg i (\<lambda>p. p\<lparr>pg_data := d\<rparr>) (s1\<lparr>cs_backend := b\<rparr>)
         in s2\<lparr>cs_page_map := i # cs_page_map s2, cs_num_pages := cs_num_pages s2 + 1,
               cs_page_list := cs_page_list s2 @ [i]\<rparr>) = page_loaded i pa d b s"
  using assms by (simp add: upd_pg_def page_loaded_def CachePage_new_def Let_def)

lemma get_cache_page_miss:
  assumes "page_map_find (pageAddress (env_page_bits env) ca) s = None"
    and "get_cache_page env ca s = (Inr (i, hit), s')"
  shows "\<exists>s2 r b. get_free_page env (s\<lparr>cs_cache_misses := cs_cache_misses s + 1\<rparr>) = (Inr i, s2) \<and>
    mdb_getPage (env_backend env) (pageAddress (env_page_bits env) ca) (cs_backend s2) = (Inr r, b) \<and>
    (i < length (cs_pages s2) \<longrightarrow>
      s' = page_loaded i (pageAddress (env_page_bits env) ca)
        (case r of Some d \<Rightarrow> d | None \<Rightarrow> page_zero (env_page_bits env)) b s2) \<and> \<not> hit"
proof -
  let ?pa = "pageAddress (env_page_bits env) ca"
  from assms obtain s2 r b where
      f: "get_free_page env (s\<lparr>cs_cache_misses := cs_cache_misses s + 1\<rparr>) = (Inr i, s2)"
    and g: "mdb_getPage (env_backend env) ?pa (cs_backend (upd_pg i (\<lambda>p. CachePage_new ?pa (pg_data p)) s2)) = (Inr r, b)"
    and s': "s' = (let s1 = upd_pg i (\<lambda>p. CachePage_new ?pa (pg_data p)) s2;
             s3 = upd_pg i (\<lambda>p. p\<lparr>pg_data := (case r of Some d \<Rightarrow> d | None \<Rightarrow> page_zero (env_page_bits env))\<rparr>)
               (s1\<lparr>cs_backend := b\<rparr>)
         in s3\<lparr>cs_page_map := i # cs_page_map s3, cs_num_pages := cs_num_pages s3 + 1,
               cs_page_list := cs_page_list s3 @ [i]\<rparr>)"
    and "\<not> hit"
    by (auto simp: get_cache_page_def on_backend_def Let_def)
  moreover have "cs_backend (upd_pg i (\<lambda>p. CachePage_new ?pa (pg_data p)) s2) = cs_backend s2"
    by (simp add: upd_pg_def)
  ultimately show ?thesis using load_steps [of i s2] by metis
qed

lemma get_cache_page_ok:
  assumes inv: "cmds_inv env pgs s" and g: "get_cache_page env ca s = (Inr (i, hit), s')"
  shows "cmds_inv env pgs s' \<and> base_view env pgs s' = base_view env pgs s \<and> same_corks s s' \<and>
    i < cs_num_pages s' \<and> pg_address (get_pg s' i) = pageAddress (env_page_bits env) ca"
proof -
  let ?pa = "pageAddress (env_page_bits env) ca"
  have t: "page_table_ok {..< cs_num_pages s} s" and p: "pages_ok env pgs s"
    using inv by (simp_all add: cmds_inv_def)
  show ?thesis
  proof (cases "page_map_find ?pa s")
    case (Some j)
    with g have i: "i = j" and s': "s' = s\<lparr>cs_cache_hits := cs_cache_hits s + 1,
        cs_page_list := remove1 i (cs_page_list s) @ [i]\<rparr>"
      by (auto simp: get_cache_page_def Let_def)
    from Some i t have mem: "i < cs_num_pages s" "pg_address (get_pg s i) = ?pa"
      by (auto simp: page_map_find_Some)
    have gp: "get_pg s' = get_pg s" by (simp add: fun_eq_iff get_pg_def s')
    have "page_table_ok {..< cs_num_pages s'} s'"
      using t mem unfolding page_table_ok_def gp by (auto simp: s')
    moreover have "base_view env pgs s' = base_view env pgs s"
      by (rule base_view_cong [OF gp]) (simp_all add: s')
    moreover have "pages_ok env pgs s'" using p unfolding pages_ok_def gp by (simp add: s')
    ultimately show ?thesis using inv mem gp by (simp add: cmds_inv_def same_corks_def s')
  next
    case None
    let ?s1 = "s\<lparr>cs_cache_misses := cs_cache_misses s + 1\<rparr>"
    from get_cache_page_miss [OF None g] obtain s2 r b where
        f: "get_free_page env ?s1 = (Inr i, s2)"
      and b: "mdb_getPage (env_backend env) ?pa (cs_backend s2) = (Inr r, b)"
      and s': "i < length (cs_pages s2) \<longrightarrow> s' = page_loaded i ?pa
        (case r of Some d \<Rightarrow> d | None \<Rightarrow> page_zero (env_page_bits env)) b s2"
      by blast
    have gp: "get_pg ?s1 = get_pg s" by (simp add: fun_eq_iff get_pg_def)
    have t1: "page_table_ok {..< cs_num_pages ?s1} ?s1" using t unfolding page_table_ok_def gp by simp
    have p1: "pages_ok env pgs ?s1" using p unfolding pages_ok_def gp by simp
    have v1: "base_view env pgs ?s1 = base_view env pgs s"
      by (rule base_view_cong [OF gp]) simp_all
    from get_free_page_ok [OF t1 p1 f] obtain slots where
        sl: "page_table_ok slots s2" "i \<notin> slots" "insert i slots = {..< cs_num_pages s2 + 1}"
            "slots \<subseteq> {..< cs_num_pages s}" "i < length (cs_pages s2)" "pages_ok env pgs s2"
      and v2: "base_view env pgs s2 = base_view env pgs s" "same_corks ?s1 s2"
      and ad: "\<forall>j. pg_address (get_pg s2 j) = pg_address (get_pg s j)"
      using v1 gp by auto
    have new: "\<forall>j \<in> slots. pg_address (get_pg s2 j) \<noteq> ?pa"
      using None t sl(4) ad by (auto simp: page_map_find_None)
    let ?d = "case r of Some d \<Rightarrow> d | None \<Rightarrow> page_zero (env_page_bits env)"
    have d: "?d = backend_data env pgs (cs_backend s2) ?pa" "length ?d = page_capacity (env_page_bits env)"
      using getPage [OF b] by (auto simp: backend_data_def page_zero_def split: option.splits)
    have L: "page_table_ok (insert i slots) s' \<and> pages_ok env pgs s' \<and>
        base_view env pgs s' = base_view env pgs s2 \<and> same_corks s2 s' \<and> get_pg s' i = CachePage_new ?pa ?d"
      using page_loaded_ok [OF sl(1,6,2,5) new _ _ d] getPage [OF b] s' sl(5) by simp
    have n: "cs_num_pages s' = cs_num_pages s2 + 1" using s' sl(5) by (simp add: page_loaded_def)
    have "same_corks s s'" using L v2(2) by (auto simp: same_corks_def)
    with L v2(1) n sl(3) inv show ?thesis
      by (auto simp: cmds_inv_def same_corks_def CachePage_new_def)
  qed
qed

lemma get_cluster_location_read:
  assumes "cmds_inv env pgs s" and "get_cluster_location env ca loc False s = (Inr (hit, l), s')"
  shows "cmds_inv env pgs s' \<and> base_view env pgs s' = base_view env pgs s \<and> same_corks s s' \<and>
    clh_norm (env_zero_weed env) l = base_view env pgs s ca"
proof -
  let ?pa = "pageAddress (env_page_bits env) ca"
  from assms(2) obtain i where g: "get_cache_page env ca s = (Inr (i, hit), s')"
    and l: "l = pg_data (get_pg s' i) ! page_offset (env_page_bits env) ca"
    by (auto simp: get_cluster_location_def)
  note ok = get_cache_page_ok [OF assms(1) g]
  then have "page_map_find ?pa s' = Some i"
    using page_map_find_Some [of "{..< cs_num_pages s'}" s' ?pa i] by (simp add: cmds_inv_def)
  then have "base_view env pgs s' ca = clh_norm (env_zero_weed env) l"
    by (simp add: base_view_def cached_data_def l)
  with ok show ?thesis by simp
qed

text \<open>Storing a location in page \<open>i\<close>.\<close>

lemma page_modified:
  assumes inv: "cmds_inv env pgs s" and i: "i < cs_num_pages s"
    and ad: "pg_address (get_pg s i) = pageAddress (env_page_bits env) ca"
    and gp: "\<And>j. get_pg s' j = (if j = i then p' else get_pg s j)"
    and p': "pg_address p' = pg_address (get_pg s i)" "pg_dirty p'"
      "pg_data p' = (pg_data (get_pg s i))[page_offset (env_page_bits env) ca := loc]"
    and sel: "cs_page_map s' = cs_page_map s" "cs_page_list s' = cs_page_list s"
      "cs_num_pages s' = cs_num_pages s" "cs_backend s' = cs_backend s" "cs_corks s' = cs_corks s"
      "length (cs_pages s') = length (cs_pages s)"
  shows "cmds_inv env pgs s' \<and>
    base_view env pgs s' = (base_view env pgs s)(ca := clh_norm (env_zero_weed env) loc)"
proof -
  let ?pb = "env_page_bits env"
  have t: "page_table_ok {..< cs_num_pages s} s" and p: "pages_ok env pgs s"
    using inv by (simp_all add: cmds_inv_def)
  have adr: "pg_address (get_pg s' j) = pg_address (get_pg s j)" for j by (simp add: gp p')
  have t': "page_table_ok {..< cs_num_pages s'} s'"
    using t unfolding page_table_ok_def adr sel by simp
  have "pages_ok env pgs s'"
    using p unfolding pages_ok_def adr sel gp by (auto simp: p')
  with t' inv have inv': "cmds_inv env pgs s'" by (simp add: cmds_inv_def sel)
  have fnd: "page_map_find x s' = page_map_find x s" for x
    unfolding page_map_find_def adr sel ..
  have len: "page_offset ?pb ca < length (pg_data (get_pg s i))"
    using p t i page_offset_less [of ?pb ca] by (auto simp: pages_ok_def page_table_ok_def)
  have "base_view env pgs s' x = ((base_view env pgs s)(ca := clh_norm (env_zero_weed env) loc)) x" for x
  proof (cases "pageAddress ?pb x = pageAddress ?pb ca")
    case True
    then have f: "page_map_find (pageAddress ?pb x) s = Some i"
      using t i ad by (simp add: page_map_find_Some)
    show ?thesis
    proof (cases "x = ca")
      case True
      with f len show ?thesis by (simp add: base_view_def cached_data_def fnd gp p')
    next
      case False
      with True have "page_offset ?pb x \<noteq> page_offset ?pb ca" by (metis address_eqI)
      with f False show ?thesis by (simp add: base_view_def cached_data_def fnd gp p')
    qed
  next
    case False
    then have "page_map_find (pageAddress ?pb x) s \<noteq> Some i"
      using t i ad by (simp add: page_map_find_Some)
    with False show ?thesis
      by (auto simp: base_view_def cached_data_def fnd gp sel split: option.splits)
  qed
  then have "base_view env pgs s' = (base_view env pgs s)(ca := clh_norm (env_zero_weed env) loc)"
    by (rule ext)
  with inv' show ?thesis ..
qed

lemma get_cluster_location_write:
  assumes inv: "cmds_inv env pgs s" and w: "get_cluster_location env ca loc True s = (Inr r, s')"
  shows "cmds_inv env pgs s' \<and>
    base_view env pgs s' = (base_view env pgs s)(ca := clh_norm (env_zero_weed env) loc) \<and> same_corks s s'"
proof -
  let ?off = "page_offset (env_page_bits env) ca"
  let ?upd = "\<lambda>s2 i. upd_pg i (\<lambda>p. p\<lparr>pg_data := (pg_data p)[?off := loc], pg_dirty := True\<rparr>) s2"
  from w obtain i hit s1 s2 where g: "get_cache_page env ca s = (Inr (i, hit), s1)"
    and s2: "s2 = s1 \<or>
        s2 = upd_pg i (\<lambda>p. p\<lparr>pg_written := pg_written p + 1\<rparr>)
               (s1\<lparr>cs_written_clusters := cs_written_clusters s1 + 1\<rparr>) \<or>
        s2 = upd_pg i (\<lambda>p. p\<lparr>pg_discarded := pg_discarded p + 1\<rparr>)
               (s1\<lparr>cs_discarded_clusters := cs_discarded_clusters s1 + 1\<rparr>)"
    and s': "s' = ?upd s2 i"
    by (auto simp: get_cluster_location_def split: if_splits)
  note ok = get_cache_page_ok [OF inv g]
  from ok have lt: "i < length (cs_pages s1)" by (auto simp: cmds_inv_def page_table_ok_def)
  have "cmds_inv env pgs s' \<and>
      base_view env pgs s' = (base_view env pgs s1)(ca := clh_norm (env_zero_weed env) loc)"
  proof (rule page_modified [where p' = "get_pg s' i"])
    show "\<And>j. get_pg s' j = (if j = i then get_pg s' i else get_pg s1 j)"
      using s2 by (auto simp: s' get_pg_def upd_pg_def nth_update_any)
  qed (use ok s2 lt in \<open>auto simp: s' get_pg_def upd_pg_def nth_update_any\<close>)
  moreover have "same_corks s1 s'" using s2 by (auto simp: s' same_corks_def upd_pg_def)
  ultimately show ?thesis using ok by (auto intro: same_corks_trans)
qed

lemma write_loop:
  assumes "cmds_inv env pgs s"
    and "sfor es (\<lambda>(ca, loc). sbind (get_cluster_location env ca loc True) (\<lambda>_. sret ())) s = (Inr (), s')"
  shows "cmds_inv env pgs s' \<and> same_corks s s' \<and>
    base_view env pgs s' = override (env_zero_weed env) es (base_view env pgs s)"
  using assms
proof (induction es arbitrary: s)
  case (Cons e es)
  obtain ca loc where e: "e = (ca, loc)" by fastforce
  from Cons.prems(2) e obtain r s1 where w: "get_cluster_location env ca loc True s = (Inr r, s1)"
    and rest: "sfor es (\<lambda>(ca, loc). sbind (get_cluster_location env ca loc True) (\<lambda>_. sret ())) s1 = (Inr (), s')"
    by auto
  note ok = get_cluster_location_write [OF Cons.prems(1) w]
  have ih: "cmds_inv env pgs s'" "same_corks s1 s'"
      "base_view env pgs s' = override (env_zero_weed env) es (base_view env pgs s1)"
    using Cons.IH [OF conjunct1 [OF ok] rest] by blast+
  have "base_view env pgs s1 = (base_view env pgs s)(ca := clh_norm (env_zero_weed env) loc)"
    using ok by simp
  with ih(3) have "base_view env pgs s' = override (env_zero_weed env) (e # es) (base_view env pgs s)"
    unfolding e override_Cons by metis
  with ih(1,2) ok show ?case by (blast intro: same_corks_trans)
qed (simp add: override_def)

definition all_clean :: "'b cmds \<Rightarrow> bool" where
  "all_clean s \<longleftrightarrow> (\<forall>i < cs_num_pages s. \<not> pg_dirty (get_pg s i))"

lemma clean_disk_view:
  assumes inv: "cmds_inv env pgs s" and "all_clean s"
  shows "disk_view env pgs (cs_backend s) = base_view env pgs s"
proof
  fix ca
  let ?pa = "pageAddress (env_page_bits env) ca"
  have t: "page_table_ok {..< cs_num_pages s} s" and p: "pages_ok env pgs s"
    using inv by (simp_all add: cmds_inv_def)
  show "disk_view env pgs (cs_backend s) ca = base_view env pgs s ca"
  proof (cases "page_map_find ?pa s")
    case None
    then show ?thesis by (simp add: disk_view_def base_view_def cached_data_def)
  next
    case (Some i)
    with page_map_find_Some [OF t] have ia: "i < cs_num_pages s" "pg_address (get_pg s i) = ?pa"
      by auto
    from t ia(1) have ib: "i < length (cs_pages s)" "i \<in> set (cs_page_map s)"
      by (auto simp: page_table_ok_def)
    from ia ib(2) assms(2) p have eq: "map (clh_norm (env_zero_weed env)) (pg_data (get_pg s i)) =
        map (clh_norm (env_zero_weed env)) (backend_data env pgs (cs_backend s) ?pa)"
      by (auto simp: pages_ok_def all_clean_def)
    have "page_offset (env_page_bits env) ca < length (pg_data (get_pg s i))"
      using p ib(1) page_offset_less by (simp add: pages_ok_def)
    from nth_norm [OF eq this] Some show ?thesis
      by (simp add: disk_view_def base_view_def cached_data_def)
  qed
qed

lemma page_written_store:
  assumes inv: "cmds_inv env pgs s" and i: "i < cs_num_pages s" and pw: "page_written i s s'"
  shows "cmds_inv env pgs s' \<and> same_corks s s' \<and> base_view env pgs s' = base_view env pgs s \<and>
    cs_num_pages s' = cs_num_pages s \<and> \<not> pg_dirty (get_pg s' i) \<and>
    (\<forall>j. \<not> pg_dirty (get_pg s j) \<longrightarrow> \<not> pg_dirty (get_pg s' j))"
proof -
  have t: "page_table_ok {..< cs_num_pages s} s" and p: "pages_ok env pgs s"
    using inv by (simp_all add: cmds_inv_def)
  have lt: "i < length (cs_pages s)" using t i by (auto simp: page_table_ok_def)
  have "pages_ok env pgs s'"
  proof (rule page_written_pages [OF pw p lt])
    show "\<forall>j \<in> set (cs_page_map s). j \<noteq> i \<longrightarrow> pg_address (get_pg s j) \<noteq> pg_address (get_pg s i)"
      using t i by (auto simp: page_table_ok_def dest: inj_onD)
  qed
  moreover have "same_store s s'" using pw by (simp add: page_written_def)
  moreover have "\<not> pg_dirty (get_pg s j) \<Longrightarrow> \<not> pg_dirty (get_pg s' j)" for j
    using page_written_get_pg(3) [OF pw, of j] page_written_get_pg(4) [OF pw] lt by (cases "j = i") auto
  ultimately show ?thesis
    using page_written_table [OF pw t] page_written_view [OF pw t] page_written_get_pg(4) [OF pw lt] inv i
    by (simp add: cmds_inv_def same_store_def same_corks_def)
qed

lemma write_one:
  assumes inv: "cmds_inv env pgs s" and i: "i < cs_num_pages s"
    and w: "maybeWritePage env i False s = (Inr r, s')"
  shows "cmds_inv env pgs s' \<and> same_corks s s' \<and> base_view env pgs s' = base_view env pgs s \<and>
    cs_num_pages s' = cs_num_pages s \<and> \<not> pg_dirty (get_pg s' i) \<and>
    (\<forall>j. \<not> pg_dirty (get_pg s j) \<longrightarrow> \<not> pg_dirty (get_pg s' j))"
proof -
  have "length (pg_data (get_pg s i)) = page_capacity (env_page_bits env)"
    using inv i by (auto simp: cmds_inv_def pages_ok_def page_table_ok_def)
  note mw = maybeWritePage_ok [OF w this]
  show ?thesis
  proof (cases "pg_dirty (get_pg s i)")
    case False
    with mw inv show ?thesis by simp
  next
    case True
    with mw have "page_written i s s'" by simp
    from page_written_store [OF inv i this] show ?thesis .
  qed
qed

lemma flush_loop:
  assumes "cmds_inv env pgs s" and "set pl \<subseteq> {..< cs_num_pages s}"
    and "sfor pl (\<lambda>i. sbind (maybeWritePage env i False) (\<lambda>_. sret ())) s = (Inr (), s')"
  shows "cmds_inv env pgs s' \<and> same_corks s s' \<and> base_view env pgs s' = base_view env pgs s \<and>
    cs_num_pages s' = cs_num_pages s \<and> (\<forall>i \<in> set pl. \<not> pg_dirty (get_pg s' i)) \<and>
    (\<forall>j. \<not> pg_dirty (get_pg s j) \<longrightarrow> \<not> pg_dirty (get_pg s' j))"
  using assms
proof (induction pl arbitrary: s)
  case (Cons i pl)
  from Cons.prems(3) obtain r s1 where w: "maybeWritePage env i False s = (Inr r, s1)"
    and rest: "sfor pl (\<lambda>i. sbind (maybeWritePage env i False) (\<lambda>_. sret ())) s1 = (Inr (), s')"
    by auto
  have "i < cs_num_pages s" using Cons.prems(2) by simp
  note ok = write_one [OF Cons.prems(1) this w]
  have "set pl \<subseteq> {..< cs_num_pages s1}" using Cons.prems(2) ok by simp
  from Cons.IH [OF _ this rest] ok show ?case by (auto intro: same_corks_trans)
qed simp

lemma readCluster_ok:
  assumes inv: "cmds_inv env pgs s" and r: "readCluster env ca s = (Inr l, s')"
  shows "clh_norm (env_zero_weed env) l = cmds_view env pgs s ca \<and> cmds_inv env pgs s' \<and>
    cmds_view env pgs s' = cmds_view env pgs s \<and> same_corks s s'"
proof (cases "corks_lookup (rev (cs_corks s)) ca")
  case (Some x)
  with r have l: "l = x" and s': "s' = s\<lparr>cs_cache_hits := cs_cache_hits s + 1\<rparr>"
    by (auto simp: readCluster_def)
  have gp: "get_pg s' = get_pg s" by (simp add: fun_eq_iff get_pg_def s')
  have "base_view env pgs s' = base_view env pgs s"
    by (rule base_view_cong [OF gp]) (simp_all add: s')
  moreover have "cmds_inv env pgs s'"
    using inv unfolding cmds_inv_def page_table_ok_def pages_ok_def gp by (simp add: s')
  ultimately show ?thesis
    using Some l cmds_view_cong [of env pgs s' s] by (simp add: same_corks_def s') (simp add: cmds_view_def)
next
  case None
  with r obtain hit l' s1 where "get_cluster_location env ca clh_zero False s = (Inr (hit, l'), s1)"
    and "(if env_use_hash env \<and> isNull (clusterLocation l')
      then sret (discarded_location_and_hash (env_zero_weed env)) else sret l') s1 = (Inr l, s')"
    by (auto simp: readCluster_def)
  then have g: "get_cluster_location env ca clh_zero False s = (Inr (hit, l'), s')"
    and l: "l = (if env_use_hash env \<and> isNull (clusterLocation l')
      then discarded_location_and_hash (env_zero_weed env) else l')"
    by (auto split: if_splits)
  have "clh_norm (env_zero_weed env) l = clh_norm (env_zero_weed env) l'"
    using l by (auto simp: clh_norm_def discarded_location_and_hash_def null_location_def isNull_def
        ClusterLocation_new_def SCO_new_def)
  moreover have "cmds_view env pgs s ca = base_view env pgs s ca" using None by (simp add: cmds_view_def)
  ultimately show ?thesis
    using get_cluster_location_read [OF inv g] cmds_view_cong [of env pgs s' s]
    by (simp add: same_corks_def)
qed

lemma writeCluster_ok:
  assumes inv: "cmds_inv env pgs s" and w: "writeCluster ca loc s = (Inr u, s')"
  shows "cmds_inv env pgs s' \<and>
    cmds_view env pgs s' = (cmds_view env pgs s)(ca := clh_norm (env_zero_weed env) loc) \<and>
    cs_backend s' = cs_backend s"
proof -
  from w obtain cs c m where cs: "cs_corks s = cs @ [(c, m)]"
    and s': "s' = s\<lparr>cs_corks := cs @ [(c, std_map_insert ca loc m)]\<rparr>"
    by (cases "cs_corks s" rule: rev_cases) (auto simp: writeCluster_def)
  have gp: "get_pg s' = get_pg s" by (simp add: fun_eq_iff get_pg_def s')
  have bv: "base_view env pgs s' = base_view env pgs s"
    by (rule base_view_cong [OF gp]) (simp_all add: s')
  have m: "std_map_inv m" using inv cs by (simp add: cmds_inv_def)
  have "cmds_inv env pgs s'"
    using inv cs m unfolding cmds_inv_def page_table_ok_def pages_ok_def gp
    by (auto simp: s' std_map_insert_inv)
  moreover have "cmds_view env pgs s' x =
      ((cmds_view env pgs s)(ca := clh_norm (env_zero_weed env) loc)) x" for x
    unfolding cmds_view_def bv by (simp add: cs s' std_map_lookup_insert [OF m])
  ultimately show ?thesis by (auto simp: fun_eq_iff s')
qed

lemma cork_ok:
  assumes inv: "cmds_inv env pgs s" and w: "cork c s = (Inr u, s')"
  shows "cmds_inv env pgs s' \<and> cmds_view env pgs s' = cmds_view env pgs s"
proof -
  from w have s': "s' = s \<or> s' = s\<lparr>cs_corks := cs_corks s @ [(c, [])]\<rparr>"
    by (auto simp: cork_def split: if_splits)
  have gp: "get_pg s' = get_pg s" using s' by (auto simp: fun_eq_iff get_pg_def)
  have bv: "base_view env pgs s' = base_view env pgs s"
    by (rule base_view_cong [OF gp]) (use s' in auto)
  have "cmds_inv env pgs s'"
    using inv s' unfolding cmds_inv_def page_table_ok_def pages_ok_def gp
    by (auto simp: std_map_inv_def)
  moreover have "corks_lookup (rev (cs_corks s')) = corks_lookup (rev (cs_corks s))"
    using s' by (auto simp: fun_eq_iff)
  ultimately show ?thesis unfolding cmds_view_def bv by simp
qed

lemma unCork_ok:
  assumes inv: "cmds_inv env pgs s" and w: "unCork env c s = (Inr u, s')"
  shows "cmds_inv env pgs s' \<and> cmds_view env pgs s' = cmds_view env pgs s \<and>
    disk_view env pgs (cs_backend s') = base_view env pgs s' \<and>
    base_view env pgs s' = override (env_zero_weed env) (snd (hd (cs_corks s))) (base_view env pgs s) \<and>
    crk (cs_backend s') = Some (fst (hd (cs_corks s))) \<and>
    cs_cork_uuid s' = Some (fst (hd (cs_corks s))) \<and> cs_corks s' = tl (cs_corks s)"
proof -
  from w obtain c0 m cs s1 s2 b v where cs: "cs_corks s = (c0, m) # cs"
    and l1: "sfor m (\<lambda>(ca, loc). sbind (get_cluster_location env ca loc True) (\<lambda>_. sret ())) s = (Inr (), s1)"
    and l2: "sfor (cs_page_list s1) (\<lambda>i. sbind (maybeWritePage env i False) (\<lambda>_. sret ())) s1 = (Inr (), s2)"
    and b: "mdb_setCork (env_backend env) c0 (cs_backend s2) = (Inr v, b)"
    and s': "s' = s2\<lparr>cs_backend := b, cs_cork_uuid := Some c0, cs_corks := tl (cs_corks s2)\<rparr>"
    by (cases "cs_corks s") (auto simp: unCork_def on_backend_def split: option.splits)
  note o1 = write_loop [OF inv l1]
  have "set (cs_page_list s1) \<subseteq> {..< cs_num_pages s1}"
    using o1 by (auto simp: cmds_inv_def page_table_ok_def)
  note o2 = flush_loop [OF conjunct1 [OF o1] this l2]
  have "set (cs_page_list s1) = {..< cs_num_pages s1}"
    using o1 by (auto simp: cmds_inv_def page_table_ok_def)
  with o2 have cl: "all_clean s2" by (auto simp: all_clean_def)
  note law = setCork [OF b]
  have gp: "get_pg s' = get_pg s2" by (simp add: fun_eq_iff get_pg_def s')
  have bv: "base_view env pgs s' = base_view env pgs s2"
    by (rule base_view_cong [OF gp]) (simp_all add: s' law)
  have co: "cs_corks s2 = (c0, m) # cs" using o1 o2 cs by (simp add: same_corks_def)
  have inv': "cmds_inv env pgs s'"
    using conjunct1 [OF o2] co unfolding cmds_inv_def page_table_ok_def pages_ok_def backend_data_def gp
    by (simp add: s' law)
  have "disk_view env pgs (cs_backend s') = disk_view env pgs (cs_backend s2)"
    by (simp add: fun_eq_iff disk_view_def backend_data_def s' law)
  with clean_disk_view [OF conjunct1 [OF o2] cl] bv
  have dv: "disk_view env pgs (cs_backend s') = base_view env pgs s'" by simp
  have bv': "base_view env pgs s' = override (env_zero_weed env) m (base_view env pgs s)"
    using bv o1 o2 by simp
  have "distinct (map fst m)" using inv cs by (auto simp: cmds_inv_def intro: std_map_distinct)
  then have "cmds_view env pgs s' x = cmds_view env pgs s x" for x
    unfolding cmds_view_def bv' using co
    by (simp add: cs s' corks_lookup_append override_map_of split: option.split)
  with inv' dv bv' law co cs show ?thesis by (auto simp: s' fun_eq_iff)
qed

end

end
