(* ===== verification/Metadata_Store_Properties.thy ===== *)
theory Metadata_Store_Properties
  imports Metadata_Store_Refinement
begin

text \<open>
  What the metadata store promises to the volume, for every backend that keeps its interface:
  a sequence of client operations behaves like the same sequence on a plain map, what was
  uncorked survives a restart, replaying TLogs and applying the relocations of a scrub have the
  effect of their entries. The properties are then stated for the store over the RocksDB backend.
\<close>

subsection \<open>Client operations against a map\<close>

datatype store_op = Read u64 | Write u64 clh | Discard u64 | Cork uuid | UnCork "uuid option"

fun run_op :: "'b cmds_env \<Rightarrow> store_op \<Rightarrow> ('b cmds, clh option) sm" where
  "run_op env (Read ca) = sbind (readCluster env ca) (\<lambda>l. sret (Some l))"
| "run_op env (Write ca loc) = sbind (writeCluster ca loc) (\<lambda>_. sret None)"
| "run_op env (Discard ca) = sbind (discardCluster env ca) (\<lambda>_. sret None)"
| "run_op env (Cork c) = sbind (cork c) (\<lambda>_. sret None)"
| "run_op env (UnCork c) = sbind (unCork env c) (\<lambda>_. sret None)"

fun run_ops :: "'b cmds_env \<Rightarrow> store_op list \<Rightarrow> ('b cmds, clh option list) sm" where
  "run_ops env [] = sret []"
| "run_ops env (op # ops) =
     sbind (run_op env op) (\<lambda>r. sbind (run_ops env ops) (\<lambda>rs. sret (r # rs)))"

text \<open>The specification: a map from addresses to locations.\<close>

fun spec_op :: "128 word \<Rightarrow> store_op \<Rightarrow> (u64 \<Rightarrow> clh) \<Rightarrow> clh option \<times> (u64 \<Rightarrow> clh)" where
  "spec_op zw (Read ca) v = (Some (v ca), v)"
| "spec_op zw (Write ca loc) v = (None, v(ca := clh_norm zw loc))"
| "spec_op zw (Discard ca) v = (None, v(ca := discarded_location_and_hash zw))"
| "spec_op zw (Cork c) v = (None, v)"
| "spec_op zw (UnCork c) v = (None, v)"

fun spec_ops :: "128 word \<Rightarrow> store_op list \<Rightarrow> (u64 \<Rightarrow> clh) \<Rightarrow> clh option list \<times> (u64 \<Rightarrow> clh)" where
  "spec_ops zw [] v = ([], v)"
| "spec_ops zw (op # ops) v =
     (case spec_op zw op v of (r, v') \<Rightarrow>
      case spec_ops zw ops v' of (rs, v'') \<Rightarrow> (r # rs, v''))"

lemma norm_discarded [simp]: "clh_norm zw (discarded_location_and_hash zw) = discarded_location_and_hash zw"
  by (simp add: clh_norm_def)

lemma norm_idem [simp]: "clh_norm zw (clh_norm zw l) = clh_norm zw l"
  by (simp add: clh_norm_def)

subsection \<open>Replay and relocations on a map\<close>

text \<open>The effect of an entry of a TLog on the map.\<close>

definition entry_update :: "u8 \<Rightarrow> entry \<Rightarrow> u64 \<times> clh" where
  "entry_update cloneid e = (e_clusteraddress e, clh_cloneID cloneid (e_loc e))"

text \<open>The entries of the TLogs of the clones, in the order they are replayed.\<close>

definition replay_updates :: "(u8 \<times> entry list list) list \<Rightarrow> (u64 \<times> clh) list" where
  "replay_updates ctl = concat (map (\<lambda>(cid, pages). map (entry_update cid) (concat pages)) ctl)"

lemma override_append: "override zw (xs @ ys) v = override zw ys (override zw xs v)"
  by (simp add: override_def)

text \<open>
  The effect of a relocation: an address that still has the old location gets the new one. An
  address that was written since is left alone.
\<close>

fun reloc_spec :: "128 word \<Rightarrow> u8 \<Rightarrow> entry list \<Rightarrow> (u64 \<Rightarrow> clh) \<Rightarrow> u64 \<Rightarrow> clh" where
  "reloc_spec zw scid (e_old # e_new # es) v =
     reloc_spec zw scid es
       (if clusterLocation (v (e_clusteraddress e_old)) =
           ClusterLocation_cloneID scid (clusterLocation (e_loc e_old))
        then v(e_clusteraddress e_old := clh_norm zw (clh_cloneID scid (e_loc e_new)))
        else v)"
| "reloc_spec zw scid es v = v"

lemma Entry_clusterAddress_InrD: "Entry_clusterAddress e = Inr a \<Longrightarrow> a = e_clusteraddress e"
  by (auto simp: Entry_clusterAddress_def split: if_splits)

lemma clh_norm_location:
  assumes "\<not> isNull x"
  shows "clusterLocation (clh_norm zw l) = x \<longleftrightarrow> clusterLocation l = x"
  using assms
  by (auto simp: clh_norm_def discarded_location_and_hash_def isNull_def null_location_def
      ClusterLocation_new_def SCO_new_def split: if_splits)

subsection \<open>The operations of the store\<close>

context cached_store
begin

lemma run_op_refines:
  assumes "cmds_inv env pgs s" and "run_op env op s = (Inr r, s')"
  shows "cmds_inv env pgs s' \<and>
    spec_op (env_zero_weed env) op (cmds_view env pgs s) =
      (map_option (clh_norm (env_zero_weed env)) r, cmds_view env pgs s')"
proof (cases op)
  case (Read ca)
  with assms(2) obtain l where "readCluster env ca s = (Inr l, s')" "r = Some l" by auto
  with readCluster_ok [OF assms(1)] Read show ?thesis by simp
next
  case (Write ca loc)
  with assms(2) obtain u where "writeCluster ca loc s = (Inr u, s')" "r = None" by auto
  with writeCluster_ok [OF assms(1)] Write show ?thesis by simp
next
  case (Discard ca)
  with assms(2) obtain u where
    "writeCluster ca (discarded_location_and_hash (env_zero_weed env)) s = (Inr u, s')" "r = None"
    by (auto simp: discardCluster_def)
  with writeCluster_ok [OF assms(1)] Discard show ?thesis by simp
next
  case (Cork c)
  with assms(2) obtain u where "cork c s = (Inr u, s')" "r = None" by auto
  with cork_ok [OF assms(1)] Cork show ?thesis by simp
next
  case (UnCork c)
  with assms(2) obtain u where "unCork env c s = (Inr u, s')" "r = None" by auto
  with unCork_ok [OF assms(1)] UnCork show ?thesis by simp
qed

lemma run_ops_refines:
  assumes "cmds_inv env pgs s" and "run_ops env ops s = (Inr rs, s')"
  shows "cmds_inv env pgs s' \<and>
    spec_ops (env_zero_weed env) ops (cmds_view env pgs s) =
      (map (map_option (clh_norm (env_zero_weed env))) rs, cmds_view env pgs s')"
  using assms
proof (induction ops arbitrary: s rs)
  case (Cons op ops)
  from Cons.prems(2) obtain r rs' s1 where 1: "run_op env op s = (Inr r, s1)"
    and 2: "run_ops env ops s1 = (Inr rs', s')" and rs: "rs = r # rs'" by auto
  from run_op_refines [OF Cons.prems(1) 1] Cons.IH [OF _ 2] rs show ?case by simp
qed simp

text \<open>A new store over a backend shows what the backend has.\<close>

lemma new_store_ok:
  assumes "CMDS_new env b capacity = (Inr s, b')"
  shows "cmds_inv env pgs s \<and> cs_backend s = b' \<and> cs_corks s = [] \<and> cs_cork_uuid s = crk b"
    and "cmds_view env pgs s = disk_view env pgs b"
proof -
  from assms obtain c b1 sid where c: "mdb_lastCorkUUID (env_backend env) b = (Inr c, b1)"
    and sc: "mdb_scrub_id (env_backend env) b1 = (Inr sid, b')" and cap: "capacity \<noteq> 0"
    and s: "s = \<lparr>cs_backend = b', cs_pages = init_pages (env_page_bits env) capacity,
          cs_page_map = [], cs_page_list = [], cs_num_pages = 0, cs_cache_hits = 0,
          cs_cache_misses = 0, cs_written_clusters = 0, cs_discarded_clusters = 0,
          cs_cork_uuid = c, cs_scrub_id = sid, cs_corks = []\<rparr>"
    by (auto simp: CMDS_new_def split: if_splits prod.splits sum.splits)
  have "page_table_ok {..< cs_num_pages s} s" by (simp add: page_table_ok_def s)
  moreover have "pages_ok env pgs s"
    using cap by (auto simp: pages_ok_def s get_pg_def init_pages_def CachePage_new_def page_zero_def)
  ultimately show "cmds_inv env pgs s \<and> cs_backend s = b' \<and> cs_corks s = [] \<and> cs_cork_uuid s = crk b"
    using lastCorkUUID [OF c] by (simp add: cmds_inv_def s)
  have "pgs b' = pgs b" using lastCorkUUID [OF c] scrub_id [OF sc] by simp
  then show "cmds_view env pgs s = disk_view env pgs b"
    by (auto simp: fun_eq_iff cmds_view_def base_view_def cached_data_def page_map_find_def
        disk_view_def backend_data_def s)
qed

subsubsection \<open>Replay and relocations\<close>

lemma process_entry_ok:
  assumes "cmds_inv env pgs s" and "process_entry env cloneid e s = (Inr u, s')"
  shows "cmds_inv env pgs s' \<and> same_corks s s' \<and> base_view env pgs s' =
    override (env_zero_weed env) [entry_update cloneid e] (base_view env pgs s)"
proof -
  from assms(2) obtain ca r where "Entry_clusterAddress e = Inr ca"
    and w: "get_cluster_location env ca (clh_cloneID cloneid (e_loc e)) True s = (Inr r, s')"
    by (auto simp: process_entry_def)
  then have "ca = e_clusteraddress e" using Entry_clusterAddress_InrD by blast
  with get_cluster_location_write [OF assms(1) w] show ?thesis
    by (simp add: entry_update_def override_def)
qed

lemma process_entries_ok:
  assumes "cmds_inv env pgs s" and "sfor es (process_entry env cloneid) s = (Inr (), s')"
  shows "cmds_inv env pgs s' \<and> same_corks s s' \<and> base_view env pgs s' =
    override (env_zero_weed env) (map (entry_update cloneid) es) (base_view env pgs s)"
  using assms
proof (induction es arbitrary: s)
  case (Cons e es)
  from Cons.prems(2) obtain u s1 where 1: "process_entry env cloneid e s = (Inr u, s1)"
    and 2: "sfor es (process_entry env cloneid) s1 = (Inr (), s')" by auto
  note ok = process_entry_ok [OF Cons.prems(1) 1]
  note ih = Cons.IH [OF conjunct1 [OF ok] 2]
  have "override (env_zero_weed env) (map (entry_update cloneid) (e # es)) (base_view env pgs s) =
      override (env_zero_weed env) (map (entry_update cloneid) es)
        (override (env_zero_weed env) [entry_update cloneid e] (base_view env pgs s))"
    by (simp add: override_def)
  with ok ih show ?case by (metis same_corks_trans)
qed (simp add: override_def)

lemma processPages_ok:
  assumes "cmds_inv env pgs s" and "processPages env pages cloneid s = (Inr n, s')"
  shows "cmds_inv env pgs s' \<and> same_corks s s' \<and> n = length pages \<and> base_view env pgs s' =
    override (env_zero_weed env) (map (entry_update cloneid) (concat pages)) (base_view env pgs s)"
proof -
  have "sfor pages (\<lambda>pd. sfor pd (process_entry env cloneid)) = sfor (concat pages) (process_entry env cloneid)"
  proof (induction pages)
    case (Cons p ps)
    then show ?case by (simp add: sfor_append)
  qed simp
  with assms process_entries_ok [OF assms(1), of "concat pages" cloneid s'] show ?thesis
    by (auto simp: processPages_def)
qed

lemma relocs_loop_ok:
  assumes "cmds_inv env pgs s" and "relocs_loop env scid es n s = (Inr n', s')"
    and "\<forall>e \<in> set es. \<not> isNull (clusterLocation (e_loc e))"
  shows "cmds_inv env pgs s' \<and> same_corks s s' \<and> 2 * n' = 2 * n + length es \<and>
    base_view env pgs s' = reloc_spec (env_zero_weed env) scid es (base_view env pgs s)"
  using assms
proof (induction es arbitrary: s n rule: induct_list012)
  case (3 e_old e_new es)
  let ?a = "e_clusteraddress e_old"
  let ?cond = "\<lambda>l. clusterLocation l = ClusterLocation_cloneID scid (clusterLocation (e_loc e_old))"
  let ?go = "\<lambda>a. sbind (get_cluster_location env a clh_zero False) (\<lambda>(_, l_current).
      sbind (if ?cond l_current
             then sbind (get_cluster_location env a (clh_cloneID scid (e_loc e_new)) True) (\<lambda>_. sret ())
             else sret ()) (\<lambda>_. relocs_loop env scid es (n + 1)))"
  from "3.prems"(2) obtain a_new where g: "(if ?a \<noteq> a_new then sthrow (IOException
        ''Wrong Relocation TLog, old clusteraddress does not equal new clusteraddress'') else ?go ?a) s
        = (Inr n', s')"
    by (auto simp del: One_nat_def dest: Entry_clusterAddress_InrD)
  then have "?go ?a s = (Inr n', s')" by (cases "?a = a_new") auto
  then obtain hit l s1 s2 where
      r: "get_cluster_location env ?a clh_zero False s = (Inr (hit, l), s1)"
    and w: "(if ?cond l then sbind (get_cluster_location env ?a (clh_cloneID scid (e_loc e_new)) True)
              (\<lambda>_. sret ()) else sret ()) s1 = (Inr (), s2)"
    and rest: "relocs_loop env scid es (n + 1) s2 = (Inr n', s')"
    by auto
  note rd = get_cluster_location_read [OF "3.prems"(1) r]
  have nn: "\<not> isNull (ClusterLocation_cloneID scid (clusterLocation (e_loc e_old)))"
    using "3.prems"(3) by (simp add: isNull_def ClusterLocation_cloneID_def)
  have c: "?cond l \<longleftrightarrow> ?cond (base_view env pgs s ?a)"
    using clh_norm_location [OF nn, of "env_zero_weed env" l] rd by simp
  have st: "cmds_inv env pgs s2 \<and> same_corks s s2 \<and> base_view env pgs s2 =
      (if ?cond (base_view env pgs s ?a)
       then (base_view env pgs s)(?a := clh_norm (env_zero_weed env) (clh_cloneID scid (e_loc e_new)))
       else base_view env pgs s)"
  proof (cases "?cond l")
    case True
    with w obtain q where "get_cluster_location env ?a (clh_cloneID scid (e_loc e_new)) True s1 = (Inr q, s2)"
      by auto
    from get_cluster_location_write [OF conjunct1 [OF rd] this] rd True c show ?thesis
      by (metis same_corks_trans)
  next
    case False
    with w rd c show ?thesis by simp
  qed
  from "3.IH"(1) [OF conjunct1 [OF st] rest] "3.prems"(3) st show ?case
    by (auto intro: same_corks_trans)
qed auto

lemma backend_same:
  assumes "cmds_inv env pgs s" and "pgs b = pgs (cs_backend s)"
  shows "cmds_inv env pgs (s\<lparr>cs_backend := b, cs_cork_uuid := c, cs_scrub_id := i\<rparr>) \<and>
    base_view env pgs (s\<lparr>cs_backend := b, cs_cork_uuid := c, cs_scrub_id := i\<rparr>) = base_view env pgs s"
proof -
  let ?s = "s\<lparr>cs_backend := b, cs_cork_uuid := c, cs_scrub_id := i\<rparr>"
  have gp: "get_pg ?s = get_pg s" by (simp add: fun_eq_iff get_pg_def)
  have "cmds_inv env pgs ?s"
    using assms unfolding cmds_inv_def page_table_ok_def pages_ok_def backend_data_def gp by simp
  with base_view_cong [OF gp, of pgs env] assms(2) show ?thesis by simp
qed

lemma set_scrub_id_ok:
  assumes "cmds_inv env pgs s" and "set_scrub_id env i s = (Inr u, s')"
  shows "cmds_inv env pgs s' \<and> base_view env pgs s' = base_view env pgs s \<and> same_corks s s' \<and>
    cs_scrub_id s' = Some i"
proof -
  from assms(2) obtain b v where b: "mdb_set_scrub_id (env_backend env) i (cs_backend s) = (Inr v, b)"
    and s': "s' = s\<lparr>cs_backend := b, cs_cork_uuid := cs_cork_uuid s, cs_scrub_id := Some i\<rparr>"
    by (auto simp: set_scrub_id_def on_backend_def)
  from backend_same [OF assms(1), of b "Some i" "cs_cork_uuid s"] set_scrub_id [OF b] s'
  show ?thesis by (simp add: same_corks_def)
qed

lemma write_page_keeping_ok:
  assumes inv: "cmds_inv env pgs s" and i: "i < cs_num_pages s"
    and w: "write_page_keeping env i s = (Inr u, s')"
  shows "cmds_inv env pgs s' \<and> same_corks s s' \<and> base_view env pgs s' = base_view env pgs s \<and>
    cs_num_pages s' = cs_num_pages s"
proof (cases "pg_dirty (get_pg s i) \<and> \<not> page_empty (pg_data (get_pg s i))")
  case True
  with w obtain r s1 s2 v where w: "maybeWritePage env i False s = (Inr r, s1)"
    and d: "dispose_page (mdb_putPage (env_backend env)) i s1 = (Inr v, s2)"
    and s': "s' = upd_pg i (\<lambda>p. p\<lparr>pg_dirty := False\<rparr>) s2"
    by (auto simp: write_page_keeping_def)
  note o1 = write_one [OF inv i w]
  have i1: "i < cs_num_pages s1" using o1 i by simp
  note o2 = page_written_store [OF conjunct1 [OF o1] i1 dispose_put [OF d]]
  have "(cs_pages s2 ! i)\<lparr>pg_dirty := False\<rparr> = cs_pages s2 ! i"
    using o2 by (cases "cs_pages s2 ! i") (simp add: get_pg_def)
  then have "s' = s2" by (simp add: s' upd_pg_def)
  with o1 o2 same_corks_trans [of s s1 s2] show ?thesis by simp
next
  case False
  with w inv show ?thesis by (auto simp: write_page_keeping_def)
qed

lemma keeping_loop:
  assumes "cmds_inv env pgs s" and "set pl \<subseteq> {..< cs_num_pages s}"
    and "sfor pl (write_page_keeping env) s = (Inr (), s')"
  shows "cmds_inv env pgs s' \<and> same_corks s s' \<and> base_view env pgs s' = base_view env pgs s"
  using assms
proof (induction pl arbitrary: s)
  case (Cons i pl)
  from Cons.prems(3) obtain u s1 where w: "write_page_keeping env i s = (Inr u, s1)"
    and rest: "sfor pl (write_page_keeping env) s1 = (Inr (), s')" by auto
  have "i < cs_num_pages s" using Cons.prems(2) by simp
  note ok = write_page_keeping_ok [OF Cons.prems(1) this w]
  have "set pl \<subseteq> {..< cs_num_pages s1}" using Cons.prems(2) ok by simp
  from Cons.IH [OF conjunct1 [OF ok] this rest] ok same_corks_trans [of s s1 s'] show ?case by simp
qed simp

lemma applyRelocs_ok:
  assumes "cmds_inv env pgs s" and "applyRelocs env relocs scid tmp sid s = (Inr n, s')"
    and "\<forall>e \<in> set relocs. \<not> isNull (clusterLocation (e_loc e))"
  shows "cmds_inv env pgs s' \<and> same_corks s s' \<and> 2 * n = length relocs \<and> cs_scrub_id s' = Some sid \<and>
    base_view env pgs s' = reloc_spec (env_zero_weed env) scid relocs (base_view env pgs s)"
proof -
  from assms(2) obtain u s1 s2 s3 v where t: "set_scrub_id env tmp s = (Inr u, s1)"
    and l: "relocs_loop env scid relocs 0 s1 = (Inr n, s2)"
    and k: "sfor (cs_page_list s2) (write_page_keeping env) s2 = (Inr (), s3)"
    and e: "set_scrub_id env sid s3 = (Inr v, s')"
    by (auto simp: applyRelocs_def write_dirty_pages_keeping_def)
  note o1 = set_scrub_id_ok [OF assms(1) t]
  note o2 = relocs_loop_ok [OF conjunct1 [OF o1] l assms(3)]
  have "set (cs_page_list s2) \<subseteq> {..< cs_num_pages s2}"
    using o2 by (auto simp: cmds_inv_def page_table_ok_def)
  note o3 = keeping_loop [OF conjunct1 [OF o2] this k]
  note o4 = set_scrub_id_ok [OF conjunct1 [OF o3] e]
  from o1 o2 o3 o4 show ?thesis by (simp add: same_corks_def)
qed

lemma flush_all:
  assumes "cmds_inv env pgs s"
    and "sfor (cs_page_list s) (\<lambda>i. sbind (maybeWritePage env i False) (\<lambda>_. sret ())) s = (Inr (), s')"
  shows "cmds_inv env pgs s' \<and> same_corks s s' \<and> base_view env pgs s' = base_view env pgs s \<and>
    disk_view env pgs (cs_backend s') = base_view env pgs s'"
proof -
  have l: "set (cs_page_list s) = {..< cs_num_pages s}"
    using assms(1) by (auto simp: cmds_inv_def page_table_ok_def)
  note o = flush_loop [OF assms(1) equalityD1 [OF l] assms(2)]
  then have "all_clean s'" using l by (auto simp: all_clean_def)
  from clean_disk_view [OF conjunct1 [OF o] this] o show ?thesis by simp
qed

lemma clone_tlogs_loop_ok:
  assumes "cmds_inv env pgs s" and "clone_tlogs_loop env prev ctl s = (Inr (), s')"
  shows "cmds_inv env pgs s' \<and> same_corks s s' \<and>
    base_view env pgs s' = override (env_zero_weed env) (replay_updates ctl) (base_view env pgs s)"
  using assms
proof (induction ctl arbitrary: s prev)
  case (Cons c ctl)
  from Cons.prems(2) obtain n s1 where p: "processPages env (snd c) (fst c) s = (Inr n, s1)"
    and rest: "clone_tlogs_loop env (Some (fst c)) ctl s1 = (Inr (), s')" by auto
  note o1 = processPages_ok [OF Cons.prems(1) p]
  note o2 = Cons.IH [OF conjunct1 [OF o1] rest]
  have "replay_updates (c # ctl) = map (entry_update (fst c)) (concat (snd c)) @ replay_updates ctl"
    by (simp add: replay_updates_def split_def)
  with o1 o2 same_corks_trans [of s s1 s'] show ?case by (simp add: override_append)
qed (simp add: replay_updates_def override_def)

lemma processCloneTLogs_ok:
  assumes inv: "cmds_inv env pgs s" and p: "processCloneTLogs env ctl sync c s = (Inr u, s')"
  shows "cmds_inv env pgs s' \<and> cs_corks s' = cs_corks s \<and> cs_cork_uuid s' = c \<and>
    base_view env pgs s' = override (env_zero_weed env) (replay_updates ctl) (base_view env pgs s) \<and>
    (sync \<longrightarrow> disk_view env pgs (cs_backend s') = base_view env pgs s' \<and>
       (c \<noteq> None \<longrightarrow> crk (cs_backend s') = c))"
proof -
  let ?fin = "\<lambda>s. s\<lparr>cs_backend := cs_backend s, cs_cork_uuid := c, cs_scrub_id := cs_scrub_id s\<rparr>"
  from p obtain s1 s2 where l: "clone_tlogs_loop env None ctl s = (Inr (), s1)"
    and sy: "(if sync
            then sbind (sget cs_page_list) (\<lambda>pl.
                 sbind (sfor pl (\<lambda>i. sbind (maybeWritePage env i False) (\<lambda>_. sret ()))) (\<lambda>_.
                 case c of
                   None \<Rightarrow> sret ()
                 | Some cid \<Rightarrow>
                     sbind (on_backend (mdb_setCork (env_backend env) cid)) (\<lambda>_.
                       on_backend (mdb_sync (env_backend env)))))
            else sret ()) s1 = (Inr (), s2)"
    and s': "s' = ?fin s2"
    by (auto simp: processCloneTLogs_def)
  note o1 = clone_tlogs_loop_ok [OF inv l]
  show ?thesis
  proof (cases sync)
    case False
    with sy s' o1 backend_same [of s1 "cs_backend s1" "cs_scrub_id s1" c] show ?thesis
      by (simp add: same_corks_def)
  next
    case True
    with sy obtain s3 where
        f: "sfor (cs_page_list s1) (\<lambda>i. sbind (maybeWritePage env i False) (\<lambda>_. sret ())) s1 = (Inr (), s3)"
      and g: "(case c of None \<Rightarrow> sret () | Some cid \<Rightarrow>
                 sbind (on_backend (mdb_setCork (env_backend env) cid)) (\<lambda>_.
                   on_backend (mdb_sync (env_backend env)))) s3 = (Inr (), s2)" by auto
    note o3 = flush_all [OF conjunct1 [OF o1] f]
    have "\<exists>b. s2 = s3\<lparr>cs_backend := b\<rparr> \<and> pgs b = pgs (cs_backend s3) \<and> (c \<noteq> None \<longrightarrow> crk b = c)"
    proof (cases c)
      case None
      with g show ?thesis by (intro exI [of _ "cs_backend s3"]) simp
    next
      case (Some cid)
      with g obtain b1 v1 b where a: "mdb_setCork (env_backend env) cid (cs_backend s3) = (Inr v1, b1)"
        and b: "mdb_sync (env_backend env) b1 = (Inr (), b)" and s2: "s2 = s3\<lparr>cs_backend := b\<rparr>"
        by (auto simp: on_backend_def)
      from setCork [OF a] sync [OF b] s2 Some show ?thesis by auto
    qed
    then obtain b where s2: "s2 = s3\<lparr>cs_backend := b\<rparr>" and pb: "pgs b = pgs (cs_backend s3)"
      and cb: "c \<noteq> None \<longrightarrow> crk b = c" by blast
    have "s' = s3\<lparr>cs_backend := b, cs_cork_uuid := c, cs_scrub_id := cs_scrub_id s3\<rparr>" by (simp add: s' s2)
    moreover have "disk_view env pgs b = disk_view env pgs (cs_backend s3)"
      by (simp add: fun_eq_iff disk_view_def backend_data_def pb)
    ultimately show ?thesis
      using o1 o3 cb True backend_same [OF conjunct1 [OF o3] pb, of "cs_scrub_id s3" c]
      by (simp add: same_corks_def)
  qed
qed

lemma clear_loop_drop:
  assumes "clear_loop env False ig pl s = (Inr (), s')"
  shows "cs_pages s' = cs_pages s \<and> cs_backend s' = cs_backend s \<and> cs_corks s' = cs_corks s \<and>
    cs_page_list s' = fold remove1 pl (cs_page_list s) \<and> cs_page_map s' = fold remove1 pl (cs_page_map s) \<and>
    cs_num_pages s' = cs_num_pages s - length pl"
  using assms
proof (induction pl arbitrary: s)
  case (Cons i pl)
  then show ?case by (fastforce simp: unlink_from_set_def unlink_from_list_def)
qed simp

lemma fold_remove1_all: "set xs \<subseteq> set pl \<Longrightarrow> distinct xs \<Longrightarrow> fold remove1 pl xs = []"
proof (induction pl arbitrary: xs)
  case (Cons i pl)
  have "fold remove1 pl (remove1 i xs) = []" using Cons.prems by (intro Cons.IH) auto
  then show ?case by simp
qed simp

lemma clear_all_keys_ok:
  assumes inv: "cmds_inv env pgs s" and c: "clear_all_keys env s = (Inr u, s')"
  shows "cmds_inv env pgs s' \<and> cs_corks s' = [] \<and> cs_cork_uuid s' = None \<and>
    crk (cs_backend s') = None \<and>
    cmds_view env pgs s' = (\<lambda>_. discarded_location_and_hash (env_zero_weed env))"
proof -
  from c obtain s1 b v where l: "clear_loop env False False (cs_page_list s) (s\<lparr>cs_corks := []\<rparr>) = (Inr (), s1)"
    and b: "mdb_clear_all_keys (env_backend env) (cs_backend s1) = (Inr v, b)"
    and s': "s' = s1\<lparr>cs_pages := map (\<lambda>p. p\<lparr>pg_data := page_zero (env_page_bits env)\<rparr>) (cs_pages s1),
                cs_backend := b, cs_cork_uuid := None, cs_scrub_id := None\<rparr>"
    by (auto simp: clear_all_keys_def write_dirty_pages_and_clear_def on_backend_def)
  have t: "page_table_ok {..< cs_num_pages s} s" and p: "pages_ok env pgs s"
    using inv by (simp_all add: cmds_inv_def)
  then have n: "length (cs_page_list s) = cs_num_pages s"
    using distinct_card [of "cs_page_list s"] by (simp add: page_table_ok_def)
  note d = clear_loop_drop [OF l]
  have e: "cs_page_list s' = []" "cs_page_map s' = []" "cs_num_pages s' = 0" "cs_corks s' = []"
    using d t n fold_remove1_all [of "cs_page_list s" "cs_page_list s"]
      fold_remove1_all [of "cs_page_map s" "cs_page_list s"]
    by (simp_all add: s' page_table_ok_def)
  have "cmds_inv env pgs s'"
    using e p d by (auto simp: cmds_inv_def page_table_ok_def pages_ok_def s' get_pg_def page_zero_def)
  moreover have "cmds_view env pgs s' = (\<lambda>_. discarded_location_and_hash (env_zero_weed env))"
  proof
    fix ca
    have "cached_data env pgs s' pa = page_zero (env_page_bits env)" for pa
      using clear_all_keys [OF b] unfolding cached_data_def page_map_find_def e
      by (simp add: backend_data_def s')
    then show "cmds_view env pgs s' ca = discarded_location_and_hash (env_zero_weed env)"
      using page_offset_less [of "env_page_bits env" ca] unfolding cmds_view_def e base_view_def
      by (simp add: page_zero_def clh_norm_def clh_zero_def null_location_def isNull_def
          ClusterLocation_new_def SCO_new_def)
  qed
  ultimately show ?thesis using e clear_all_keys [OF b] by (simp add: s')
qed

end

subsection \<open>The store over RocksDB\<close>

context kv_database
begin

lemma rocks_backend:
  "metadata_backend pb (RocksDBMetaDataBackend pb kv) (\<lambda>b. kv_pages (view (rk_db b)))
     (\<lambda>b. kv_cork (view (rk_db b)))"
  by (rule rocks.metadata_backend_axioms)

end

definition rocks_env :: "nat \<Rightarrow> bool \<Rightarrow> 128 word \<Rightarrow> 'db kv_api \<Rightarrow> 'db rocks cmds_env" where
  "rocks_env pb use_hash zw kv =
     \<lparr>env_page_bits = pb, env_use_hash = use_hash, env_zero_weed = zw,
      env_backend = RocksDBMetaDataBackend pb kv\<rparr>"

abbreviation rocks_pages :: "('db \<Rightarrow> u64 \<Rightarrow> kv_value option) \<Rightarrow> 'db rocks \<Rightarrow> u64 \<Rightarrow> clh list option" where
  "rocks_pages view \<equiv> (\<lambda>b. kv_pages (view (rk_db b)))"

abbreviation rocks_cork :: "('db \<Rightarrow> u64 \<Rightarrow> kv_value option) \<Rightarrow> 'db rocks \<Rightarrow> uuid option" where
  "rocks_cork view \<equiv> (\<lambda>b. kv_cork (view (rk_db b)))"

lemma rocks_env_simps [simp]:
  "env_page_bits (rocks_env pb h zw kv) = pb" "env_use_hash (rocks_env pb h zw kv) = h"
  "env_zero_weed (rocks_env pb h zw kv) = zw"
  "env_backend (rocks_env pb h zw kv) = RocksDBMetaDataBackend pb kv"
  by (simp_all add: rocks_env_def)

sublocale kv_database < rocks_store: cached_store "rocks_env pb h zw kv" "rocks_pages view" "rocks_cork view"
  for pb h zw
  by (rule cached_store.intro) (simp add: rocks.metadata_backend_axioms)

lemma rocks_cached_store:
  assumes "kv_database kv view"
  shows "cached_store (rocks_env pb h zw kv) (rocks_pages view) (rocks_cork view)"
  using kv_database.rocks_backend [OF assms] by (simp add: cached_store_def)

lemmas rocks_new_store = cached_store.new_store_ok [OF rocks_cached_store, simplified]
lemmas rocks_run_ops = cached_store.run_ops_refines [OF rocks_cached_store, simplified]
lemmas rocks_unCork = cached_store.unCork_ok [OF rocks_cached_store, simplified]
lemmas rocks_processCloneTLogs = cached_store.processCloneTLogs_ok [OF rocks_cached_store, simplified]
lemmas rocks_applyRelocs = cached_store.applyRelocs_ok [OF rocks_cached_store, simplified]
lemmas rocks_clear_all_keys = cached_store.clear_all_keys_ok [OF rocks_cached_store, simplified]

subsection \<open>Properties\<close>

text \<open>
  C1. The metadata store is a map: a new store over any RocksDB database, driven by any sequence of
  reads, writes, discards, corks and uncorks, returns for every read the location that the same
  sequence gives on a plain map which starts with the content of the database, whatever the page
  cache evicts and reloads on the way.
\<close>

theorem store_refines_map:
  assumes "kv_database kv view"
    and "CMDS_new (rocks_env pb h zw kv) b capacity = (Inr s, b')"
    and "run_ops (rocks_env pb h zw kv) ops s = (Inr rs, s')"
  shows "spec_ops zw ops (disk_view (rocks_env pb h zw kv) (rocks_pages view) b) =
    (map (map_option (clh_norm zw)) rs, cmds_view (rocks_env pb h zw kv) (rocks_pages view) s')"
  using rocks_new_store [OF assms(1,2)]
    rocks_run_ops [OF assms(1) _ assms(3)]
  by simp

text \<open>
  C3. Uncorking makes a TLog durable and hides nothing: it does not change what the store shows, and
  a store that is opened later on the same database shows the clusters of the uncorked TLog over
  what was there below, and has the cork of that TLog as its last one.
\<close>

theorem uncork_survives_restart:
  assumes "kv_database kv view"
    and "CMDS_new (rocks_env pb h zw kv) b capacity = (Inr s0, b0)"
    and "run_ops (rocks_env pb h zw kv) ops s0 = (Inr rs, s)"
    and "unCork (rocks_env pb h zw kv) c s = (Inr (), s')"
    and "CMDS_new (rocks_env pb h zw kv) (cs_backend s') capacity' = (Inr t, b')"
  shows "cmds_view (rocks_env pb h zw kv) (rocks_pages view) s' =
      cmds_view (rocks_env pb h zw kv) (rocks_pages view) s \<and>
    cmds_view (rocks_env pb h zw kv) (rocks_pages view) t =
      override zw (snd (hd (cs_corks s))) (base_view (rocks_env pb h zw kv) (rocks_pages view) s) \<and>
    lastCork t = (Inr (Some (fst (hd (cs_corks s)))), t)"
proof -
  note inv0 = rocks_new_store(1) [OF assms(1,2)]
  note inv = rocks_run_ops [OF assms(1) conjunct1 [OF inv0] assms(3)]
  note unc = rocks_unCork [OF assms(1) conjunct1 [OF inv] assms(4)]
  from unc rocks_new_store [OF assms(1,5)] show ?thesis
    by (simp add: lastCork_def sget_def)
qed

text \<open>
  C19. Replay rebuilds the map: a new store that processes the TLogs of the clones and syncs shows the
  entries of these TLogs, in the order they were read, over the content of the database; the database
  has all of it, and the given cork.
\<close>

theorem replay_rebuilds_map:
  assumes "kv_database kv view"
    and "CMDS_new (rocks_env pb h zw kv) b capacity = (Inr s, b')"
    and "processCloneTLogs (rocks_env pb h zw kv) ctl True (Some c) s = (Inr (), s')"
  shows "cmds_view (rocks_env pb h zw kv) (rocks_pages view) s' =
      override zw (replay_updates ctl) (disk_view (rocks_env pb h zw kv) (rocks_pages view) b) \<and>
    disk_view (rocks_env pb h zw kv) (rocks_pages view) (cs_backend s') =
      cmds_view (rocks_env pb h zw kv) (rocks_pages view) s' \<and>
    rocks_cork view (cs_backend s') = Some c"
proof -
  note n = rocks_new_store [OF assms(1,2)]
  note p = rocks_processCloneTLogs [OF assms(1) conjunct1 [OF n(1)] assms(3)]
  have "cmds_view (rocks_env pb h zw kv) (rocks_pages view) t = base_view (rocks_env pb h zw kv) (rocks_pages view) t"
    if "cs_corks t = []" for t
    using that by (simp add: cmds_view_def fun_eq_iff)
  with n p show ?thesis by simp
qed

text \<open>
  C20. Applying the relocations of a scrub moves exactly the clusters that are still where the scrub
  found them: the map below the corks becomes the map in which every address that still has the old
  location of a pair has the new one; an address that was written since keeps its location. The corks
  do not change, the number of pairs is returned and the new scrub id is recorded.
\<close>

theorem relocations_applied:
  assumes "kv_database kv view"
    and "CMDS_new (rocks_env pb h zw kv) b capacity = (Inr s0, b0)"
    and "run_ops (rocks_env pb h zw kv) ops s0 = (Inr rs, s)"
    and "applyRelocs (rocks_env pb h zw kv) relocs scid tmp sid s = (Inr n, s')"
    and "\<forall>e \<in> set relocs. \<not> isNull (clusterLocation (e_loc e))"
  shows "base_view (rocks_env pb h zw kv) (rocks_pages view) s' =
      reloc_spec zw scid relocs (base_view (rocks_env pb h zw kv) (rocks_pages view) s) \<and>
    cs_corks s' = cs_corks s \<and> 2 * n = length relocs \<and> cs_scrub_id s' = Some sid"
proof -
  note n = rocks_new_store(1) [OF assms(1,2)]
  note r = rocks_run_ops [OF assms(1) conjunct1 [OF n] assms(3)]
  from rocks_applyRelocs [OF assms(1) conjunct1 [OF r] assms(4,5)] show ?thesis
    by (simp add: cached_store.same_corks_def [OF rocks_cached_store [OF assms(1)]])
qed

text \<open>
  C21. Clearing the store after any sequence of operations leaves nothing: every address shows a
  discarded cluster, there is no cork and no last cork, also in the database.
\<close>

theorem clear_leaves_nothing:
  assumes "kv_database kv view"
    and "CMDS_new (rocks_env pb h zw kv) b capacity = (Inr s0, b0)"
    and "run_ops (rocks_env pb h zw kv) ops s0 = (Inr rs, s)"
    and "clear_all_keys (rocks_env pb h zw kv) s = (Inr (), s')"
  shows "cmds_view (rocks_env pb h zw kv) (rocks_pages view) s' = (\<lambda>_. discarded_location_and_hash zw) \<and>
    cs_corks s' = [] \<and> lastCork s' = (Inr None, s') \<and> rocks_cork view (cs_backend s') = None"
proof -
  note n = rocks_new_store(1) [OF assms(1,2)]
  note r = rocks_run_ops [OF assms(1) conjunct1 [OF n] assms(3)]
  from rocks_clear_all_keys [OF assms(1) conjunct1 [OF r] assms(4)] show ?thesis
    by (simp add: lastCork_def sget_def)
qed

subsection \<open>Witnesses\<close>

text \<open>A store with one page of two clusters in its cache, so that every change of page evicts.\<close>

definition ex_env :: "(u64 \<Rightarrow> kv_value option) rocks cmds_env" where
  "ex_env = rocks_env 1 False 0 mem_kv"

definition ex_db :: "(u64 \<Rightarrow> kv_value option) rocks" where
  "ex_db = \<lparr>rk_db = Map.empty, rk_used_clusters = 0\<rparr>"

definition ex_loc :: "u32 \<Rightarrow> clh" where
  "ex_loc n = \<lparr>clusterLocation = ClusterLocation_new n 0 0 0, weed = 0\<rparr>"

definition ex_entry :: "u64 \<Rightarrow> u32 \<Rightarrow> entry" where
  "ex_entry a n = \<lparr>e_clusteraddress = a, e_loc = ex_loc n\<rparr>"

definition ex_store :: "(u64 \<Rightarrow> kv_value option) rocks cmds" where
  "ex_store = projr (fst (CMDS_new ex_env ex_db 1))"

definition ex_ops :: "store_op list" where
  "ex_ops = [Cork 1, Write 5 (ex_loc 7), Write 9 (ex_loc 8), Cork 2, Read 5, UnCork (Some 1),
     Read 9, Read 5, Discard 9, Read 9, Read 4]"

definition ex_results :: "clh option list" where
  "ex_results = [None, None, None, None, Some (ex_loc 7), None, Some (ex_loc 8), Some (ex_loc 7),
     None, Some (discarded_location_and_hash 0), Some clh_zero]"

definition ex_corked :: "(u64 \<Rightarrow> kv_value option) rocks cmds" where
  "ex_corked = snd (run_ops ex_env (take 5 ex_ops) ex_store)"

definition ex_uncorked :: "(u64 \<Rightarrow> kv_value option) rocks cmds" where
  "ex_uncorked = snd (unCork ex_env (Some 1) ex_corked)"

definition ex_restarted :: "(u64 \<Rightarrow> kv_value option) rocks cmds" where
  "ex_restarted = projr (fst (CMDS_new ex_env (cs_backend ex_uncorked) 2))"

lemma result_Inr: "fst p = Inr r \<Longrightarrow> p = (Inr r, snd p)"
  by (cases p) simp

lemma result_projr: "\<not> isl (fst p) \<Longrightarrow> p = (Inr (projr (fst p)), snd p)"
  by (cases p) simp

lemma ex_new: "CMDS_new ex_env ex_db 1 = (Inr ex_store, snd (CMDS_new ex_env ex_db 1))"
  unfolding ex_store_def by (rule result_projr) code_simp

lemma ex_take: "run_ops ex_env (take 5 ex_ops) ex_store = (Inr (take 5 ex_results), ex_corked)"
  unfolding ex_corked_def by (rule result_Inr) code_simp

theorem store_refines_map_witness:
  "fst (run_ops ex_env ex_ops ex_store) = Inr ex_results \<and>
   spec_ops 0 ex_ops (disk_view ex_env (rocks_pages (\<lambda>m. m)) ex_db) =
     (map (map_option (clh_norm 0)) ex_results,
      cmds_view ex_env (rocks_pages (\<lambda>m. m)) (snd (run_ops ex_env ex_ops ex_store)))"
proof -
  have r: "fst (run_ops ex_env ex_ops ex_store) = Inr ex_results" by code_simp
  from store_refines_map [OF mem.kv_database_axioms ex_new [unfolded ex_env_def]
      result_Inr [OF r, unfolded ex_env_def]] r
  show ?thesis by (simp add: ex_env_def)
qed

theorem uncork_survives_restart_witness:
  "cmds_view ex_env (rocks_pages (\<lambda>m. m)) ex_restarted =
     override 0 [(5, ex_loc 7), (9, ex_loc 8)] (base_view ex_env (rocks_pages (\<lambda>m. m)) ex_corked) \<and>
   lastCork ex_restarted = (Inr (Some 1), ex_restarted)"
proof -
  have "fst (unCork ex_env (Some 1) ex_corked) = Inr ()" by code_simp
  then have u: "unCork ex_env (Some 1) ex_corked = (Inr (), ex_uncorked)"
    unfolding ex_uncorked_def by (rule result_Inr)
  have n: "CMDS_new ex_env (cs_backend ex_uncorked) 2 =
      (Inr ex_restarted, snd (CMDS_new ex_env (cs_backend ex_uncorked) 2))"
    unfolding ex_restarted_def by (rule result_projr) code_simp
  have "hd (cs_corks ex_corked) = (1, [(5, ex_loc 7), (9, ex_loc 8)])" by code_simp
  with uncork_survives_restart [OF mem.kv_database_axioms ex_new [unfolded ex_env_def]
      ex_take [unfolded ex_env_def] u [unfolded ex_env_def] n [unfolded ex_env_def]]
  show ?thesis by (simp add: ex_env_def)
qed

definition ex_ctl :: "(u8 \<times> entry list list) list" where
  "ex_ctl = [(1, [[ex_entry 3 4], [ex_entry 8 5]]), (0, [[ex_entry 3 6]])]"

definition ex_replayed :: "(u64 \<Rightarrow> kv_value option) rocks cmds" where
  "ex_replayed = snd (processCloneTLogs ex_env ex_ctl True (Some 9) ex_store)"

theorem replay_rebuilds_map_witness:
  "cmds_view ex_env (rocks_pages (\<lambda>m. m)) ex_replayed =
     override 0 (replay_updates ex_ctl) (disk_view ex_env (rocks_pages (\<lambda>m. m)) ex_db) \<and>
   disk_view ex_env (rocks_pages (\<lambda>m. m)) (cs_backend ex_replayed) 3 = ex_loc 6 \<and>
   rocks_cork (\<lambda>m. m) (cs_backend ex_replayed) = Some 9"
proof -
  have "fst (processCloneTLogs ex_env ex_ctl True (Some 9) ex_store) = Inr ()" by code_simp
  then have p: "processCloneTLogs ex_env ex_ctl True (Some 9) ex_store = (Inr (), ex_replayed)"
    unfolding ex_replayed_def by (rule result_Inr)
  have "override 0 (replay_updates ex_ctl) (disk_view ex_env (rocks_pages (\<lambda>m. m)) ex_db) 3 = ex_loc 6"
    by code_simp
  with replay_rebuilds_map [OF mem.kv_database_axioms ex_new [unfolded ex_env_def] p [unfolded ex_env_def]]
  show ?thesis by (simp add: ex_env_def)
qed

definition ex_relocs :: "entry list" where
  "ex_relocs = [ex_entry 5 7, ex_entry 5 70, ex_entry 9 80, ex_entry 9 81]"

definition ex_scrubbed :: "(u64 \<Rightarrow> kv_value option) rocks cmds" where
  "ex_scrubbed = snd (applyRelocs ex_env ex_relocs 0 11 12 (snd (run_ops ex_env ex_ops ex_store)))"

theorem relocations_applied_witness:
  "base_view ex_env (rocks_pages (\<lambda>m. m)) ex_scrubbed 5 = ex_loc 70 \<and>
   base_view ex_env (rocks_pages (\<lambda>m. m)) ex_scrubbed 9 = ex_loc 8 \<and> cs_scrub_id ex_scrubbed = Some 12"
proof -
  let ?s = "snd (run_ops ex_env ex_ops ex_store)"
  have r: "fst (run_ops ex_env ex_ops ex_store) = Inr ex_results" by code_simp
  have "fst (applyRelocs ex_env ex_relocs 0 11 12 ?s) = Inr 2" by code_simp
  then have a: "applyRelocs ex_env ex_relocs 0 11 12 ?s = (Inr 2, ex_scrubbed)"
    unfolding ex_scrubbed_def by (rule result_Inr)
  have nn: "\<forall>e \<in> set ex_relocs. \<not> isNull (clusterLocation (e_loc e))" by code_simp
  have "reloc_spec 0 0 ex_relocs (base_view ex_env (rocks_pages (\<lambda>m. m)) ?s) 5 = ex_loc 70"
    "reloc_spec 0 0 ex_relocs (base_view ex_env (rocks_pages (\<lambda>m. m)) ?s) 9 = ex_loc 8"
    by code_simp+
  with relocations_applied [OF mem.kv_database_axioms ex_new [unfolded ex_env_def]
      result_Inr [OF r, unfolded ex_env_def] a [unfolded ex_env_def] nn]
  show ?thesis by (simp add: ex_env_def)
qed

theorem clear_leaves_nothing_witness:
  "cmds_view ex_env (rocks_pages (\<lambda>m. m)) (snd (clear_all_keys ex_env ex_corked)) =
     (\<lambda>_. discarded_location_and_hash 0) \<and>
   cs_corks (snd (clear_all_keys ex_env ex_corked)) = []"
proof -
  have "fst (clear_all_keys ex_env ex_corked) = Inr ()" by code_simp
  from clear_leaves_nothing [OF mem.kv_database_axioms ex_new [unfolded ex_env_def]
      ex_take [unfolded ex_env_def] result_Inr [OF this, unfolded ex_env_def]]
  show ?thesis by (simp add: ex_env_def)
qed

end
