(* ===== verification/TLog_IO.thy ===== *)
theory TLog_IO
  imports Check_Sums Effects Locations
begin

text \<open>
  TLogs as files: the bytes of an entry, the writer of src/src/volumedriver/TLogWriter.cpp and the
  readers of TLogReader.cpp, BackwardTLogReader.cpp, OneFileTLogReader.cpp, CombinedTLogReader.h and
  TLogReaderInterface.cpp. A file is the list of its bytes. Reads and writes of the operating system
  transfer what was asked for; failing ones, the fetch of a missing TLog from the backend and the
  threads that prefetch TLogs are not modelled.
\<close>

unbundle bit_operations_syntax

subsection \<open>Bytes\<close>

text \<open>Integers in memory are little endian.\<close>

definition le_bytes :: "nat \<Rightarrow> 'a::len word \<Rightarrow> u8 list" where
  "le_bytes n w = map (\<lambda>i. ucast (drop_bit (8 * i) w)) [0 ..< n]"

fun of_le :: "u8 list \<Rightarrow> 'a::len word" where
  "of_le [] = 0"
| "of_le (b # bs) = ucast b OR push_bit 8 (of_le bs)"

lemma length_le_bytes [simp]: "length (le_bytes n w) = n"
  by (simp add: le_bytes_def)

lemma le_bytes_Suc: "le_bytes (Suc n) w = ucast w # le_bytes n (drop_bit 8 w)"
proof -
  have "[0 ..< Suc n] = 0 # map Suc [0 ..< n]" by (metis map_Suc_upt upt_conv_Cons zero_less_Suc)
  then show ?thesis by (simp add: le_bytes_def drop_bit_drop_bit add.commute)
qed

lemma of_le_bytes: "of_le (le_bytes n w) = take_bit (8 * n) (w :: 'a::len word)"
proof (induction n arbitrary: w)
  case 0
  then show ?case by (simp add: le_bytes_def)
next
  case (Suc n)
  show ?case
    by (rule bit_word_eqI) (auto simp: le_bytes_Suc Suc.IH bit_simps dest: bit_imp_le_length)
qed

lemma of_le_full: "LENGTH('a::len) = 8 * n \<Longrightarrow> of_le (le_bytes n w) = (w :: 'a word)"
  by (simp add: of_le_bytes take_bit_word_eq_self)

subsection \<open>The bytes of an entry\<close>

text \<open>
  \<open>hash\<close> says whether the hash of a cluster is stored (\<^verbatim>\<open>ENABLE_MD5_HASH\<close>). The structures are
  packed: address, then offset, version, number and clone id of the location, then the hash.
\<close>

definition location_bytes :: "cluster_location \<Rightarrow> u8 list" where
  "location_bytes l = le_bytes 2 (cl_offset l) @ le_bytes 1 (sco_version (cl_sco l)) @
     le_bytes 4 (sco_number (cl_sco l)) @ le_bytes 1 (sco_cloneID (cl_sco l))"

definition Entry_getDataSize :: "bool \<Rightarrow> nat" where
  "Entry_getDataSize hash = (if hash then 32 else 16)"

definition entry_bytes :: "bool \<Rightarrow> entry \<Rightarrow> u8 list" where
  "entry_bytes hash e = le_bytes 8 (e_clusteraddress e) @ location_bytes (clusterLocation (e_loc e)) @
     (if hash then le_bytes 16 (weed (e_loc e)) else [])"

definition location_of_bytes :: "u8 list \<Rightarrow> cluster_location" where
  "location_of_bytes bs =
     \<lparr>cl_offset = of_le (take 2 bs),
      cl_sco = \<lparr>sco_version = of_le (take 1 (drop 2 bs)), sco_number = of_le (take 4 (drop 3 bs)),
                sco_cloneID = of_le (take 1 (drop 7 bs))\<rparr>\<rparr>"

definition entry_of_bytes :: "bool \<Rightarrow> u8 list \<Rightarrow> entry" where
  "entry_of_bytes hash bs =
     \<lparr>e_clusteraddress = of_le (take 8 bs),
      e_loc = \<lparr>clusterLocation = location_of_bytes (take 8 (drop 8 bs)),
               weed = (if hash then of_le (take 16 (drop 16 bs)) else 0)\<rparr>\<rparr>"

text \<open>An entry has a hash only if hashes are stored.\<close>

definition entry_ok :: "bool \<Rightarrow> entry \<Rightarrow> bool" where
  "entry_ok hash e \<longleftrightarrow> hash \<or> weed (e_loc e) = 0"

lemma length_entry_bytes [simp]: "length (entry_bytes hash e) = Entry_getDataSize hash"
  by (simp add: entry_bytes_def location_bytes_def Entry_getDataSize_def)

lemma data_size_pos [simp]: "0 < Entry_getDataSize hash"
  by (simp add: Entry_getDataSize_def)

lemma location_of_location_bytes: "location_of_bytes (location_bytes l) = l"
  by (cases l; cases "cl_sco l") (simp add: location_bytes_def location_of_bytes_def of_le_full)

lemma entry_of_entry_bytes:
  assumes "entry_ok hash e"
  shows "entry_of_bytes hash (entry_bytes hash e) = e"
proof -
  have "length (location_bytes (clusterLocation (e_loc e))) = 8" by (simp add: location_bytes_def)
  then show ?thesis
    using assms
    by (cases e; cases "e_loc e")
      (auto simp: entry_bytes_def entry_of_bytes_def location_of_location_bytes of_le_full entry_ok_def)
qed

text \<open>The entries in the bytes of a file, as far as they are complete.\<close>

fun entries_of_bytes :: "bool \<Rightarrow> nat \<Rightarrow> u8 list \<Rightarrow> entry list" where
  "entries_of_bytes hash 0 bs = []"
| "entries_of_bytes hash (Suc n) bs =
     entry_of_bytes hash bs # entries_of_bytes hash n (drop (Entry_getDataSize hash) bs)"

definition file_entries :: "bool \<Rightarrow> u8 list \<Rightarrow> entry list" where
  "file_entries hash bs = entries_of_bytes hash (length bs div Entry_getDataSize hash) bs"

definition entries_bytes :: "bool \<Rightarrow> entry list \<Rightarrow> u8 list" where
  "entries_bytes hash es = concat (map (entry_bytes hash) es)"

subsection \<open>Backward reader\<close>

text \<open>
  What is fixed for the process: whether hashes are stored, which checksum routine was chosen, and
  the remainder of the addresses of buffers.
\<close>

record tlog_env =
  te_hash :: bool
  te_hw :: bool
  te_addr :: nat

text \<open>\<open>setFileSize_\<close> of \<open>OneFileTLogReader\<close>: incomplete entries at the end of the file are cut off.\<close>

definition setFileSize :: "bool \<Rightarrow> u8 list \<Rightarrow> u8 list" where
  "setFileSize hash file =
     (let rest = length file mod Entry_getDataSize hash
      in if rest \<noteq> 0 then take (length file - rest) file else file)"

text \<open>\<open>br_pos\<close> is the position of the file descriptor, \<open>br_buf_pos\<close> the entries left in the buffer.\<close>

record backward_reader =
  br_file :: "u8 list"
  br_pos :: nat
  br_entries :: "entry list"
  br_buf_pos :: nat
  br_buf_size :: nat

definition BackwardTLogReader_new :: "bool \<Rightarrow> nat \<Rightarrow> u8 list \<Rightarrow> backward_reader" where
  "BackwardTLogReader_new hash cache_size file =
     (let f = setFileSize hash file
      in \<lparr>br_file = f, br_pos = length f, br_entries = [], br_buf_pos = 0,
          br_buf_size = (cache_size * Entry_getDataSize hash) mod 2 ^ 32\<rparr>)"

definition br_maybe_refresh_buffer :: "bool \<Rightarrow> (backward_reader, bool) sm" where
  "br_maybe_refresh_buffer hash =
     sbind (sget (\<lambda>r. r)) (\<lambda>r.
       if br_buf_pos r = 0
       then let m = min (br_buf_size r) (br_pos r);
                offset = br_pos r - m;
                bytes = take m (drop offset (br_file r))
            in sbind (sverify (length bytes mod Entry_getDataSize hash = 0)
                        ''buf_pos % Entry::getDataSize() == 0'') (\<lambda>_.
               sbind (sverify (length bytes = m) ''(uint64_t)buf_pos == min'') (\<lambda>_.
               sbind (smod (\<lambda>r. r\<lparr>br_pos := offset, br_entries := file_entries hash bytes,
                                 br_buf_pos := length bytes div Entry_getDataSize hash\<rparr>)) (\<lambda>_.
               sget (\<lambda>r. br_buf_pos r \<noteq> 0))))
       else sret True)"

definition br_nextAny :: "bool \<Rightarrow> (backward_reader, entry option) sm" where
  "br_nextAny hash =
     sbind (br_maybe_refresh_buffer hash) (\<lambda>more.
       if more
       then sbind (smod (\<lambda>r. r\<lparr>br_buf_pos := br_buf_pos r - 1\<rparr>)) (\<lambda>_.
            sget (\<lambda>r. Some (br_entries r ! br_buf_pos r)))
       else sret None)"

subsection \<open>Forward reader\<close>

record tlog_reader =
  tr_rest :: "u8 list"
  tr_entries :: "entry list"
  tr_buf_pos :: nat
  tr_max_pos :: nat
  tr_buf_size :: nat
  tr_checksum :: checksum

definition TLogReader_new :: "bool \<Rightarrow> nat \<Rightarrow> u8 list \<Rightarrow> tlog_reader" where
  "TLogReader_new hash cache_size file =
     \<lparr>tr_rest = setFileSize hash file, tr_entries = [], tr_buf_pos = 0, tr_max_pos = 0,
      tr_buf_size = (cache_size * Entry_getDataSize hash) mod 2 ^ 32, tr_checksum = CheckSum_new\<rparr>"

definition tr_maybe_refresh_buffer :: "bool \<Rightarrow> (tlog_reader, bool) sm" where
  "tr_maybe_refresh_buffer hash =
     sbind (sget (\<lambda>r. r)) (\<lambda>r.
       if tr_buf_pos r = tr_max_pos r
       then let bytes = take (tr_buf_size r) (tr_rest r)
            in sbind (smod (\<lambda>r. r\<lparr>tr_buf_pos := 0, tr_max_pos := length bytes,
                                  tr_rest := drop (tr_buf_size r) (tr_rest r),
                                  tr_entries := file_entries hash bytes\<rparr>)) (\<lambda>_.
               sbind (sverify (length bytes mod Entry_getDataSize hash = 0)
                        ''max_pos % Entry::getDataSize() == 0'') (\<lambda>_.
               sbind (smod (\<lambda>r. r\<lparr>tr_max_pos := length bytes div Entry_getDataSize hash\<rparr>)) (\<lambda>_.
               sget (\<lambda>r. tr_max_pos r \<noteq> 0))))
       else sret True)"

definition tr_nextAny :: "tlog_env \<Rightarrow> (tlog_reader, entry option) sm" where
  "tr_nextAny env =
     sbind (sget (\<lambda>r. r)) (\<lambda>r.
     sbind (sverify (tr_max_pos r \<ge> tr_buf_pos r) ''max_pos >= buf_pos'') (\<lambda>_.
     sbind (tr_maybe_refresh_buffer (te_hash env)) (\<lambda>more.
       if more
       then sbind (sget (\<lambda>r. tr_entries r ! tr_buf_pos r)) (\<lambda>e.
            sbind (smod (\<lambda>r. r\<lparr>tr_buf_pos := tr_buf_pos r + 1,
                               tr_checksum := CheckSum_update (te_hw env) (te_addr env)
                                 (entry_bytes (te_hash env) e) (tr_checksum r)\<rparr>)) (\<lambda>_.
            sret (Some e)))
       else sret None)))"

subsection \<open>The entries in a file\<close>

lemma entry_of_bytes_append:
  "Entry_getDataSize hash \<le> length xs \<Longrightarrow> entry_of_bytes hash (xs @ ys) = entry_of_bytes hash xs"
  by (auto simp: entry_of_bytes_def Entry_getDataSize_def split: if_splits)

lemma entries_of_bytes_append:
  "n * Entry_getDataSize hash \<le> length xs \<Longrightarrow>
     entries_of_bytes hash n (xs @ ys) = entries_of_bytes hash n xs"
  by (induction n arbitrary: xs) (simp_all add: entry_of_bytes_append)

lemma entries_of_bytes_add:
  "entries_of_bytes hash (m + n) bs =
     entries_of_bytes hash m bs @ entries_of_bytes hash n (drop (m * Entry_getDataSize hash) bs)"
  by (induction m arbitrary: bs) (simp_all add: add.commute)

lemma length_entries_of_bytes [simp]: "length (entries_of_bytes hash n bs) = n"
  by (induction n arbitrary: bs) simp_all

lemma length_file_entries [simp]: "length (file_entries hash bs) = length bs div Entry_getDataSize hash"
  by (simp add: file_entries_def)

lemma file_entries_Nil [simp]: "file_entries hash [] = []"
  by (simp add: file_entries_def)

lemma file_entries_append:
  assumes "length xs mod Entry_getDataSize hash = 0"
  shows "file_entries hash (xs @ ys) = file_entries hash xs @ file_entries hash ys"
proof -
  let ?d = "Entry_getDataSize hash"
  from assms have d: "?d dvd length xs" by (simp add: dvd_eq_mod_eq_0)
  then have "(length xs + length ys) div ?d = length xs div ?d + length ys div ?d"
    by (rule div_plus_div_distrib_dvd_left)
  moreover from d have "length xs div ?d * ?d = length xs" by (rule dvd_div_mult_self)
  ultimately show ?thesis
    by (simp add: file_entries_def entries_of_bytes_add entries_of_bytes_append)
qed

lemma file_entries_entry: "file_entries hash (entry_bytes hash e) = [entry_of_bytes hash (entry_bytes hash e)]"
  by (simp add: file_entries_def)

lemma length_entries_bytes [simp]: "length (entries_bytes hash es) = length es * Entry_getDataSize hash"
  by (induction es) (simp_all add: entries_bytes_def)

lemma file_entries_bytes:
  "\<forall>e \<in> set es. entry_ok hash e \<Longrightarrow> file_entries hash (entries_bytes hash es) = es"
proof (induction es)
  case (Cons e es)
  then show ?case
    by (simp add: entries_bytes_def file_entries_append file_entries_entry entry_of_entry_bytes)
qed (simp add: entries_bytes_def)

lemma setFileSize_aligned [simp]: "length (setFileSize hash f) mod Entry_getDataSize hash = 0"
  by (simp add: setFileSize_def Let_def minus_mod_eq_mult_div)

lemma file_entries_setFileSize [simp]: "file_entries hash (setFileSize hash f) = file_entries hash f"
proof -
  let ?d = "Entry_getDataSize hash"
  have "file_entries hash (setFileSize hash f @ drop (length f - length f mod ?d) f) =
      file_entries hash (setFileSize hash f) @ file_entries hash (drop (length f - length f mod ?d) f)"
    by (rule file_entries_append) simp
  moreover have "setFileSize hash f @ drop (length f - length f mod ?d) f = f"
    by (simp add: setFileSize_def Let_def)
  moreover have "file_entries hash (drop (length f - length f mod ?d) f) = []"
    by (simp add: file_entries_def)
  ultimately show ?thesis by simp
qed

subsection \<open>What a reader promises\<close>

locale tlog_source =
  fixes nxt :: "('r, entry option) sm" and left :: "'r \<Rightarrow> entry list" and ok :: "'r \<Rightarrow> bool"
  assumes next_end:
      "ok r \<Longrightarrow> left r = [] \<Longrightarrow> \<exists>r'. nxt r = (Inr None, r') \<and> ok r' \<and> left r' = []"
    and next_entry:
      "ok r \<Longrightarrow> left r = e # es \<Longrightarrow> \<exists>r'. nxt r = (Inr (Some e), r') \<and> ok r' \<and> left r' = es"

definition tr_left :: "bool \<Rightarrow> tlog_reader \<Rightarrow> entry list" where
  "tr_left hash r = drop (tr_buf_pos r) (tr_entries r) @ file_entries hash (tr_rest r)"

definition tr_ok :: "bool \<Rightarrow> tlog_reader \<Rightarrow> bool" where
  "tr_ok hash r \<longleftrightarrow> tr_buf_pos r \<le> tr_max_pos r \<and> tr_max_pos r = length (tr_entries r) \<and>
     length (tr_rest r) mod Entry_getDataSize hash = 0 \<and>
     tr_buf_size r mod Entry_getDataSize hash = 0 \<and> 0 < tr_buf_size r"

text \<open>A refill moves the next part of the file into the buffer and loses nothing.\<close>

lemma tr_refresh:
  assumes "tr_ok hash r"
  shows "\<exists>r'. tr_maybe_refresh_buffer hash r = (Inr (tr_left hash r \<noteq> []), r') \<and> tr_ok hash r' \<and>
    tr_left hash r' = tr_left hash r \<and> (tr_left hash r \<noteq> [] \<longrightarrow> tr_buf_pos r' < tr_max_pos r')"
proof (cases "tr_buf_pos r = tr_max_pos r")
  case False
  with assms show ?thesis
    by (auto simp: tr_maybe_refresh_buffer_def sbind_def sget_def sret_def tr_ok_def tr_left_def)
next
  case True
  let ?d = "Entry_getDataSize hash" and ?bs = "take (tr_buf_size r) (tr_rest r)"
  let ?r = "r\<lparr>tr_buf_pos := 0, tr_max_pos := length ?bs div ?d,
      tr_rest := drop (tr_buf_size r) (tr_rest r), tr_entries := file_entries hash ?bs\<rparr>"
  have "?d dvd length (tr_rest r)" "?d dvd tr_buf_size r"
    using assms by (auto simp: tr_ok_def dvd_eq_mod_eq_0)
  then have "?d dvd length ?bs" "?d dvd length (drop (tr_buf_size r) (tr_rest r))"
    by (simp_all add: min_def dvd_diff_nat)
  then have al: "length ?bs mod ?d = 0" "length (drop (tr_buf_size r) (tr_rest r)) mod ?d = 0"
    by (simp_all only: dvd_eq_mod_eq_0)
  have "file_entries hash (?bs @ drop (tr_buf_size r) (tr_rest r)) =
      file_entries hash ?bs @ file_entries hash (drop (tr_buf_size r) (tr_rest r))"
    by (rule file_entries_append [OF al(1)])
  then have l: "tr_left hash ?r = tr_left hash r" using assms True by (simp add: tr_left_def tr_ok_def)
  have "tr_maybe_refresh_buffer hash r = (Inr (length ?bs div ?d \<noteq> 0), ?r)"
    using True al by (simp add: tr_maybe_refresh_buffer_def Let_def sbind_def sget_def smod_def sverify_def verify_def)
  moreover have "tr_ok hash ?r" using assms al by (simp add: tr_ok_def)
  moreover have "length ?bs div ?d \<noteq> 0 \<longleftrightarrow> tr_left hash r \<noteq> []"
  proof -
    have "?d \<le> tr_buf_size r" using assms by (intro dvd_imp_le) (auto simp: tr_ok_def dvd_eq_mod_eq_0)
    then have "?d \<le> length ?bs \<longleftrightarrow> ?d \<le> length (tr_rest r)" by auto
    moreover have "tr_left hash r \<noteq> [] \<longleftrightarrow> length (tr_rest r) div ?d \<noteq> 0"
      using True assms by (simp add: tr_left_def tr_ok_def flip: length_0_conv)
    ultimately show ?thesis by (auto simp: div_eq_0_iff min_less_iff_disj)
  qed
  ultimately show ?thesis using l by auto
qed

lemma tr_next_end:
  assumes "tr_ok (te_hash env) r" and "tr_left (te_hash env) r = []"
  shows "\<exists>r'. tr_nextAny env r = (Inr None, r') \<and> tr_ok (te_hash env) r' \<and> tr_left (te_hash env) r' = []"
proof -
  from tr_refresh [OF assms(1)] assms(2) obtain r1 where
    "tr_maybe_refresh_buffer (te_hash env) r = (Inr False, r1)" "tr_ok (te_hash env) r1" "tr_left (te_hash env) r1 = []"
    by auto
  moreover have "tr_buf_pos r \<le> tr_max_pos r" using assms(1) by (simp add: tr_ok_def)
  ultimately show ?thesis
    by (simp add: tr_nextAny_def sbind_def sget_def sverify_def verify_def sret_def)
qed

lemma tr_next_entry:
  assumes "tr_ok (te_hash env) r" and "tr_left (te_hash env) r = e # es"
  shows "\<exists>r'. tr_nextAny env r = (Inr (Some e), r') \<and> tr_ok (te_hash env) r' \<and> tr_left (te_hash env) r' = es"
proof -
  from tr_refresh [OF assms(1)] assms(2) obtain r1 where
      f: "tr_maybe_refresh_buffer (te_hash env) r = (Inr True, r1)" and k: "tr_ok (te_hash env) r1"
    and l: "tr_left (te_hash env) r1 = e # es" and p: "tr_buf_pos r1 < tr_max_pos r1"
    by auto
  have lt: "tr_buf_pos r1 < length (tr_entries r1)" using k p by (simp add: tr_ok_def)
  with l have e: "tr_entries r1 ! tr_buf_pos r1 = e"
    and es: "drop (Suc (tr_buf_pos r1)) (tr_entries r1) @ file_entries (te_hash env) (tr_rest r1) = es"
    by (simp_all add: tr_left_def flip: Cons_nth_drop_Suc)
  let ?r = "r1\<lparr>tr_buf_pos := tr_buf_pos r1 + 1, tr_checksum := CheckSum_update (te_hw env) (te_addr env)
      (entry_bytes (te_hash env) e) (tr_checksum r1)\<rparr>"
  have "tr_buf_pos r \<le> tr_max_pos r" using assms(1) by (simp add: tr_ok_def)
  with f e have "tr_nextAny env r = (Inr (Some e), ?r)"
    by (simp add: tr_nextAny_def sbind_def sget_def sverify_def verify_def sret_def smod_def)
  moreover have "tr_ok (te_hash env) ?r \<and> tr_left (te_hash env) ?r = es"
    using k p es by (simp add: tr_ok_def tr_left_def)
  ultimately show ?thesis by blast
qed

interpretation fwd: tlog_source "tr_nextAny env" "tr_left (te_hash env)" "tr_ok (te_hash env)" for env
  by unfold_locales (rule tr_next_end, assumption+, rule tr_next_entry, assumption+)

lemma TLogReader_new_ok:
  assumes "0 < cache_size" and "cache_size * Entry_getDataSize hash < 2 ^ 32"
  shows "tr_ok hash (TLogReader_new hash cache_size file)"
    and "tr_left hash (TLogReader_new hash cache_size file) = file_entries hash file"
  using assms by (simp_all add: tr_ok_def tr_left_def TLogReader_new_def)

text \<open>The backward reader has the entries in reverse order.\<close>

definition br_left :: "bool \<Rightarrow> backward_reader \<Rightarrow> entry list" where
  "br_left hash r = rev (take (br_buf_pos r) (br_entries r)) @ rev (file_entries hash (take (br_pos r) (br_file r)))"

definition br_ok :: "bool \<Rightarrow> backward_reader \<Rightarrow> bool" where
  "br_ok hash r \<longleftrightarrow> br_pos r \<le> length (br_file r) \<and> br_pos r mod Entry_getDataSize hash = 0 \<and>
     br_buf_pos r \<le> length (br_entries r) \<and> br_buf_size r mod Entry_getDataSize hash = 0 \<and> 0 < br_buf_size r"

lemma br_refresh:
  assumes "br_ok hash r"
  shows "\<exists>r'. br_maybe_refresh_buffer hash r = (Inr (br_left hash r \<noteq> []), r') \<and> br_ok hash r' \<and>
    br_left hash r' = br_left hash r \<and> (br_left hash r \<noteq> [] \<longrightarrow> 0 < br_buf_pos r')"
proof (cases "br_buf_pos r = 0")
  case False
  with assms show ?thesis
    by (auto simp: br_maybe_refresh_buffer_def sbind_def sget_def sret_def br_ok_def br_left_def)
next
  case True
  let ?d = "Entry_getDataSize hash"
  define m where "m = min (br_buf_size r) (br_pos r)"
  define bs where "bs = take m (drop (br_pos r - m) (br_file r))"
  let ?r = "r\<lparr>br_pos := br_pos r - m, br_entries := file_entries hash bs, br_buf_pos := length bs div ?d\<rparr>"
  have dv: "?d dvd br_pos r" "?d dvd br_buf_size r" and pos: "br_pos r \<le> length (br_file r)"
    using assms by (auto simp: br_ok_def dvd_eq_mod_eq_0)
  have m: "m \<le> br_pos r" "?d dvd m" "?d dvd br_pos r - m" using dv by (auto simp: m_def min_def dvd_diff_nat)
  have lb: "length bs = m" using m pos by (simp add: bs_def)
  have "take (br_pos r) (br_file r) = take (br_pos r - m) (br_file r) @ bs"
    using m take_add [of "br_pos r - m" m "br_file r"] by (simp add: bs_def)
  then have l: "br_left hash ?r = br_left hash r"
    using True m pos file_entries_append [of "take (br_pos r - m) (br_file r)" hash bs]
    by (simp add: br_left_def dvd_eq_mod_eq_0 lb)
  have "br_maybe_refresh_buffer hash r = (Inr (length bs div ?d \<noteq> 0), ?r)"
    using True m(2) lb unfolding br_maybe_refresh_buffer_def Let_def sbind_def sget_def
    by (simp add: smod_def sverify_def verify_def dvd_eq_mod_eq_0 flip: m_def bs_def del: length_take)
  moreover have "br_ok hash ?r"
    using assms m by (auto simp: br_ok_def dvd_eq_mod_eq_0 lb)
  moreover have "m div ?d \<noteq> 0 \<longleftrightarrow> br_left hash r \<noteq> []"
  proof -
    have "?d \<le> br_buf_size r" using assms dv by (intro dvd_imp_le) (auto simp: br_ok_def)
    then have "?d \<le> m \<longleftrightarrow> ?d \<le> br_pos r" by (auto simp: m_def)
    moreover have "br_left hash r \<noteq> [] \<longleftrightarrow> br_pos r div ?d \<noteq> 0"
      using True pos by (simp add: br_left_def flip: length_0_conv)
    ultimately show ?thesis by (auto simp: div_eq_0_iff)
  qed
  ultimately show ?thesis using l by (auto simp: lb)
qed

lemma br_next_end:
  assumes "br_ok hash r" and "br_left hash r = []"
  shows "\<exists>r'. br_nextAny hash r = (Inr None, r') \<and> br_ok hash r' \<and> br_left hash r' = []"
  using br_refresh [OF assms(1)] assms(2) by (auto simp: br_nextAny_def sbind_def sret_def)

lemma br_next_entry:
  assumes "br_ok hash r" and "br_left hash r = e # es"
  shows "\<exists>r'. br_nextAny hash r = (Inr (Some e), r') \<and> br_ok hash r' \<and> br_left hash r' = es"
proof -
  from br_refresh [OF assms(1)] assms(2) obtain r1 where
      f: "br_maybe_refresh_buffer hash r = (Inr True, r1)" and k: "br_ok hash r1"
    and l: "br_left hash r1 = e # es" and p: "0 < br_buf_pos r1"
    by auto
  then obtain n where n: "br_buf_pos r1 = Suc n" by (cases "br_buf_pos r1") auto
  with k have lt: "n < length (br_entries r1)" by (simp add: br_ok_def)
  with l n have "br_entries r1 ! n = e"
      "rev (take n (br_entries r1)) @ rev (file_entries hash (take (br_pos r1) (br_file r1))) = es"
    by (simp_all add: br_left_def take_Suc_conv_app_nth)
  with f n k show ?thesis
    by (auto simp: br_nextAny_def sbind_def sget_def smod_def br_ok_def br_left_def)
qed

interpretation bwd: tlog_source "br_nextAny hash" "br_left hash" "br_ok hash" for hash
  by unfold_locales (rule br_next_end, assumption+, rule br_next_entry, assumption+)

lemma BackwardTLogReader_new_ok:
  assumes "0 < cache_size" and "cache_size * Entry_getDataSize hash < 2 ^ 32"
  shows "br_ok hash (BackwardTLogReader_new hash cache_size file)"
    and "br_left hash (BackwardTLogReader_new hash cache_size file) = rev (file_entries hash file)"
  using assms by (simp_all add: br_ok_def br_left_def BackwardTLogReader_new_def Let_def)

subsection \<open>Combined reader\<close>

text \<open>
  \<open>TLogReaderGen\<close> opens the TLogs one after the other; the state is the reader of the current TLog
  and the contents of the files that are still to be opened. \<open>cs\<close> is the size of a reader's buffer.
\<close>

type_synonym combined_reader = "tlog_reader option \<times> u8 list list"

definition TLogReaderGen_update :: "bool \<Rightarrow> nat \<Rightarrow> u8 list list \<Rightarrow> combined_reader" where
  "TLogReaderGen_update hash cs items =
     (case items of [] \<Rightarrow> (None, []) | f # fs \<Rightarrow> (Some (TLogReader_new hash cs f), fs))"

function combined_nextAny :: "tlog_env \<Rightarrow> nat \<Rightarrow> (combined_reader, entry option) sm" where
  "combined_nextAny env cs (None, items) = (Inr None, (None, items))"
| "combined_nextAny env cs (Some r, items) =
     (case tr_nextAny env r of
        (Inl e, r') \<Rightarrow> (Inl e, (Some r', items))
      | (Inr (Some e), r') \<Rightarrow> (Inr (Some e), (Some r', items))
      | (Inr None, r') \<Rightarrow> combined_nextAny env cs (TLogReaderGen_update (te_hash env) cs items))"
  by pat_completeness auto
termination
  by (relation "measure (\<lambda>(env, cs, c, items). length items + (if c = None then 0 else 1))")
    (auto simp: TLogReaderGen_update_def split: list.splits)

definition combined_left :: "bool \<Rightarrow> combined_reader \<Rightarrow> entry list" where
  "combined_left hash c =
     (case fst c of None \<Rightarrow> [] | Some r \<Rightarrow> tr_left hash r) @ concat (map (file_entries hash) (snd c))"

definition combined_ok :: "bool \<Rightarrow> nat \<Rightarrow> combined_reader \<Rightarrow> bool" where
  "combined_ok hash cs c \<longleftrightarrow> 0 < cs \<and> cs * Entry_getDataSize hash < 2 ^ 32 \<and>
     (case fst c of None \<Rightarrow> snd c = [] | Some r \<Rightarrow> tr_ok hash r)"

lemma combined_update:
  assumes "0 < cs" and "cs * Entry_getDataSize hash < 2 ^ 32"
  shows "combined_ok hash cs (TLogReaderGen_update hash cs items)"
    and "combined_left hash (TLogReaderGen_update hash cs items) = concat (map (file_entries hash) items)"
  using assms TLogReader_new_ok [of cs hash]
  by (auto simp: combined_ok_def combined_left_def TLogReaderGen_update_def split: list.splits)

lemma combined_next:
  assumes "combined_ok (te_hash env) cs c"
  shows "\<exists>c'. combined_nextAny env cs c =
      (Inr (case combined_left (te_hash env) c of [] \<Rightarrow> None | e # _ \<Rightarrow> Some e), c') \<and>
    combined_ok (te_hash env) cs c' \<and> combined_left (te_hash env) c' = tl (combined_left (te_hash env) c)"
  using assms
proof (induction env cs c rule: combined_nextAny.induct)
  case (1 env cs items)
  then show ?case by (auto simp: combined_ok_def combined_left_def)
next
  case (2 env cs r items)
  have ok: "tr_ok (te_hash env) r" using "2.prems" by (simp add: combined_ok_def)
  show ?case
  proof (cases "tr_left (te_hash env) r")
    case (Cons e es)
    from tr_next_entry [OF ok this] Cons "2.prems" show ?thesis
      by (auto simp: combined_left_def combined_ok_def)
  next
    case Nil
    from tr_next_end [OF ok this] obtain r' where n: "tr_nextAny env r = (Inr None, r')" by blast
    have cs: "0 < cs" "cs * Entry_getDataSize (te_hash env) < 2 ^ 32"
      using "2.prems" by (auto simp: combined_ok_def)
    have "combined_left (te_hash env) (Some r, items) =
        combined_left (te_hash env) (TLogReaderGen_update (te_hash env) cs items)"
      using Nil by (simp add: combined_update(2) [OF cs]) (simp add: combined_left_def)
    with "2.IH" [OF n [symmetric] refl refl combined_update(1) [OF cs]] n show ?thesis by simp
  qed
qed

interpretation comb: tlog_source "combined_nextAny env cs" "combined_left (te_hash env)"
  "combined_ok (te_hash env) cs" for env cs
  by unfold_locales (use combined_next in \<open>fastforce+\<close>)

subsection \<open>Operations on any reader\<close>

definition isLocation :: "entry \<Rightarrow> bool" where
  "isLocation e = Entry_is LOC e"

partial_function (option) nextLocation ::
  "('r, entry option) sm \<Rightarrow> 'r \<Rightarrow> (entry option result \<times> 'r) option" where
  "nextLocation nxt r =
     (case nxt r of (x, r') \<Rightarrow>
      case x of
        Inl err \<Rightarrow> Some (Inl err, r')
      | Inr me \<Rightarrow>
          (case me of
             None \<Rightarrow> Some (Inr None, r')
           | Some e \<Rightarrow> if isLocation e then Some (Inr (Some e), r') else nextLocation nxt r'))"

text \<open>\<open>for_each\<close>: every entry in order, as a list.\<close>

partial_function (option) read_all ::
  "('r, entry option) sm \<Rightarrow> 'r \<Rightarrow> entry list \<Rightarrow> (entry list result \<times> 'r) option" where
  "read_all nxt r acc =
     (case nxt r of (x, r') \<Rightarrow>
      case x of
        Inl err \<Rightarrow> Some (Inl err, r')
      | Inr me \<Rightarrow>
          (case me of
             None \<Rightarrow> Some (Inr (rev acc), r')
           | Some e \<Rightarrow> read_all nxt r' (e # acc)))"

partial_function (option) SCONames ::
  "('r, entry option) sm \<Rightarrow> sco \<Rightarrow> 'r \<Rightarrow> sco list \<Rightarrow> (sco list result \<times> 'r) option" where
  "SCONames nxt prevContainer r out =
     (case nextLocation nxt r of
        None \<Rightarrow> None
      | Some p \<Rightarrow>
          (case p of (x, r') \<Rightarrow>
           case x of
             Inl err \<Rightarrow> Some (Inl err, r')
           | Inr me \<Rightarrow>
               (case me of
                  None \<Rightarrow> Some (Inr out, r')
                | Some e \<Rightarrow>
                    (let tmp = cl_sco (clusterLocation (e_loc e))
                     in if tmp \<noteq> prevContainer then SCONames nxt tmp r' (out @ [tmp])
                        else SCONames nxt prevContainer r' out))))"

context tlog_source
begin

lemma nextLocation_ok:
  assumes "ok r"
  shows "\<exists>r'. ok r' \<and> nextLocation nxt r =
      Some (Inr (case filter isLocation (left r) of [] \<Rightarrow> None | e # _ \<Rightarrow> Some e), r') \<and>
    filter isLocation (left r') = tl (filter isLocation (left r)) \<and>
    length (left r') \<le> length (left r) - 1"
  using assms
proof (induction "left r" arbitrary: r)
  case Nil
  from next_end [OF Nil.prems Nil.hyps [symmetric]] Nil.hyps show ?case
    by (auto simp: nextLocation.simps)
next
  case (Cons e es)
  from next_entry [OF Cons.prems Cons.hyps(2) [symmetric]] obtain r1 where
    n: "nxt r = (Inr (Some e), r1)" "ok r1" "left r1 = es" by blast
  show ?case
  proof (cases "isLocation e")
    case True
    with n Cons.hyps(2) [symmetric] show ?thesis by (auto simp: nextLocation.simps [of nxt r])
  next
    case False
    with Cons.hyps(1) [OF n(3) [symmetric] n(2)] n Cons.hyps(2) [symmetric] show ?thesis
      by (auto simp: nextLocation.simps [of nxt r])
  qed
qed

lemma read_all_ok:
  assumes "ok r"
  shows "\<exists>r'. ok r' \<and> left r' = [] \<and> read_all nxt r acc = Some (Inr (rev acc @ left r), r')"
  using assms
proof (induction "left r" arbitrary: r acc)
  case Nil
  from next_end [OF Nil.prems Nil.hyps [symmetric]] Nil.hyps show ?case
    by (auto simp: read_all.simps)
next
  case (Cons e es)
  from next_entry [OF Cons.prems Cons.hyps(2) [symmetric]] obtain r1 where
    n: "nxt r = (Inr (Some e), r1)" "ok r1" "left r1 = es" by blast
  from Cons.hyps(1) [OF n(3) [symmetric] n(2), of "e # acc"] n Cons.hyps(2) [symmetric] show ?case
    by (simp add: read_all.simps [of nxt r])
qed

lemma SCONames_ok:
  assumes "ok r"
  shows "\<exists>r'. ok r' \<and> SCONames nxt prev r out =
    Some (Inr (out @ tl (remdups_adj (prev # map (\<lambda>e. cl_sco (clusterLocation (e_loc e))) (filter isLocation (left r))))), r')"
  using assms
proof (induction "filter isLocation (left r)" arbitrary: r prev out)
  case Nil
  from nextLocation_ok [OF Nil.prems] Nil.hyps [symmetric] show ?case
    by (auto simp: SCONames.simps [of nxt prev r])
next
  case (Cons e es)
  from nextLocation_ok [OF Cons.prems] Cons.hyps(2) [symmetric] obtain r1 where
    n: "nextLocation nxt r = Some (Inr (Some e), r1)" "ok r1" "filter isLocation (left r1) = es" by auto
  let ?t = "cl_sco (clusterLocation (e_loc e))"
  show ?case
  proof (cases "?t = prev")
    case True
    with Cons.hyps(1) [OF n(3) [symmetric] n(2), of prev out] n Cons.hyps(2) [symmetric] show ?thesis
      by (simp add: SCONames.simps [of nxt prev r])
  next
    case False
    with Cons.hyps(1) [OF n(3) [symmetric] n(2), of ?t "out @ [?t]"] n Cons.hyps(2) [symmetric] show ?thesis
      by (cases es) (auto simp: SCONames.simps [of nxt prev r] Let_def)
  qed
qed

end

subsection \<open>Writer\<close>

text \<open>\<open>tw_buf\<close> are the entries between \<^verbatim>\<open>&buf[0]\<close> and \<^verbatim>\<open>current_entry_\<close>, at most \<open>tw_capacity\<close>.\<close>

record tlog_writer =
  tw_file :: "u8 list"
  tw_checksum :: checksum
  tw_entriesWritten :: u64
  tw_lastClusterLocation :: cluster_location
  tw_buf :: "entry list"
  tw_capacity :: nat

text \<open>\<open>FileUtils::calculate_checksum\<close> reads the file page by page; \<open>n\<close> is the size of a page.\<close>

function checksum_pages :: "tlog_env \<Rightarrow> nat \<Rightarrow> u8 list \<Rightarrow> checksum \<Rightarrow> checksum" where
  "checksum_pages env n f cs =
     (if f = [] \<or> n = 0 then cs
      else checksum_pages env n (drop n f) (CheckSum_update (te_hw env) (te_addr env) (take n f) cs))"
  by auto
termination
  by (relation "measure (\<lambda>(env, n, f, cs). length f)") auto

declare checksum_pages.simps [simp del]

definition calculate_checksum :: "tlog_env \<Rightarrow> nat \<Rightarrow> u8 list \<Rightarrow> checksum" where
  "calculate_checksum env page_size f = checksum_pages env page_size f CheckSum_new"

text \<open>\<open>rc\<close> and \<open>ps\<close> are the buffer size of the backward reader and the page size of the system.\<close>

definition TLogWriter_new :: "tlog_env \<Rightarrow> nat \<Rightarrow> nat \<Rightarrow> nat \<Rightarrow> u8 list \<Rightarrow> tlog_writer result" where
  "TLogWriter_new env rc ps numBuffered file =
     (if file \<noteq> []
      then if length file mod Entry_getDataSize (te_hash env) \<noteq> 0
           then Inl (IOException ''trailing garbage in tlog'')
           else case nextLocation (br_nextAny (te_hash env))
                       (BackwardTLogReader_new (te_hash env) rc file) of
                  None \<Rightarrow> Inl UndefinedBehaviour
                | Some (Inl err, _) \<Rightarrow> Inl err
                | Some (Inr me, _) \<Rightarrow>
                    Inr \<lparr>tw_file = file, tw_checksum = calculate_checksum env ps file,
                         tw_entriesWritten = 0,
                         tw_lastClusterLocation =
                           (case me of None \<Rightarrow> null_location | Some e \<Rightarrow> clusterLocation (e_loc e)),
                         tw_buf = [], tw_capacity = numBuffered\<rparr>
      else Inr \<lparr>tw_file = [], tw_checksum = CheckSum_new, tw_entriesWritten = 0,
                tw_lastClusterLocation = null_location, tw_buf = [], tw_capacity = numBuffered\<rparr>)"

definition tw_maybe_refresh_buffer :: "bool \<Rightarrow> bool \<Rightarrow> (tlog_writer, unit) sm" where
  "tw_maybe_refresh_buffer hash force =
     smod (\<lambda>w. if (force \<and> tw_buf w \<noteq> []) \<or> length (tw_buf w) = tw_capacity w
               then w\<lparr>tw_file := tw_file w @ entries_bytes hash (tw_buf w), tw_buf := []\<rparr> else w)"

definition tw_place :: "tlog_env \<Rightarrow> bool \<Rightarrow> entry result \<Rightarrow> (tlog_writer, unit) sm" where
  "tw_place env synch ctor =
     sbind (tw_maybe_refresh_buffer (te_hash env) False) (\<lambda>_.
     sbind (slift ctor) (\<lambda>e.
     sbind (smod (\<lambda>w. w\<lparr>tw_checksum := CheckSum_update (te_hw env) (te_addr env)
                           (entry_bytes (te_hash env) e) (tw_checksum w),
                         tw_buf := tw_buf w @ [e],
                         tw_entriesWritten := tw_entriesWritten w + 1\<rparr>)) (\<lambda>_.
       if synch then tw_maybe_refresh_buffer (te_hash env) True else sret ())))"

definition TLogWriter_add :: "tlog_env \<Rightarrow> u64 \<Rightarrow> clh \<Rightarrow> (tlog_writer, unit) sm" where
  "TLogWriter_add env address loc =
     sbind (smod (\<lambda>w. w\<lparr>tw_lastClusterLocation := clusterLocation loc\<rparr>)) (\<lambda>_.
     tw_place env False (Entry_loc address loc))"

definition TLogWriter_add_crc :: "tlog_env \<Rightarrow> checksum \<Rightarrow> (tlog_writer, unit) sm" where
  "TLogWriter_add_crc env cs = tw_place env False (Entry_crc (CheckSum_getValue cs) SCOCRC)"

definition TLogWriter_add_sync :: "tlog_env \<Rightarrow> (tlog_writer, unit) sm" where
  "TLogWriter_add_sync env = tw_place env True (Inr Entry_sync)"

definition TLogWriter_close :: "tlog_env \<Rightarrow> (tlog_writer, checksum) sm" where
  "TLogWriter_close env =
     sbind (sget (\<lambda>w. Entry_crc (CheckSum_getValue (tw_checksum w)) TLogCRC)) (\<lambda>e.
     sbind (tw_place env True e) (\<lambda>_. sget tw_checksum))"

definition TLogWriter_sync :: "tlog_env \<Rightarrow> (tlog_writer, unit) sm" where
  "TLogWriter_sync env = tw_maybe_refresh_buffer (te_hash env) True"

subsection \<open>What was written\<close>

text \<open>The bytes of a TLog: the file and the entries that are still in the buffer.\<close>

definition tw_bytes :: "bool \<Rightarrow> tlog_writer \<Rightarrow> u8 list" where
  "tw_bytes hash w = tw_file w @ entries_bytes hash (tw_buf w)"

definition tw_inv :: "tlog_env \<Rightarrow> tlog_writer \<Rightarrow> bool" where
  "tw_inv env w \<longleftrightarrow>
     tw_checksum w = CheckSum_update (te_hw env) (te_addr env) (tw_bytes (te_hash env) w) CheckSum_new"

lemma update_append:
  "CheckSum_update hw a ys (CheckSum_update hw a xs cs) = CheckSum_update hw a (xs @ ys) cs"
  by (cases cs) (simp add: CheckSum_update_def crc32c_sw_spec crc32c_hw_spec crc_spec_append)

lemma update_Nil [simp]: "CheckSum_update hw a [] cs = cs"
  by (cases cs) (simp add: CheckSum_update_def crc32c_sw_spec crc32c_hw_spec crc_spec_def)

lemma checksum_pages_spec:
  "0 < n \<Longrightarrow> checksum_pages env n f cs = CheckSum_update (te_hw env) (te_addr env) f cs"
proof (induction env n f cs rule: checksum_pages.induct)
  case (1 env n f cs)
  then show ?case
    by (subst checksum_pages.simps) (auto simp: update_append)
qed

lemma entries_bytes_snoc: "entries_bytes hash (es @ [e]) = entries_bytes hash es @ entry_bytes hash e"
  by (simp add: entries_bytes_def)

lemma tw_refresh_bytes:
  "tw_maybe_refresh_buffer hash force w = (Inr (), w') \<Longrightarrow>
     tw_bytes hash w' = tw_bytes hash w \<and> tw_checksum w' = tw_checksum w \<and>
     tw_lastClusterLocation w' = tw_lastClusterLocation w \<and> (force \<longrightarrow> tw_buf w' = [])"
  by (auto simp: tw_maybe_refresh_buffer_def tw_bytes_def entries_bytes_def split: if_splits)

lemma tw_place_ok:
  assumes "tw_place env sync ctor w = (Inr (), w')"
  shows "\<exists>e. ctor = Inr e \<and> tw_bytes (te_hash env) w' = tw_bytes (te_hash env) w @ entry_bytes (te_hash env) e \<and>
    (tw_inv env w \<longrightarrow> tw_inv env w') \<and> (sync \<longrightarrow> tw_buf w' = [])"
proof -
  from assms obtain w1 e where r: "tw_maybe_refresh_buffer (te_hash env) False w = (Inr (), w1)"
    and e: "ctor = Inr e" and f: "(if sync then tw_maybe_refresh_buffer (te_hash env) True else sret ())
      (w1\<lparr>tw_checksum := CheckSum_update (te_hw env) (te_addr env) (entry_bytes (te_hash env) e) (tw_checksum w1),
          tw_buf := tw_buf w1 @ [e], tw_entriesWritten := tw_entriesWritten w1 + 1\<rparr>) = (Inr (), w')"
    by (auto simp: tw_place_def)
  let ?w2 = "w1\<lparr>tw_checksum := CheckSum_update (te_hw env) (te_addr env) (entry_bytes (te_hash env) e) (tw_checksum w1),
          tw_buf := tw_buf w1 @ [e], tw_entriesWritten := tw_entriesWritten w1 + 1\<rparr>"
  note a = tw_refresh_bytes [OF r]
  have b: "tw_bytes (te_hash env) w' = tw_bytes (te_hash env) ?w2 \<and> tw_checksum w' = tw_checksum ?w2 \<and>
      (sync \<longrightarrow> tw_buf w' = [])"
    using f tw_refresh_bytes [of "te_hash env" True ?w2 w'] by (cases sync) auto
  have c: "tw_bytes (te_hash env) ?w2 = tw_bytes (te_hash env) w @ entry_bytes (te_hash env) e"
    using a by (simp add: tw_bytes_def entries_bytes_snoc)
  have "tw_inv env w \<longrightarrow> tw_inv env w'"
    using a b c unfolding tw_inv_def by (simp add: update_append)
  with b c e show ?thesis by auto
qed

datatype tlog_op = AddLoc u64 clh | AddCRC checksum | AddSync | SyncFile

fun tlog_run :: "tlog_env \<Rightarrow> tlog_op \<Rightarrow> (tlog_writer, unit) sm" where
  "tlog_run env (AddLoc ca loc) = TLogWriter_add env ca loc"
| "tlog_run env (AddCRC cs) = TLogWriter_add_crc env cs"
| "tlog_run env AddSync = TLogWriter_add_sync env"
| "tlog_run env SyncFile = TLogWriter_sync env"

text \<open>The entries an operation stands for.\<close>

fun tlog_op_entries :: "tlog_op \<Rightarrow> entry list" where
  "tlog_op_entries (AddLoc ca loc) = [\<lparr>e_clusteraddress = ca, e_loc = loc\<rparr>]"
| "tlog_op_entries (AddCRC cs) = [projr (Entry_crc (CheckSum_getValue cs) SCOCRC)]"
| "tlog_op_entries AddSync = [Entry_sync]"
| "tlog_op_entries SyncFile = []"

lemma tlog_run_ok:
  assumes "tlog_run env op w = (Inr (), w')" and "tw_inv env w"
  shows "tw_inv env w' \<and>
    tw_bytes (te_hash env) w' = tw_bytes (te_hash env) w @ entries_bytes (te_hash env) (tlog_op_entries op)"
proof (cases op)
  case (AddLoc ca loc)
  let ?w = "w\<lparr>tw_lastClusterLocation := clusterLocation loc\<rparr>"
  from assms(1) AddLoc have p: "tw_place env False (Entry_loc ca loc) ?w = (Inr (), w')"
    by (simp add: TLogWriter_add_def)
  have "tw_inv env ?w" "tw_bytes (te_hash env) ?w = tw_bytes (te_hash env) w"
    using assms(2) by (simp_all add: tw_inv_def tw_bytes_def)
  with tw_place_ok [OF p] AddLoc show ?thesis
    by (auto simp: Entry_loc_def entries_bytes_def)
next
  case (AddCRC cs)
  with assms tw_place_ok [of env False "Entry_crc (CheckSum_getValue cs) SCOCRC" w w'] show ?thesis
    by (auto simp: TLogWriter_add_crc_def entries_bytes_def)
next
  case AddSync
  with assms tw_place_ok [of env True "Inr Entry_sync" w w'] show ?thesis
    by (auto simp: TLogWriter_add_sync_def entries_bytes_def)
next
  case SyncFile
  with assms tw_refresh_bytes [of "te_hash env" True w w'] show ?thesis
    by (auto simp: TLogWriter_sync_def entries_bytes_def tw_inv_def)
qed

lemma tlog_runs_ok:
  assumes "sfor ops (tlog_run env) w = (Inr (), w')" and "tw_inv env w"
  shows "tw_inv env w' \<and> tw_bytes (te_hash env) w' =
    tw_bytes (te_hash env) w @ entries_bytes (te_hash env) (concat (map tlog_op_entries ops))"
  using assms
proof (induction ops arbitrary: w)
  case (Cons op ops)
  from Cons.prems(1) obtain w1 where 1: "tlog_run env op w = (Inr (), w1)"
    and 2: "sfor ops (tlog_run env) w1 = (Inr (), w')" by auto
  note o = tlog_run_ok [OF 1 Cons.prems(2)]
  from Cons.IH [OF 2 conjunct1 [OF o]] o show ?case by (simp add: entries_bytes_def)
qed (simp add: entries_bytes_def)

lemma TLogWriter_new_ok:
  assumes "TLogWriter_new env rc ps nb f = Inr w" and "0 < ps"
  shows "tw_inv env w \<and> tw_bytes (te_hash env) w = f \<and> length f mod Entry_getDataSize (te_hash env) = 0"
  using assms
  by (auto simp: TLogWriter_new_def tw_inv_def tw_bytes_def entries_bytes_def calculate_checksum_def
      checksum_pages_spec split: if_splits option.splits sum.splits)

lemma Entry_crc_ok: "Entry_crc v t = Inr e \<Longrightarrow> entry_ok hash e"
  by (auto simp: Entry_crc_def entry_ok_def clh_zero_def)

lemma tlog_op_entries_ok:
  assumes "\<forall>ca loc. AddLoc ca loc \<in> set ops \<longrightarrow> hash \<or> weed loc = 0"
  shows "\<forall>e \<in> set (concat (map tlog_op_entries ops)). entry_ok hash e"
proof
  fix e assume "e \<in> set (concat (map tlog_op_entries ops))"
  then obtain op where op: "op \<in> set ops" "e \<in> set (tlog_op_entries op)" by auto
  with assms show "entry_ok hash e"
    by (cases op) (auto simp: entry_ok_def Entry_crc_def Entry_sync_def clh_zero_def verify_def)
qed

text \<open>What \<open>close\<close> leaves in the file.\<close>

lemma closed_tlog:
  assumes "TLogWriter_new env rc ps nb f = Inr w0" and "0 < ps"
    and "sfor ops (tlog_run env) w0 = (Inr (), w)"
    and "TLogWriter_close env w = (Inr cs, w')"
    and "\<forall>ca loc. AddLoc ca loc \<in> set ops \<longrightarrow> te_hash env \<or> weed loc = 0"
  shows "\<exists>crc. Entry_crc (CheckSum_getValue (calculate_checksum env ps
      (f @ entries_bytes (te_hash env) (concat (map tlog_op_entries ops))))) TLogCRC = Inr crc \<and>
    cs = calculate_checksum env ps (tw_file w') \<and>
    file_entries (te_hash env) (tw_file w') =
      file_entries (te_hash env) f @ concat (map tlog_op_entries ops) @ [crc]"
proof -
  let ?h = "te_hash env" and ?es = "concat (map tlog_op_entries ops)"
  note new = TLogWriter_new_ok [OF assms(1,2)]
  note run = tlog_runs_ok [OF assms(3) conjunct1 [OF new]]
  from assms(4) obtain w1 where
      p: "tw_place env True (Entry_crc (CheckSum_getValue (tw_checksum w)) TLogCRC) w = (Inr (), w1)"
    and w': "w' = w1" "cs = tw_checksum w1"
    by (auto simp: TLogWriter_close_def)
  from tw_place_ok [OF p] obtain crc where
      crc: "Entry_crc (CheckSum_getValue (tw_checksum w)) TLogCRC = Inr crc"
    and bt: "tw_bytes ?h w' = tw_bytes ?h w @ entry_bytes ?h crc" and inv: "tw_inv env w'" and nb: "tw_buf w' = []"
    using run w' by auto
  have fl: "tw_file w' = f @ entries_bytes ?h (?es @ [crc])"
    using bt nb run new by (simp add: tw_bytes_def entries_bytes_def)
  have "\<forall>e \<in> set (?es @ [crc]). entry_ok ?h e"
    using tlog_op_entries_ok [OF assms(5)] Entry_crc_ok [OF crc] by simp
  then have fe: "file_entries ?h (tw_file w') = file_entries ?h f @ ?es @ [crc]"
    unfolding fl using new file_entries_append [of f ?h] file_entries_bytes [of "?es @ [crc]" ?h] by simp
  moreover have "cs = calculate_checksum env ps (tw_file w')"
    using inv nb w' assms(2)
    by (simp add: tw_inv_def tw_bytes_def entries_bytes_def calculate_checksum_def checksum_pages_spec)
  moreover have "tw_checksum w = calculate_checksum env ps (f @ entries_bytes ?h ?es)"
    using run new assms(2) by (simp add: tw_inv_def calculate_checksum_def checksum_pages_spec)
  ultimately show ?thesis using crc by auto
qed

subsection \<open>Properties\<close>

text \<open>
  C29. A TLog that was written is read back: the entries that were added to a new or an existing TLog
  come back in order from the forward reader, behind the entries that were there before, followed by
  the closing entry, whose checksum is that of all bytes before it; the backward reader gives the same
  entries in reverse order, whatever the sizes of the buffers; the checksum that \<open>close\<close> returns is
  that of the file.
\<close>

theorem tlog_write_read:
  assumes "TLogWriter_new env rc ps nb f = Inr w0" and "0 < ps"
    and "sfor ops (tlog_run env) w0 = (Inr (), w)"
    and "TLogWriter_close env w = (Inr cs, w')"
    and "\<forall>ca loc. AddLoc ca loc \<in> set ops \<longrightarrow> te_hash env \<or> weed loc = 0"
    and "0 < c" and "c * Entry_getDataSize (te_hash env) < 2 ^ 32"
  shows "\<exists>crc r r'.
    Entry_crc (CheckSum_getValue (calculate_checksum env ps
      (f @ entries_bytes (te_hash env) (concat (map tlog_op_entries ops))))) TLogCRC = Inr crc \<and>
    cs = calculate_checksum env ps (tw_file w') \<and>
    read_all (tr_nextAny env) (TLogReader_new (te_hash env) c (tw_file w')) [] =
      Some (Inr (file_entries (te_hash env) f @ concat (map tlog_op_entries ops) @ [crc]), r) \<and>
    read_all (br_nextAny (te_hash env)) (BackwardTLogReader_new (te_hash env) c (tw_file w')) [] =
      Some (Inr (rev (file_entries (te_hash env) f @ concat (map tlog_op_entries ops) @ [crc])), r')"
proof -
  let ?h = "te_hash env" and ?es = "concat (map tlog_op_entries ops)"
  from closed_tlog [OF assms(1-5)] obtain crc where
      crc: "Entry_crc (CheckSum_getValue (calculate_checksum env ps (f @ entries_bytes ?h ?es))) TLogCRC = Inr crc"
    and cs: "cs = calculate_checksum env ps (tw_file w')"
    and fe: "file_entries ?h (tw_file w') = file_entries ?h f @ ?es @ [crc]" by blast
  obtain r where "read_all (tr_nextAny env) (TLogReader_new ?h c (tw_file w')) [] =
      Some (Inr (file_entries ?h f @ ?es @ [crc]), r)"
    using fwd.read_all_ok [OF TLogReader_new_ok(1) [OF assms(6,7)], of "tw_file w'" "[]"]
    by (auto simp: TLogReader_new_ok(2) [OF assms(6,7)] fe)
  moreover obtain r' where "read_all (br_nextAny ?h) (BackwardTLogReader_new ?h c (tw_file w')) [] =
      Some (Inr (rev (file_entries ?h f @ ?es @ [crc])), r')"
    using bwd.read_all_ok [OF BackwardTLogReader_new_ok(1) [OF assms(6,7)], of "tw_file w'" "[]"]
    by (auto simp: BackwardTLogReader_new_ok(2) [OF assms(6,7)] fe)
  ultimately show ?thesis using crc cs by auto
qed

definition ex_tlog_env :: tlog_env where
  "ex_tlog_env = \<lparr>te_hash = False, te_hw = False, te_addr = 0\<rparr>"

definition ex_tlog_ops :: "tlog_op list" where
  "ex_tlog_ops = [AddLoc 3 \<lparr>clusterLocation = ClusterLocation_new 1 0 0 0, weed = 0\<rparr>, SyncFile,
     AddLoc 4 \<lparr>clusterLocation = ClusterLocation_new 1 1 0 0, weed = 0\<rparr>]"

definition ex_writer :: tlog_writer where
  "ex_writer = projr (TLogWriter_new ex_tlog_env 2 16 64 [])"

definition ex_closed :: tlog_writer where
  "ex_closed = snd (TLogWriter_close ex_tlog_env (snd (sfor ex_tlog_ops (tlog_run ex_tlog_env) ex_writer)))"

theorem tlog_write_read_witness:
  "\<exists>crc r. read_all (tr_nextAny ex_tlog_env) (TLogReader_new False 2 (tw_file ex_closed)) [] =
     Some (Inr (concat (map tlog_op_entries ex_tlog_ops) @ [crc]), r)"
proof -
  have n: "TLogWriter_new ex_tlog_env 2 16 64 [] = Inr ex_writer"
    by (simp add: ex_writer_def TLogWriter_new_def)
  have r: "fst (sfor ex_tlog_ops (tlog_run ex_tlog_env) ex_writer) = Inr ()"
    by (simp add: ex_tlog_ops_def TLogWriter_add_def TLogWriter_sync_def tw_place_def
        tw_maybe_refresh_buffer_def Entry_loc_def verify_def sbind_def smod_def slift_def sret_def
        isNull_def ClusterLocation_new_def SCO_new_def max_valid_cluster_address_def)
  let ?w = "snd (sfor ex_tlog_ops (tlog_run ex_tlog_env) ex_writer)"
  have "\<not> isl (fst (TLogWriter_close ex_tlog_env ?w))"
    by (simp add: TLogWriter_close_def tw_place_def tw_maybe_refresh_buffer_def Entry_crc_def verify_def
        sbind_def smod_def slift_def sret_def sget_def)
  then have c: "TLogWriter_close ex_tlog_env ?w = (Inr (projr (fst (TLogWriter_close ex_tlog_env ?w))), ex_closed)"
    unfolding ex_closed_def by (cases "TLogWriter_close ex_tlog_env ?w") simp
  have "sfor ex_tlog_ops (tlog_run ex_tlog_env) ex_writer = (Inr (), ?w)"
    using r by (cases "sfor ex_tlog_ops (tlog_run ex_tlog_env) ex_writer") simp
  from tlog_write_read [OF n _ this c, of 2] show ?thesis
    by (auto simp: ex_tlog_ops_def ex_tlog_env_def Entry_getDataSize_def)
qed

text \<open>
  C30. Adding a location fails exactly for a null location and for an address beyond the largest valid
  one. Then nothing is written: the bytes of the TLog and its checksum stay as they were. The last
  cluster location of the writer is set to the rejected one all the same.
\<close>

theorem TLogWriter_add_errors:
  "case TLogWriter_add env ca loc w of
     (Inr u, w') \<Rightarrow> \<not> isNull (clusterLocation loc) \<and> ca \<le> max_valid_cluster_address
   | (Inl err, w') \<Rightarrow> (isNull (clusterLocation loc) \<or> max_valid_cluster_address < ca) \<and>
       tw_bytes (te_hash env) w' = tw_bytes (te_hash env) w \<and> tw_checksum w' = tw_checksum w \<and>
       tw_lastClusterLocation w' = clusterLocation loc"
  by (auto simp: TLogWriter_add_def tw_place_def tw_maybe_refresh_buffer_def Entry_loc_def
      sbind_def smod_def slift_def sret_def verify_def tw_bytes_def entries_bytes_def)

end
