(* ===== verification/Threaded_Generator.thy ===== *)
theory Threaded_Generator
  imports Effects
begin

text \<open>
  The generators of src/src/youtils/Generator.h that run ahead of their consumer: a
  \<^verbatim>\<open>ThreadedGenerator\<close> has a thread that takes the items of another generator and puts them in the
  bounded channel of src/src/procon/ProCon.h, from which the consumer takes them. The two threads are
  a step relation: a step is what a thread does under the lock of the channel, or between two locks. A
  thread that waits on a condition is in a state of its own, which only a notification (or a spurious
  wakeup) ends, so that a lost wakeup would be a state without a step. A
  \<^verbatim>\<open>PrefetchGenerator\<close> takes all items at once.
\<close>

subsection \<open>The interface\<close>

text \<open>\<^verbatim>\<open>Generator\<close>: \<open>next\<close> may throw; \<open>None\<close> stands for a \<open>next\<close> that does not return.\<close>

record ('g, 'a) generator =
  gi_current :: "'g \<Rightarrow> 'a"
  gi_next :: "'g \<Rightarrow> (unit result \<times> 'g) option"
  gi_finished :: "'g \<Rightarrow> bool"

text \<open>
  What a consumer sees of a generator that runs to its end: the items and the exception it ended
  with. The item that is current when \<open>next\<close> throws is not among them, as a producer only hands an
  item on after \<open>next\<close>.
\<close>

inductive gives :: "('g, 'a) generator \<Rightarrow> 'g \<Rightarrow> 'a list \<Rightarrow> vd_error option \<Rightarrow> bool" for api where
  gives_end: "gi_finished api g \<Longrightarrow> gives api g [] None"
| gives_item: "\<not> gi_finished api g \<Longrightarrow> gi_next api g = Some (Inr (), g') \<Longrightarrow> gives api g' xs e \<Longrightarrow>
    gives api g (gi_current api g # xs) e"
| gives_error: "\<not> gi_finished api g \<Longrightarrow> gi_next api g = Some (Inl err, g') \<Longrightarrow> gives api g [] (Some err)"

inductive_cases gives_finishedE: "gives api g xs e"

lemma gives_finished: "gives api g xs e \<Longrightarrow> gi_finished api g \<Longrightarrow> xs = [] \<and> e = None"
  by (auto elim: gives_finishedE)

lemma gives_next_ok:
  "gives api g xs e \<Longrightarrow> \<not> gi_finished api g \<Longrightarrow> gi_next api g = Some (Inr (), g') \<Longrightarrow>
     \<exists>ys. xs = gi_current api g # ys \<and> gives api g' ys e"
  by (auto elim: gives_finishedE)

lemma gives_next_error:
  "gives api g xs e \<Longrightarrow> \<not> gi_finished api g \<Longrightarrow> gi_next api g = Some (Inl err, g') \<Longrightarrow> xs = [] \<and> e = Some err"
  by (auto elim: gives_finishedE)

lemma gives_next_defined: "gives api g xs e \<Longrightarrow> \<not> gi_finished api g \<Longrightarrow> \<exists>r g'. gi_next api g = Some (r, g')"
  by (auto elim: gives_finishedE)

subsection \<open>The channel and the two threads\<close>

datatype 'a producer_state = Checking | Offering 'a | WaitNotFull 'a | ProducerDone

datatype consumer_state = Polling | WaitNotEmpty | Holding | Joining | Ended

text \<open>
  \<open>tg_queue\<close> is the deque, from its front, where items are put, to its back, where they are taken.
  \<open>tg_taken\<close> is the history of \<^verbatim>\<open>current_\<close>; its last element is the current item. A consumer that
  is \<open>Holding\<close> uses the current item.
\<close>

record ('g, 'a) threaded =
  tg_queue :: "'a list"
  tg_maxSize :: nat
  tg_bMayStop :: bool
  tg_generator :: 'g
  tg_producer :: "'a producer_state"
  tg_error :: "vd_error option"
  tg_consumer :: consumer_state
  tg_finished :: bool
  tg_taken :: "'a list"

fun notify_not_full :: "'a producer_state \<Rightarrow> 'a producer_state" where
  "notify_not_full (WaitNotFull x) = Offering x"
| "notify_not_full p = p"

fun notify_not_empty :: "consumer_state \<Rightarrow> consumer_state" where
  "notify_not_empty WaitNotEmpty = Polling"
| "notify_not_empty c = c"

definition mayStop :: "('g, 'a) threaded \<Rightarrow> ('g, 'a) threaded" where
  "mayStop s = s\<lparr>tg_bMayStop := True, tg_producer := notify_not_full (tg_producer s),
                 tg_consumer := notify_not_empty (tg_consumer s)\<rparr>"

definition channel_push :: "'a \<Rightarrow> 'a list \<Rightarrow> 'a list" where
  "channel_push x q = x # q"

definition channel_pop :: "'a list \<Rightarrow> 'a \<times> 'a list" where
  "channel_pop q = (last q, butlast q)"

text \<open>The constructor starts the thread of the producer and calls \<open>next\<close>.\<close>

definition ThreadedGenerator_new :: "'g \<Rightarrow> nat \<Rightarrow> ('g, 'a) threaded" where
  "ThreadedGenerator_new g bufferSize =
     \<lparr>tg_queue = [], tg_maxSize = (if bufferSize < 1 then 1 else bufferSize), tg_bMayStop = False,
      tg_generator = g, tg_producer = Checking, tg_error = None, tg_consumer = Polling,
      tg_finished = False, tg_taken = []\<rparr>"

text \<open>The producer: the loop of \<^verbatim>\<open>Producer::operator()\<close> with \<open>cancel\<close>, \<open>produce\<close>, \<open>offer\<close> and \<open>done\<close>.\<close>

inductive producer_step :: "('g, 'a) generator \<Rightarrow> ('g, 'a) threaded \<Rightarrow> ('g, 'a) threaded \<Rightarrow> bool" for api where
  prod_cancel: "tg_producer s = Checking \<Longrightarrow> gi_finished api (tg_generator s) \<Longrightarrow>
    producer_step api s (mayStop (s\<lparr>tg_producer := ProducerDone\<rparr>))"
| prod_produce: "tg_producer s = Checking \<Longrightarrow> \<not> gi_finished api (tg_generator s) \<Longrightarrow>
    gi_next api (tg_generator s) = Some (Inr (), g') \<Longrightarrow>
    producer_step api s (s\<lparr>tg_producer := Offering (gi_current api (tg_generator s)), tg_generator := g'\<rparr>)"
| prod_throw: "tg_producer s = Checking \<Longrightarrow> \<not> gi_finished api (tg_generator s) \<Longrightarrow>
    gi_next api (tg_generator s) = Some (Inl err, g') \<Longrightarrow>
    producer_step api s (mayStop (s\<lparr>tg_producer := ProducerDone, tg_generator := g', tg_error := Some err\<rparr>))"
| prod_wait: "tg_producer s = Offering x \<Longrightarrow> \<not> tg_bMayStop s \<Longrightarrow> tg_maxSize s = length (tg_queue s) \<Longrightarrow>
    producer_step api s (s\<lparr>tg_producer := WaitNotFull x\<rparr>)"
| prod_put: "tg_producer s = Offering x \<Longrightarrow> \<not> tg_bMayStop s \<Longrightarrow> tg_maxSize s \<noteq> length (tg_queue s) \<Longrightarrow>
    producer_step api s (s\<lparr>tg_queue := channel_push x (tg_queue s), tg_producer := Checking,
                           tg_consumer := notify_not_empty (tg_consumer s)\<rparr>)"
| prod_stopped: "tg_producer s = Offering x \<Longrightarrow> tg_bMayStop s \<Longrightarrow>
    producer_step api s (mayStop (s\<lparr>tg_producer := ProducerDone\<rparr>))"

text \<open>
  The consumer: \<open>next\<close> with \<open>poll\<close>, and \<open>stop_\<close>, which is also what the destructor does while the
  consumer uses an item. \<open>stop_\<close> joins the thread of the producer.
\<close>

inductive consumer_step :: "('g, 'a) threaded \<Rightarrow> ('g, 'a) threaded \<Rightarrow> bool" where
  cons_wait: "tg_consumer s = Polling \<Longrightarrow> \<not> tg_bMayStop s \<Longrightarrow> tg_queue s = [] \<Longrightarrow>
    consumer_step s (s\<lparr>tg_consumer := WaitNotEmpty\<rparr>)"
| cons_poll: "tg_consumer s = Polling \<Longrightarrow> tg_queue s \<noteq> [] \<Longrightarrow> channel_pop (tg_queue s) = (x, q) \<Longrightarrow>
    consumer_step s (s\<lparr>tg_queue := q, tg_taken := tg_taken s @ [x], tg_consumer := Holding,
                       tg_producer := notify_not_full (tg_producer s)\<rparr>)"
| cons_end: "tg_consumer s = Polling \<Longrightarrow> tg_bMayStop s \<Longrightarrow> tg_queue s = [] \<Longrightarrow>
    consumer_step s (mayStop (s\<lparr>tg_finished := True, tg_consumer := Joining\<rparr>))"
| cons_next: "tg_consumer s = Holding \<Longrightarrow> consumer_step s (s\<lparr>tg_consumer := Polling\<rparr>)"
| cons_destroy: "tg_consumer s = Holding \<Longrightarrow> consumer_step s (mayStop (s\<lparr>tg_consumer := Joining\<rparr>))"
| cons_join: "tg_consumer s = Joining \<Longrightarrow> tg_producer s = ProducerDone \<Longrightarrow>
    consumer_step s (s\<lparr>tg_consumer := Ended\<rparr>)"

inductive_cases producer_stepE: "producer_step api s s'"
inductive_cases consumer_stepE: "consumer_step s s'"

definition tg_step :: "('g, 'a) generator \<Rightarrow> ('g, 'a) threaded \<Rightarrow> ('g, 'a) threaded \<Rightarrow> bool" where
  "tg_step api s s' \<longleftrightarrow> producer_step api s s' \<or> consumer_step s s'"

text \<open>A wait on a condition may also end without a notification.\<close>

inductive spurious_wakeup :: "('g, 'a) threaded \<Rightarrow> ('g, 'a) threaded \<Rightarrow> bool" where
  "tg_producer s = WaitNotFull x \<Longrightarrow> spurious_wakeup s (s\<lparr>tg_producer := Offering x\<rparr>)"
| "tg_consumer s = WaitNotEmpty \<Longrightarrow> spurious_wakeup s (s\<lparr>tg_consumer := Polling\<rparr>)"

inductive_cases spurious_wakeupE: "spurious_wakeup s s'"

definition tg_move :: "('g, 'a) generator \<Rightarrow> ('g, 'a) threaded \<Rightarrow> ('g, 'a) threaded \<Rightarrow> bool" where
  "tg_move api s s' \<longleftrightarrow> tg_step api s s' \<or> spurious_wakeup s s'"

text \<open>The step that a thread takes when it runs, as a function.\<close>

definition producer_run :: "('g, 'a) generator \<Rightarrow> ('g, 'a) threaded \<Rightarrow> ('g, 'a) threaded" where
  "producer_run api s =
     (case tg_producer s of
        Checking \<Rightarrow>
          if gi_finished api (tg_generator s) then mayStop (s\<lparr>tg_producer := ProducerDone\<rparr>)
          else (case gi_next api (tg_generator s) of
                  None \<Rightarrow> s
                | Some (Inr _, g') \<Rightarrow>
                    s\<lparr>tg_producer := Offering (gi_current api (tg_generator s)), tg_generator := g'\<rparr>
                | Some (Inl err, g') \<Rightarrow>
                    mayStop (s\<lparr>tg_producer := ProducerDone, tg_generator := g', tg_error := Some err\<rparr>))
      | Offering x \<Rightarrow>
          if tg_bMayStop s then mayStop (s\<lparr>tg_producer := ProducerDone\<rparr>)
          else if tg_maxSize s = length (tg_queue s) then s\<lparr>tg_producer := WaitNotFull x\<rparr>
          else s\<lparr>tg_queue := channel_push x (tg_queue s), tg_producer := Checking,
                 tg_consumer := notify_not_empty (tg_consumer s)\<rparr>
      | _ \<Rightarrow> s)"

definition consumer_run :: "('g, 'a) threaded \<Rightarrow> ('g, 'a) threaded" where
  "consumer_run s =
     (case tg_consumer s of
        Polling \<Rightarrow>
          if tg_queue s \<noteq> [] then
            (case channel_pop (tg_queue s) of (x, q) \<Rightarrow>
               s\<lparr>tg_queue := q, tg_taken := tg_taken s @ [x], tg_consumer := Holding,
                 tg_producer := notify_not_full (tg_producer s)\<rparr>)
          else if tg_bMayStop s then mayStop (s\<lparr>tg_finished := True, tg_consumer := Joining\<rparr>)
          else s\<lparr>tg_consumer := WaitNotEmpty\<rparr>
      | Holding \<Rightarrow> s\<lparr>tg_consumer := Polling\<rparr>
      | Joining \<Rightarrow> if tg_producer s = ProducerDone then s\<lparr>tg_consumer := Ended\<rparr> else s
      | _ \<Rightarrow> s)"

definition tg_schedule ::
  "('g, 'a) generator \<Rightarrow> bool list \<Rightarrow> ('g, 'a) threaded \<Rightarrow> ('g, 'a) threaded" where
  "tg_schedule api bs s = fold (\<lambda>b s. if b then producer_run api s else consumer_run s) bs s"

lemma producer_run_step: "producer_run api s = s \<or> producer_step api s (producer_run api s)"
  by (auto simp: producer_run_def intro: producer_step.intros
      split: producer_state.splits option.splits sum.splits)

lemma consumer_run_step: "consumer_run s = s \<or> consumer_step s (consumer_run s)"
proof (cases "tg_consumer s = Polling \<and> tg_queue s \<noteq> []")
  case True
  obtain x q where "channel_pop (tg_queue s) = (x, q)" by fastforce
  with True cons_poll [of s x q] show ?thesis by (simp add: consumer_run_def)
next
  case False
  then show ?thesis
    by (auto simp: consumer_run_def intro: consumer_step.intros split: consumer_state.splits)
qed

lemma tg_schedule_reachable: "(tg_move api)\<^sup>*\<^sup>* s (tg_schedule api bs s)"
proof (induction bs arbitrary: s)
  case (Cons b bs)
  let ?s = "if b then producer_run api s else consumer_run s"
  have "?s = s \<or> tg_move api s ?s"
    using producer_run_step [of api s] consumer_run_step [of s] by (auto simp: tg_move_def tg_step_def)
  with Cons [of ?s] show ?case by (auto simp: tg_schedule_def intro: converse_rtranclp_into_rtranclp)
qed (simp add: tg_schedule_def)

subsection \<open>The prefetching generator\<close>

text \<open>The loop of the constructor of \<^verbatim>\<open>PrefetchGenerator\<close>, and its operations on the queue.\<close>

partial_function (option) prefetch_loop :: "('g, 'a) generator \<Rightarrow> 'g \<Rightarrow> 'a list \<Rightarrow> 'a list result option" where
  "prefetch_loop api g queue =
     (if gi_finished api g then Some (Inr queue)
      else case gi_next api g of
             None \<Rightarrow> None
           | Some p \<Rightarrow>
               (case p of (x, g') \<Rightarrow>
                case x of
                  Inl err \<Rightarrow> Some (Inl err)
                | Inr _ \<Rightarrow> prefetch_loop api g' (queue @ [gi_current api g])))"

definition PrefetchGenerator_new :: "('g, 'a) generator \<Rightarrow> 'g \<Rightarrow> 'a list result option" where
  "PrefetchGenerator_new api g = prefetch_loop api g []"

definition PrefetchGenerator_finished :: "'a list \<Rightarrow> bool" where
  "PrefetchGenerator_finished queue \<longleftrightarrow> queue = []"

definition PrefetchGenerator_current :: "'a list \<Rightarrow> 'a result" where
  "PrefetchGenerator_current queue = rbind (verify (queue \<noteq> []) ''not queue_.empty()'') (\<lambda>_. Inr (hd queue))"

definition PrefetchGenerator_next :: "('a list, unit) sm" where
  "PrefetchGenerator_next =
     sbind (sget (\<lambda>q. q)) (\<lambda>q.
     sbind (sverify (q \<noteq> []) ''not queue_.empty()'') (\<lambda>_. smod tl))"

text \<open>The operations of the interface, for a queue that is not empty where the code verifies it.\<close>

definition PrefetchGenerator :: "('a list, 'a) generator" where
  "PrefetchGenerator =
     \<lparr>gi_current = (\<lambda>q. projr (PrefetchGenerator_current q)), gi_next = (\<lambda>q. Some (PrefetchGenerator_next q)),
      gi_finished = PrefetchGenerator_finished\<rparr>"

lemma prefetch_gives: "gives PrefetchGenerator q q None"
proof (induction q)
  case Nil
  show ?case by (rule gives_end) (simp add: PrefetchGenerator_def PrefetchGenerator_finished_def)
next
  case (Cons x q)
  then have "gives PrefetchGenerator (x # q) (gi_current PrefetchGenerator (x # q) # q) None"
    by (intro gives_item [of _ _ q])
      (simp_all add: PrefetchGenerator_def PrefetchGenerator_finished_def PrefetchGenerator_next_def
        sbind_def sget_def sverify_def smod_def verify_def)
  then show ?case
    by (simp add: PrefetchGenerator_def PrefetchGenerator_current_def verify_def)
qed

lemma prefetch_loop_gives:
  "gives api g xs e \<Longrightarrow>
     prefetch_loop api g acc = Some (case e of None \<Rightarrow> Inr (acc @ xs) | Some err \<Rightarrow> Inl err)"
proof (induction arbitrary: acc rule: gives.induct)
  case (gives_end g)
  then show ?case by (simp add: prefetch_loop.simps [of api g])
next
  case (gives_item g g' xs e)
  then show ?case by (cases e) (simp_all add: prefetch_loop.simps [of api g])
next
  case (gives_error g err g')
  then show ?case by (simp add: prefetch_loop.simps [of api g])
qed

subsection \<open>The invariant\<close>

fun offered :: "'a producer_state \<Rightarrow> 'a list" where
  "offered (Offering x) = [x]"
| "offered (WaitNotFull x) = [x]"
| "offered _ = []"

definition aborted :: "('g, 'a) threaded \<Rightarrow> bool" where
  "aborted s \<longleftrightarrow> tg_consumer s \<in> {Joining, Ended} \<and> \<not> tg_finished s"

text \<open>
  \<open>xs\<close> and \<open>e\<close> are what the generator gives, \<open>ys\<close> what it still has. Nothing is lost or reordered
  on the way unless the consumer gives up.
\<close>

definition tg_inv ::
  "('g, 'a) generator \<Rightarrow> 'a list \<Rightarrow> vd_error option \<Rightarrow> 'a list \<Rightarrow> ('g, 'a) threaded \<Rightarrow> bool" where
  "tg_inv api xs e ys s \<longleftrightarrow>
     1 \<le> tg_maxSize s \<and> length (tg_queue s) \<le> tg_maxSize s \<and>
     (tg_producer s = ProducerDone \<longrightarrow> tg_bMayStop s \<and> ys = []) \<and>
     (tg_producer s \<noteq> ProducerDone \<longrightarrow> gives api (tg_generator s) ys e \<and> tg_error s = None) \<and>
     (tg_producer s = ProducerDone \<and> \<not> aborted s \<longrightarrow> tg_error s = e) \<and>
     (tg_bMayStop s \<longrightarrow> tg_producer s = ProducerDone \<or> aborted s) \<and>
     (if aborted s then \<exists>zs. tg_taken s @ rev (tg_queue s) @ zs = xs
      else tg_taken s @ rev (tg_queue s) @ offered (tg_producer s) @ ys = xs) \<and>
     ((\<exists>x. tg_producer s = WaitNotFull x) \<longrightarrow> \<not> tg_bMayStop s \<and> length (tg_queue s) = tg_maxSize s) \<and>
     (tg_consumer s = WaitNotEmpty \<longrightarrow> \<not> tg_bMayStop s \<and> tg_queue s = []) \<and>
     (tg_consumer s \<in> {Joining, Ended} \<longrightarrow> tg_bMayStop s) \<and>
     (tg_finished s \<longrightarrow> tg_queue s = [] \<and> tg_producer s = ProducerDone \<and> tg_consumer s \<in> {Joining, Ended}) \<and>
     (tg_consumer s = Ended \<longrightarrow> tg_producer s = ProducerDone)"

lemma tg_inv_new: "gives api g xs e \<Longrightarrow> tg_inv api xs e xs (ThreadedGenerator_new g n)"
  by (auto simp: tg_inv_def ThreadedGenerator_new_def aborted_def)

text \<open>A number that every step makes smaller.\<close>

fun producer_weight :: "'a producer_state \<Rightarrow> nat" where
  "producer_weight Checking = 2"
| "producer_weight (Offering x) = 7"
| "producer_weight (WaitNotFull x) = 6"
| "producer_weight ProducerDone = 0"

fun consumer_weight :: "consumer_state \<Rightarrow> nat" where
  "consumer_weight Holding = 3"
| "consumer_weight Polling = 2"
| "consumer_weight WaitNotEmpty = 1"
| "consumer_weight Joining = 1"
| "consumer_weight Ended = 0"

definition tg_weight :: "'a list \<Rightarrow> ('g, 'a) threaded \<Rightarrow> nat" where
  "tg_weight ys s = 6 * length ys + producer_weight (tg_producer s) + 3 * length (tg_queue s) +
     consumer_weight (tg_consumer s)"

lemma notify_simps [simp]:
  "notify_not_empty c = Ended \<longleftrightarrow> c = Ended" "notify_not_empty c = Joining \<longleftrightarrow> c = Joining"
  "notify_not_empty c \<noteq> WaitNotEmpty" "notify_not_full p \<noteq> WaitNotFull x"
  "notify_not_full p = ProducerDone \<longleftrightarrow> p = ProducerDone" "offered (notify_not_full p) = offered p"
  by (cases c; simp)+ (cases p; simp)+

lemma producer_step_ok:
  assumes "tg_inv api xs e ys s" and "producer_step api s s'"
  shows "\<exists>ys'. tg_inv api xs e ys' s' \<and> tg_weight ys' s' < tg_weight ys s"
  using assms(2)
proof cases
  case prod_cancel
  with assms(1) gives_finished [of api "tg_generator s" ys e] have "ys = []" "e = None"
    by (auto simp: tg_inv_def)
  with assms(1) prod_cancel show ?thesis
    by (intro exI [of _ "[]"], cases "tg_consumer s")
      (simp_all add: tg_inv_def tg_weight_def mayStop_def aborted_def split: if_splits)
next
  case (prod_produce g')
  with assms(1) gives_next_ok [of api "tg_generator s" ys e g'] obtain zs where
    "ys = gi_current api (tg_generator s) # zs" "gives api g' zs e" by (auto simp: tg_inv_def)
  with assms(1) prod_produce show ?thesis
    by (intro exI [of _ zs], cases "tg_consumer s")
      (auto simp: tg_inv_def tg_weight_def aborted_def split: if_splits)
next
  case (prod_throw err g')
  with assms(1) gives_next_error [of api "tg_generator s" ys e err g'] have "ys = []" "e = Some err"
    by (auto simp: tg_inv_def)
  with assms(1) prod_throw show ?thesis
    by (intro exI [of _ "[]"], cases "tg_consumer s")
      (simp_all add: tg_inv_def tg_weight_def mayStop_def aborted_def split: if_splits)
next
  case (prod_wait x)
  with assms(1) show ?thesis
    by (intro exI [of _ ys], cases "tg_consumer s")
      (auto simp: tg_inv_def tg_weight_def aborted_def split: if_splits)
next
  case (prod_put x)
  with assms(1) show ?thesis
    by (intro exI [of _ ys], cases "tg_consumer s")
      (simp_all add: tg_inv_def tg_weight_def aborted_def channel_push_def split: if_splits)
next
  case (prod_stopped x)
  with assms(1) show ?thesis
    by (intro exI [of _ "[]"], cases "tg_consumer s")
      (simp_all add: tg_inv_def tg_weight_def mayStop_def aborted_def split: if_splits)
qed

lemma consumer_step_ok:
  assumes "tg_inv api xs e ys s" and "consumer_step s s'"
  shows "tg_inv api xs e ys s' \<and> tg_weight ys s' < tg_weight ys s"
  using assms(2)
proof cases
  case cons_wait
  with assms(1) show ?thesis
    by (cases "tg_producer s") (auto simp: tg_inv_def tg_weight_def aborted_def split: if_splits)
next
  case (cons_poll x q)
  then have "tg_queue s = q @ [x]" by (auto simp: channel_pop_def)
  with assms(1) cons_poll show ?thesis
    by (cases "tg_producer s") (auto simp: tg_inv_def tg_weight_def aborted_def split: if_splits)
next
  case cons_end
  with assms(1) show ?thesis
    by (cases "tg_producer s") (auto simp: tg_inv_def tg_weight_def mayStop_def aborted_def split: if_splits)
next
  case cons_next
  with assms(1) show ?thesis
    by (cases "tg_producer s") (auto simp: tg_inv_def tg_weight_def aborted_def split: if_splits)
next
  case cons_destroy
  with assms(1) show ?thesis
    by (cases "tg_producer s") (force simp: tg_inv_def tg_weight_def mayStop_def aborted_def split: if_splits)+
next
  case cons_join
  with assms(1) show ?thesis
    by (cases "tg_producer s") (auto simp: tg_inv_def tg_weight_def aborted_def split: if_splits)
qed

lemma tg_step_ok:
  "tg_inv api xs e ys s \<Longrightarrow> tg_step api s s' \<Longrightarrow>
     \<exists>ys'. tg_inv api xs e ys' s' \<and> tg_weight ys' s' < tg_weight ys s"
  using producer_step_ok consumer_step_ok unfolding tg_step_def by blast

lemma spurious_wakeup_ok: "tg_inv api xs e ys s \<Longrightarrow> spurious_wakeup s s' \<Longrightarrow> tg_inv api xs e ys s'"
  by (erule spurious_wakeupE) (auto simp: tg_inv_def aborted_def)

lemma tg_reachable:
  assumes "gives api g xs e" and "(tg_move api)\<^sup>*\<^sup>* (ThreadedGenerator_new g n) s"
  shows "\<exists>ys. tg_inv api xs e ys s"
  using assms(2)
proof induction
  case base
  then show ?case using tg_inv_new [OF assms(1)] by blast
next
  case (step s s')
  then show ?case using tg_step_ok spurious_wakeup_ok unfolding tg_move_def by blast
qed

lemma maxSize_constant:
  assumes "(tg_move api)\<^sup>*\<^sup>* (ThreadedGenerator_new g n) s"
  shows "tg_maxSize s = max 1 n"
  using assms
proof induction
  case (step s s')
  from step.hyps(2) step.IH show ?case
    by (auto simp: tg_move_def tg_step_def mayStop_def
        elim!: producer_stepE consumer_stepE spurious_wakeupE)
qed (simp add: ThreadedGenerator_new_def)

lemma producer_progress:
  assumes "tg_inv api xs e ys s" and "tg_producer s = Checking \<or> (\<exists>x. tg_producer s = Offering x)"
  shows "\<exists>s'. producer_step api s s'"
proof (cases "tg_producer s")
  case Checking
  show ?thesis
  proof (cases "gi_finished api (tg_generator s)")
    case True
    with Checking show ?thesis by (blast intro: prod_cancel)
  next
    case False
    have "gives api (tg_generator s) ys e" using assms(1) Checking by (simp add: tg_inv_def)
    from gives_next_defined [OF this False] obtain r g' where "gi_next api (tg_generator s) = Some (r, g')"
      by blast
    with Checking False show ?thesis by (cases r) (auto intro: prod_produce prod_throw)
  qed
next
  case (Offering x)
  then show ?thesis by (cases "tg_bMayStop s"; cases "tg_maxSize s = length (tg_queue s)")
      (blast intro: prod_wait prod_put prod_stopped)+
qed (use assms(2) in auto)

text \<open>A step that does not give up.\<close>

lemma tg_progress:
  assumes "tg_inv api xs e ys s" and "tg_consumer s \<noteq> Ended"
  shows "\<exists>s'. tg_step api s s' \<and> (aborted s' \<longrightarrow> aborted s)"
proof -
  have prod: "\<exists>s'. tg_step api s s' \<and> (aborted s' \<longrightarrow> aborted s)"
    if "tg_producer s = Checking \<or> (\<exists>x. tg_producer s = Offering x)"
  proof -
    from producer_progress [OF assms(1) that] obtain s' where "producer_step api s s'" by blast
    moreover from this have "aborted s' \<longrightarrow> aborted s"
      by (cases "tg_consumer s") (auto elim!: producer_stepE simp: aborted_def mayStop_def)
    ultimately show ?thesis by (auto simp: tg_step_def)
  qed
  have cons: "\<exists>s'. tg_step api s s' \<and> (aborted s' \<longrightarrow> aborted s)"
    if "consumer_step s s'" "aborted s' \<longrightarrow> aborted s" for s'
    using that by (auto simp: tg_step_def)
  show ?thesis
  proof (cases "tg_consumer s")
    case Polling
    then show ?thesis
    proof (cases "tg_queue s = []")
      case True
      with Polling show ?thesis
        by (cases "tg_bMayStop s") (rule cons, erule (2) cons_end cons_wait, simp add: aborted_def mayStop_def)+
    next
      case False
      obtain x q where "channel_pop (tg_queue s) = (x, q)" by fastforce
      from cons [OF cons_poll [OF Polling False this]] show ?thesis by (simp add: aborted_def)
    qed
  next
    case WaitNotEmpty
    with assms(1) have "\<not> tg_bMayStop s" "tg_queue s = []" by (simp_all add: tg_inv_def)
    with assms(1) show ?thesis by (intro prod, cases "tg_producer s") (auto simp: tg_inv_def)
  next
    case Holding
    from cons [OF cons_next [OF this]] show ?thesis by (simp add: aborted_def)
  next
    case Joining
    show ?thesis
    proof (cases "tg_producer s = ProducerDone")
      case True
      from cons [OF cons_join [OF Joining True]] Joining show ?thesis by (simp add: aborted_def)
    next
      case False
      with assms(1) Joining show ?thesis by (intro prod, cases "tg_producer s") (auto simp: tg_inv_def)
    qed
  qed (use assms(2) in simp)
qed

lemma tg_finishes:
  assumes "tg_inv api xs e ys s" and "\<not> aborted s"
  shows "\<exists>s'. (tg_move api)\<^sup>*\<^sup>* s s' \<and> tg_finished s' \<and> tg_consumer s' = Ended"
  using assms
proof (induction "tg_weight ys s" arbitrary: ys s rule: less_induct)
  case less
  show ?case
  proof (cases "tg_consumer s = Ended")
    case True
    with less.prems(2) show ?thesis by (auto simp: aborted_def)
  next
    case False
    from tg_progress [OF less.prems(1) False] less.prems(2) obtain s1 where
      1: "tg_step api s s1" "\<not> aborted s1" by blast
    from tg_step_ok [OF less.prems(1) 1(1)] obtain ys1 where
      2: "tg_inv api xs e ys1 s1" "tg_weight ys1 s1 < tg_weight ys s" by blast
    from less.hyps [OF 2(2,1) 1(2)] obtain s' where
      "(tg_move api)\<^sup>*\<^sup>* s1 s'" "tg_finished s'" "tg_consumer s' = Ended" by blast
    moreover have "tg_move api s s1" using 1(1) by (simp add: tg_move_def)
    ultimately show ?thesis by (meson converse_rtranclp_into_rtranclp)
  qed
qed

lemma tg_run_to_end:
  assumes "gives api g xs e"
  shows "\<exists>s. (tg_move api)\<^sup>*\<^sup>* (ThreadedGenerator_new g n) s \<and> tg_finished s \<and> tg_consumer s = Ended"
  by (rule tg_finishes [OF tg_inv_new [OF assms]]) (simp add: aborted_def ThreadedGenerator_new_def)

lemma tg_finished_all:
  assumes "gives api g xs e" and "(tg_move api)\<^sup>*\<^sup>* (ThreadedGenerator_new g n) s" and "tg_finished s"
  shows "tg_taken s = xs \<and> tg_error s = e"
  using tg_reachable [OF assms(1,2)] assms(3) by (auto simp: tg_inv_def aborted_def)

lemma tg_run_bound:
  assumes "tg_inv api xs e ys s" and "(tg_step api ^^ k) s s'"
  shows "k \<le> tg_weight ys s"
  using assms
proof (induction k arbitrary: ys s)
  case (Suc k)
  from Suc.prems(2) obtain s1 where 1: "tg_step api s s1" "(tg_step api ^^ k) s1 s'"
    by (rule relpowp_Suc_E2)
  from tg_step_ok [OF Suc.prems(1) 1(1)] obtain ys1 where
    "tg_inv api xs e ys1 s1" "tg_weight ys1 s1 < tg_weight ys s" by blast
  with Suc.IH [OF this(1) 1(2)] show ?case by simp
qed simp

subsection \<open>Properties\<close>


text \<open>
  C27. The two threads never wait for each other, and no wakeup is lost: in every state that can be
  reached and in which the consumer has not ended, with the destructor called at any time, one of the
  threads can take a step. A run without spurious wakeups has at most six steps for each item and four
  more, so the consumer and the join of the thread end, and the end of the items can be reached.
\<close>

theorem ThreadedGenerator_ends:
  assumes "gives api g xs e"
  shows "((tg_move api)\<^sup>*\<^sup>* (ThreadedGenerator_new g n) s \<longrightarrow> tg_consumer s \<noteq> Ended \<longrightarrow> (\<exists>s'. tg_step api s s')) \<and>
    ((tg_step api ^^ k) (ThreadedGenerator_new g n) s \<longrightarrow> k \<le> 6 * length xs + 4) \<and>
    (\<exists>t. (tg_move api)\<^sup>*\<^sup>* (ThreadedGenerator_new g n) t \<and> tg_finished t \<and> tg_consumer t = Ended)"
proof (intro conjI impI)
  assume "(tg_move api)\<^sup>*\<^sup>* (ThreadedGenerator_new g n) s" "tg_consumer s \<noteq> Ended"
  with tg_reachable [OF assms] tg_progress show "\<exists>s'. tg_step api s s'" by blast
next
  assume "(tg_step api ^^ k) (ThreadedGenerator_new g n) s"
  from tg_run_bound [OF tg_inv_new [OF assms] this] show "k \<le> 6 * length xs + 4"
    by (simp add: tg_weight_def ThreadedGenerator_new_def)
qed (rule tg_run_to_end [OF assms])


text \<open>A generator of three items, and a schedule that takes them through a channel of one item.\<close>

definition ex_schedule :: "bool list" where
  "ex_schedule = [False, True, True, True, True, False, True, False, True, False, False, True, True, True,
     False, False, True, True, False, False, False, False, True, True, False, False, False, False]"

definition ex_threaded :: "(nat list, nat) threaded" where
  "ex_threaded = tg_schedule PrefetchGenerator ex_schedule (ThreadedGenerator_new [5, 7, 9] 1)"


theorem ThreadedGenerator_ends_witness:
  "\<exists>s. tg_step PrefetchGenerator (tg_schedule PrefetchGenerator (take 9 ex_schedule) (ThreadedGenerator_new [5, 7, 9 :: nat] 1)) s"
proof -
  have "tg_consumer (tg_schedule PrefetchGenerator (take 9 ex_schedule) (ThreadedGenerator_new [5, 7, 9 :: nat] 1)) \<noteq> Ended"
    by code_simp
  with ThreadedGenerator_ends [OF prefetch_gives, of "[5, 7, 9]" 1] tg_schedule_reachable show ?thesis by blast
qed

text \<open>
  C28. A prefetching generator has the items of the generator it wraps: if that gives the items \<open>xs\<close>
  and ends without an exception, the constructor returns, and the new generator gives \<open>xs\<close>, now or
  behind a thread; if it throws, so does the constructor.
\<close>

theorem PrefetchGenerator_same_items:
  assumes "gives api g xs e"
  shows "case e of
      None \<Rightarrow> \<exists>q. PrefetchGenerator_new api g = Some (Inr q) \<and> gives PrefetchGenerator q xs None
    | Some err \<Rightarrow> PrefetchGenerator_new api g = Some (Inl err)"
  using prefetch_loop_gives [OF assms, of "[]"] prefetch_gives [of xs]
  by (auto simp: PrefetchGenerator_new_def split: option.split)

theorem PrefetchGenerator_same_items_witness:
  "\<exists>q. PrefetchGenerator_new PrefetchGenerator [3, 4 :: nat] = Some (Inr q) \<and> gives PrefetchGenerator q [3, 4] None"
  using PrefetchGenerator_same_items [OF prefetch_gives, of "[3, 4]"] by simp

end
