(* ===== verification/Page_Generator.thy ===== *)
theory Page_Generator
  imports TLog_IO Metadata_Backend Threaded_Generator
begin

text \<open>
  The page generator of src/src/volumedriver/PageGenerator.h and PageGenerator.cpp: it groups the
  locations of a TLog by the page of their address, so that a replay touches a page once per group. It
  keeps at most \<open>cached_max\<close> entries. Which group is handed out next is the order of an unordered
  map; \<open>pick\<close> stands for it, the position of \<^verbatim>\<open>pages_.begin()\<close>.
\<close>

subsection \<open>The generator\<close>

record 'r page_gen =
  gen_pages :: "(u64 \<times> entry list) list"
  gen_tlog_finished :: bool
  gen_cached :: nat
  gen_reader :: 'r
  gen_current :: "entry list"
  gen_current_size :: nat

text \<open>\<^verbatim>\<open>pages_.find\<close>, \<^verbatim>\<open>emplace\<close> and \<^verbatim>\<open>push_back\<close>.\<close>

fun pages_push :: "u64 \<Rightarrow> entry \<Rightarrow> (u64 \<times> entry list) list \<Rightarrow> (u64 \<times> entry list) list" where
  "pages_push pa e [] = [(pa, [e])]"
| "pages_push pa e ((k, es) # ps) = (if k = pa then (k, es @ [e]) # ps else (k, es) # pages_push pa e ps)"

partial_function (option) get_more_loop ::
  "nat \<Rightarrow> ('r, entry option) sm \<Rightarrow> nat \<Rightarrow> 'r page_gen \<Rightarrow> (unit result \<times> 'r page_gen) option" where
  "get_more_loop pb nxt cached_max s =
     (case nextLocation nxt (gen_reader s) of
        None \<Rightarrow> None
      | Some p \<Rightarrow>
          (case p of (x, r') \<Rightarrow>
           case x of
             Inl err \<Rightarrow> Some (Inl err, s\<lparr>gen_reader := r'\<rparr>)
           | Inr me \<Rightarrow>
               (case me of
                  None \<Rightarrow> Some (Inr (), s\<lparr>gen_reader := r', gen_tlog_finished := True\<rparr>)
                | Some e \<Rightarrow>
                    (case Entry_clusterAddress e of
                       Inl err \<Rightarrow> Some (Inl err, s\<lparr>gen_reader := r'\<rparr>)
                     | Inr ca \<Rightarrow>
                         (let s' = s\<lparr>gen_reader := r', gen_pages := pages_push (pageAddress pb ca) e (gen_pages s),
                                     gen_cached := gen_cached s + 1\<rparr>
                          in if gen_cached s' \<ge> cached_max then Some (Inr (), s')
                             else get_more_loop pb nxt cached_max s')))))"

definition get_more_data ::
  "nat \<Rightarrow> ('r, entry option) sm \<Rightarrow> nat \<Rightarrow> 'r page_gen \<Rightarrow> (unit result \<times> 'r page_gen) option" where
  "get_more_data pb nxt cached_max s =
     (if \<not> gen_tlog_finished s
      then if gen_cached s < cached_max then get_more_loop pb nxt cached_max s
           else Some (Inl (AssertFailed ''cached_ < cached_max_''), s)
      else Some (Inr (), s))"

definition update_current :: "((u64 \<times> entry list) list \<Rightarrow> nat) \<Rightarrow> ('r page_gen, unit) sm" where
  "update_current pick =
     sbind (sget (\<lambda>s. s)) (\<lambda>s.
       if gen_cached s > 0
       then sbind (sverify (gen_pages s \<noteq> []) ''not pages_.empty()'') (\<lambda>_.
            let i = pick (gen_pages s);
                cur = snd (gen_pages s ! i)
            in sbind (smod (\<lambda>s. s\<lparr>gen_current := cur\<rparr>)) (\<lambda>_.
               sbind (sverify (cur \<noteq> []) ''not current_.empty()'') (\<lambda>_.
               smod (\<lambda>s. s\<lparr>gen_current_size := length cur,
                            gen_pages := take i (gen_pages s) @ drop (Suc i) (gen_pages s)\<rparr>))))
       else sbind (sverify (gen_pages s = []) ''pages_.empty()'') (\<lambda>_.
            smod (\<lambda>s. s\<lparr>gen_current := [], gen_current_size := 0\<rparr>)))"

definition gen_update ::
  "nat \<Rightarrow> ('r, entry option) sm \<Rightarrow> nat \<Rightarrow> ((u64 \<times> entry list) list \<Rightarrow> nat) \<Rightarrow> 'r page_gen \<Rightarrow>
     (unit result \<times> 'r page_gen) option" where
  "gen_update pb nxt cached_max pick s =
     (case get_more_data pb nxt cached_max s of
        None \<Rightarrow> None
      | Some (Inl err, s') \<Rightarrow> Some (Inl err, s')
      | Some (Inr _, s') \<Rightarrow> Some (update_current pick s'))"

definition PageGenerator_new ::
  "nat \<Rightarrow> ('r, entry option) sm \<Rightarrow> nat \<Rightarrow> ((u64 \<times> entry list) list \<Rightarrow> nat) \<Rightarrow> 'r \<Rightarrow>
     (unit result \<times> 'r page_gen) option" where
  "PageGenerator_new pb nxt cached_max pick r =
     (let s = \<lparr>gen_pages = [], gen_tlog_finished = False, gen_cached = 0, gen_reader = r,
               gen_current = [], gen_current_size = 0\<rparr>
      in if cached_max > 0 then gen_update pb nxt cached_max pick s
         else Some (Inl (AssertFailed ''cached_max_ > 0''), s))"

definition gen_next ::
  "nat \<Rightarrow> ('r, entry option) sm \<Rightarrow> nat \<Rightarrow> ((u64 \<times> entry list) list \<Rightarrow> nat) \<Rightarrow> 'r page_gen \<Rightarrow>
     (unit result \<times> 'r page_gen) option" where
  "gen_next pb nxt cached_max pick s =
     gen_update pb nxt cached_max pick
       (s\<lparr>gen_cached := gen_cached s - gen_current_size s, gen_current_size := 0\<rparr>)"

definition gen_finished :: "'r page_gen \<Rightarrow> bool" where
  "gen_finished s \<longleftrightarrow> gen_cached s = 0"

text \<open>The generator as the interface sees it.\<close>

definition PageGenerator ::
  "nat \<Rightarrow> ('r, entry option) sm \<Rightarrow> nat \<Rightarrow> ((u64 \<times> entry list) list \<Rightarrow> nat) \<Rightarrow> ('r page_gen, entry list) generator" where
  "PageGenerator pb nxt cached_max pick =
     \<lparr>gi_current = gen_current, gi_next = gen_next pb nxt cached_max pick, gi_finished = gen_finished\<rparr>"

subsection \<open>What the groups hold\<close>

definition entry_page :: "nat \<Rightarrow> entry \<Rightarrow> u64" where
  "entry_page pb e = pageAddress pb (e_clusteraddress e)"

definition in_page :: "nat \<Rightarrow> u64 \<Rightarrow> entry \<Rightarrow> bool" where
  "in_page pb pa e \<longleftrightarrow> entry_page pb e = pa"

definition page_group :: "u64 \<Rightarrow> (u64 \<times> entry list) list \<Rightarrow> entry list" where
  "page_group pa ps = (case map_of ps pa of None \<Rightarrow> [] | Some es \<Rightarrow> es)"

definition pages_inv :: "nat \<Rightarrow> (u64 \<times> entry list) list \<Rightarrow> bool" where
  "pages_inv pb ps \<longleftrightarrow> distinct (map fst ps) \<and>
     (\<forall>(pa, es) \<in> set ps. es \<noteq> [] \<and> (\<forall>e \<in> set es. in_page pb pa e))"

definition page_total :: "(u64 \<times> entry list) list \<Rightarrow> nat" where
  "page_total ps = sum_list (map (length \<circ> snd) ps)"

lemma fst_pages_push: "fst ` set (pages_push pa e ps) = insert pa (fst ` set ps)"
  by (induction pa e ps rule: pages_push.induct) auto

lemma page_group_push: "page_group pa' (pages_push pa e ps) = page_group pa' ps @ (if pa' = pa then [e] else [])"
  by (induction pa e ps rule: pages_push.induct) (auto simp: page_group_def)

lemma page_total_push: "page_total (pages_push pa e ps) = Suc (page_total ps)"
  by (induction pa e ps rule: pages_push.induct) (auto simp: page_total_def)

lemma pages_inv_push:
  assumes "pages_inv pb ps" and "in_page pb pa e"
  shows "pages_inv pb (pages_push pa e ps)"
  using assms
proof (induction pa e ps rule: pages_push.induct)
  case (2 pa e k es ps)
  then show ?case using fst_pages_push [of pa e ps] by (auto simp: pages_inv_def)
qed (simp add: pages_inv_def)

text \<open>Taking one group out.\<close>

lemma page_group_mid:
  assumes "pages_inv pb (xs @ (k, es) # ys)"
  shows "page_group pa (xs @ (k, es) # ys) = (if pa = k then es else []) @ page_group pa (xs @ ys)"
proof -
  from assms have "k \<notin> fst ` set xs" "k \<notin> fst ` set ys" by (auto simp: pages_inv_def)
  then have "map_of xs k = None" "map_of ys k = None" by (simp_all add: map_of_eq_None_iff)
  then show ?thesis by (auto simp: page_group_def map_add_def split: option.splits)
qed

lemma pages_inv_mid:
  assumes "pages_inv pb (xs @ (k, es) # ys)"
  shows "pages_inv pb (xs @ ys)" and "es \<noteq> []" and "\<forall>e \<in> set es. in_page pb k e"
  using assms by (auto simp: pages_inv_def)

lemma page_total_mid: "page_total (xs @ (k, es) # ys) = length es + page_total (xs @ ys)"
  by (simp add: page_total_def)

subsection \<open>The generator over a reader\<close>

definition gen_inv :: "nat \<Rightarrow> 'r page_gen \<Rightarrow> bool" where
  "gen_inv pb s \<longleftrightarrow> pages_inv pb (gen_pages s) \<and> gen_cached s = page_total (gen_pages s)"

text \<open>A location whose address can be read.\<close>

definition readable :: "entry \<Rightarrow> bool" where
  "readable e \<longleftrightarrow> e_clusteraddress e \<le> max_valid_cluster_address"

lemma readable_address: "readable e \<Longrightarrow> Entry_clusterAddress e = Inr (e_clusteraddress e)"
  by (simp add: readable_def Entry_clusterAddress_def verify_def)

context tlog_source
begin

definition locs :: "'r \<Rightarrow> entry list" where
  "locs r = filter isLocation (left r)"

lemma get_more_loop_ok:
  assumes "ok (gen_reader s)" and "gen_inv pb s" and "gen_cached s < m"
    and "\<forall>e \<in> set (locs (gen_reader s)). readable e"
  shows "\<exists>s'. get_more_loop pb nxt m s = Some (Inr (), s') \<and> ok (gen_reader s') \<and> gen_inv pb s' \<and>
    (\<forall>e \<in> set (locs (gen_reader s')). readable e) \<and> gen_cached s' \<le> m \<and>
    gen_cached s' + length (locs (gen_reader s')) = gen_cached s + length (locs (gen_reader s)) \<and>
    (gen_tlog_finished s' \<longrightarrow> locs (gen_reader s') = [] \<or> gen_tlog_finished s) \<and>
    (gen_cached s' = 0 \<longrightarrow> locs (gen_reader s') = []) \<and>
    (\<forall>pa. page_group pa (gen_pages s') @ filter (in_page pb pa) (locs (gen_reader s')) =
          page_group pa (gen_pages s) @ filter (in_page pb pa) (locs (gen_reader s)))"
  using assms
proof (induction "locs (gen_reader s)" arbitrary: s)
  case Nil
  from nextLocation_ok [OF Nil.prems(1)] Nil.hyps Nil.prems show ?case
    by (fastforce simp: get_more_loop.simps locs_def gen_inv_def)
next
  case (Cons e es)
  from nextLocation_ok [OF Cons.prems(1)] Cons.hyps(2) obtain r1 where
    n: "nextLocation nxt (gen_reader s) = Some (Inr (Some e), r1)" "ok r1" "locs r1 = es"
    by (auto simp: locs_def split: list.splits)
  have rd: "readable e" using Cons.prems(4) Cons.hyps(2) [symmetric] by simp
  let ?s = "s\<lparr>gen_reader := r1, gen_pages := pages_push (entry_page pb e) e (gen_pages s),
              gen_cached := Suc (gen_cached s)\<rparr>"
  have inv: "gen_inv pb ?s"
    using Cons.prems(2) pages_inv_push [of pb "gen_pages s" "entry_page pb e" e]
    by (simp add: gen_inv_def page_total_push in_page_def)
  have grp: "page_group pa (gen_pages ?s) @ filter (in_page pb pa) (locs (gen_reader ?s)) =
      page_group pa (gen_pages s) @ filter (in_page pb pa) (locs (gen_reader s))" for pa
    using n Cons.hyps(2) [symmetric] by (simp add: page_group_push in_page_def)
  have step: "get_more_loop pb nxt m s =
      (if Suc (gen_cached s) \<ge> m then Some (Inr (), ?s) else get_more_loop pb nxt m ?s)"
    using n by (simp add: get_more_loop.simps [of pb nxt m s] readable_address [OF rd] entry_page_def Let_def)
  have rds: "\<forall>e \<in> set (locs (gen_reader ?s)). readable e"
    using Cons.prems(4) Cons.hyps(2) [symmetric] n by simp
  show ?case
  proof (cases "Suc (gen_cached s) \<ge> m")
    case True
    with step inv grp rds n Cons.hyps(2) [symmetric] Cons.prems(3) show ?thesis by simp
  next
    case False
    then have "gen_cached ?s < m" by simp
    from Cons.hyps(1) [OF _ _ inv this rds] n step False grp Cons.hyps(2) [symmetric] show ?thesis by auto
  qed
qed

text \<open>What a consumer may rely on between two calls.\<close>

definition gen_ok :: "nat \<Rightarrow> nat \<Rightarrow> 'r page_gen \<Rightarrow> bool" where
  "gen_ok pb m s \<longleftrightarrow> ok (gen_reader s) \<and> pages_inv pb (gen_pages s) \<and>
     gen_current_size s = length (gen_current s) \<and> gen_cached s = page_total (gen_pages s) + gen_current_size s \<and>
     gen_cached s \<le> m \<and> (gen_current s = [] \<longrightarrow> gen_cached s = 0 \<and> locs (gen_reader s) = []) \<and>
     (\<forall>e \<in> set (locs (gen_reader s)). readable e) \<and>
     (gen_tlog_finished s \<longrightarrow> locs (gen_reader s) = []) \<and>
     (\<exists>k. \<forall>e \<in> set (gen_current s). in_page pb k e)"

lemma get_more_data_ok:
  assumes "ok (gen_reader s)" and "gen_inv pb s" and "gen_cached s < m"
    and "\<forall>e \<in> set (locs (gen_reader s)). readable e" and "gen_tlog_finished s \<longrightarrow> locs (gen_reader s) = []"
  shows "\<exists>s'. get_more_data pb nxt m s = Some (Inr (), s') \<and> ok (gen_reader s') \<and> gen_inv pb s' \<and>
    (\<forall>e \<in> set (locs (gen_reader s')). readable e) \<and> gen_cached s' \<le> m \<and>
    gen_cached s' + length (locs (gen_reader s')) = gen_cached s + length (locs (gen_reader s)) \<and>
    (gen_tlog_finished s' \<longrightarrow> locs (gen_reader s') = []) \<and>
    (gen_cached s' = 0 \<longrightarrow> locs (gen_reader s') = []) \<and>
    (\<forall>pa. page_group pa (gen_pages s') @ filter (in_page pb pa) (locs (gen_reader s')) =
          page_group pa (gen_pages s) @ filter (in_page pb pa) (locs (gen_reader s)))"
proof (cases "gen_tlog_finished s")
  case True
  with assms show ?thesis by (simp add: get_more_data_def)
next
  case False
  with get_more_loop_ok [OF assms(1-4)] assms(3) show ?thesis by (auto simp: get_more_data_def)
qed

lemma update_current_ok:
  assumes "gen_inv pb s" and "ok (gen_reader s)" and "gen_cached s \<le> m"
    and "\<forall>e \<in> set (locs (gen_reader s)). readable e" and "gen_tlog_finished s \<longrightarrow> locs (gen_reader s) = []"
    and "gen_cached s = 0 \<longrightarrow> locs (gen_reader s) = []" and "\<forall>ps. ps \<noteq> [] \<longrightarrow> pick ps < length ps"
  shows "\<exists>s'. update_current pick s = (Inr (), s') \<and> gen_ok pb m s' \<and> gen_reader s' = gen_reader s \<and>
    gen_cached s' = gen_cached s \<and>
    (\<forall>pa. filter (in_page pb pa) (gen_current s') @ page_group pa (gen_pages s') = page_group pa (gen_pages s))"
proof (cases "gen_cached s = 0")
  case True
  with assms(1) have "gen_pages s = []" by (cases "gen_pages s") (auto simp: gen_inv_def page_total_def pages_inv_def)
  with True assms show ?thesis
    by (simp add: update_current_def sbind_def sget_def sverify_def slift_def verify_def smod_def gen_ok_def gen_inv_def page_total_def)
next
  case False
  with assms(1) have ne: "gen_pages s \<noteq> []" by (auto simp: gen_inv_def page_total_def)
  define i where "i = pick (gen_pages s)"
  define xs where "xs = take i (gen_pages s)"
  define ys where "ys = drop (Suc i) (gen_pages s)"
  obtain k es where k: "gen_pages s ! i = (k, es)" by fastforce
  have "i < length (gen_pages s)" using assms(7) ne by (simp add: i_def)
  from id_take_nth_drop [OF this] have ps: "gen_pages s = xs @ (k, es) # ys" unfolding xs_def ys_def k .
  have inv: "pages_inv pb (xs @ (k, es) # ys)" using assms(1) unfolding gen_inv_def ps by simp
  note mid = pages_inv_mid [OF inv]
  let ?s = "s\<lparr>gen_current := es, gen_current_size := length es, gen_pages := xs @ ys\<rparr>"
  have "update_current pick s = (Inr (), ?s)"
    using False ne k mid(2)
    by (simp add: update_current_def sbind_def sget_def sverify_def slift_def verify_def smod_def i_def [symmetric] xs_def ys_def)
  moreover have "gen_ok pb m ?s"
    using assms mid False page_total_mid [of xs k es ys] unfolding gen_inv_def gen_ok_def ps by auto
  moreover have "filter (in_page pb pa) es @ page_group pa (xs @ ys) = page_group pa (gen_pages s)" for pa
  proof -
    have "filter (in_page pb pa) es = (if pa = k then es else [])"
      using mid(3) by (auto simp: in_page_def intro: filter_True filter_False)
    then show ?thesis unfolding ps page_group_mid [OF inv] by simp
  qed
  ultimately show ?thesis by (intro exI [of _ ?s]) simp
qed

lemma gen_update_ok:
  assumes "ok (gen_reader s)" and "gen_inv pb s" and "gen_cached s < m"
    and "\<forall>e \<in> set (locs (gen_reader s)). readable e" and "gen_tlog_finished s \<longrightarrow> locs (gen_reader s) = []"
    and "\<forall>ps. ps \<noteq> [] \<longrightarrow> pick ps < length ps"
  shows "\<exists>s'. gen_update pb nxt m pick s = Some (Inr (), s') \<and> gen_ok pb m s' \<and>
    gen_cached s' + length (locs (gen_reader s')) = gen_cached s + length (locs (gen_reader s)) \<and>
    (\<forall>pa. filter (in_page pb pa) (gen_current s') @ page_group pa (gen_pages s') @
            filter (in_page pb pa) (locs (gen_reader s')) =
          page_group pa (gen_pages s) @ filter (in_page pb pa) (locs (gen_reader s)))"
proof -
  from get_more_data_ok [OF assms(1-5)] obtain s1 where
    1: "get_more_data pb nxt m s = Some (Inr (), s1)" "ok (gen_reader s1)" "gen_inv pb s1"
      "\<forall>e \<in> set (locs (gen_reader s1)). readable e" "gen_cached s1 \<le> m"
      "gen_cached s1 + length (locs (gen_reader s1)) = gen_cached s + length (locs (gen_reader s))"
      "gen_tlog_finished s1 \<longrightarrow> locs (gen_reader s1) = []" "gen_cached s1 = 0 \<longrightarrow> locs (gen_reader s1) = []"
      "\<forall>pa. page_group pa (gen_pages s1) @ filter (in_page pb pa) (locs (gen_reader s1)) =
          page_group pa (gen_pages s) @ filter (in_page pb pa) (locs (gen_reader s))"
    by (elim exE conjE) (rule that)
  from update_current_ok [OF 1(3,2,5,4,7,8) assms(6)] obtain s2 where
    2: "update_current pick s1 = (Inr (), s2)" "gen_ok pb m s2" "gen_reader s2 = gen_reader s1"
      "gen_cached s2 = gen_cached s1"
      "\<forall>pa. filter (in_page pb pa) (gen_current s2) @ page_group pa (gen_pages s2) = page_group pa (gen_pages s1)"
    by (elim exE conjE) (rule that)
  have "filter (in_page pb pa) (gen_current s2) @ page_group pa (gen_pages s2) @
      filter (in_page pb pa) (locs (gen_reader s2)) =
      page_group pa (gen_pages s) @ filter (in_page pb pa) (locs (gen_reader s))" for pa
    using 1(9) 2(3) 2(5) [rule_format, of pa] by (simp flip: append_assoc)
  with 1 2 show ?thesis by (simp add: gen_update_def)
qed

lemma gen_gives:
  assumes "gen_ok pb m s" and "\<forall>ps. ps \<noteq> [] \<longrightarrow> pick ps < length ps" and "0 < m"
  shows "\<exists>pages. gives (PageGenerator pb nxt m pick) s pages None \<and>
    (\<forall>p \<in> set pages. p \<noteq> [] \<and> length p \<le> m \<and> (\<exists>k. \<forall>e \<in> set p. in_page pb k e)) \<and>
    (\<forall>pa. filter (in_page pb pa) (concat pages) =
       filter (in_page pb pa) (gen_current s) @ page_group pa (gen_pages s) @
       filter (in_page pb pa) (locs (gen_reader s)))"
  using assms(1)
proof (induction "gen_cached s + length (locs (gen_reader s))" arbitrary: s rule: less_induct)
  case less
  show ?case
  proof (cases "gen_cached s = 0")
    case True
    with less.prems have "gen_current s = []" "page_total (gen_pages s) = 0" "locs (gen_reader s) = []"
      by (auto simp: gen_ok_def)
    moreover from this less.prems have "gen_pages s = []"
      by (cases "gen_pages s") (auto simp: gen_ok_def page_total_def pages_inv_def)
    moreover have "gives (PageGenerator pb nxt m pick) s [] None"
      by (rule gives_end) (simp add: PageGenerator_def gen_finished_def True)
    ultimately show ?thesis by (intro exI [of _ "[]"]) (simp add: page_group_def)
  next
    case False
    let ?s = "s\<lparr>gen_cached := gen_cached s - gen_current_size s, gen_current_size := 0\<rparr>"
    have ne: "gen_current s \<noteq> []" using less.prems False by (auto simp: gen_ok_def)
    have "ok (gen_reader ?s)" "gen_inv pb ?s" "gen_cached ?s < m" "gen_cached ?s < gen_cached s"
      "\<forall>e \<in> set (locs (gen_reader ?s)). readable e" "gen_tlog_finished ?s \<longrightarrow> locs (gen_reader ?s) = []"
      using less.prems ne assms(3) False
      by (cases "gen_current s"; force simp: gen_ok_def gen_inv_def)+
    note g = this
    from gen_update_ok [OF g(1-3,5,6) assms(2)] obtain s1 where
      1: "gen_update pb nxt m pick ?s = Some (Inr (), s1)" "gen_ok pb m s1"
        "gen_cached s1 + length (locs (gen_reader s1)) = gen_cached ?s + length (locs (gen_reader ?s))"
        "\<forall>pa. filter (in_page pb pa) (gen_current s1) @ page_group pa (gen_pages s1) @
            filter (in_page pb pa) (locs (gen_reader s1)) =
          page_group pa (gen_pages ?s) @ filter (in_page pb pa) (locs (gen_reader ?s))" by blast
    from 1(3) g(4) have "gen_cached s1 + length (locs (gen_reader s1)) < gen_cached s + length (locs (gen_reader s))"
      by simp
    from less.hyps [OF this 1(2)] obtain pages where
      2: "gives (PageGenerator pb nxt m pick) s1 pages None"
        "\<forall>p \<in> set pages. p \<noteq> [] \<and> length p \<le> m \<and> (\<exists>k. \<forall>e \<in> set p. in_page pb k e)"
        "\<forall>pa. filter (in_page pb pa) (concat pages) =
           filter (in_page pb pa) (gen_current s1) @ page_group pa (gen_pages s1) @
           filter (in_page pb pa) (locs (gen_reader s1))" by blast
    have "gives (PageGenerator pb nxt m pick) s (gi_current (PageGenerator pb nxt m pick) s # pages) None"
      by (rule gives_item [OF _ _ 2(1)]) (use 1(1) False in \<open>simp_all add: PageGenerator_def gen_finished_def gen_next_def\<close>)
    then have "gives (PageGenerator pb nxt m pick) s (gen_current s # pages) None" by (simp add: PageGenerator_def)
    moreover have "length (gen_current s) \<le> m" "\<exists>k. \<forall>e \<in> set (gen_current s). in_page pb k e"
      using less.prems by (auto simp: gen_ok_def)
    ultimately show ?thesis using 1(4) 2(2,3) ne by (intro exI [of _ "gen_current s # pages"]) simp
  qed
qed

lemma PageGenerator_gives:
  assumes "ok r" and "0 < m" and "\<forall>e \<in> set (filter isLocation (left r)). readable e"
    and "\<forall>ps. ps \<noteq> [] \<longrightarrow> pick ps < length ps"
  shows "\<exists>g pages. PageGenerator_new pb nxt m pick r = Some (Inr (), g) \<and>
    gives (PageGenerator pb nxt m pick) g pages None \<and>
    (\<forall>p \<in> set pages. p \<noteq> [] \<and> length p \<le> m \<and> (\<exists>k. \<forall>e \<in> set p. in_page pb k e)) \<and>
    (\<forall>pa. filter (in_page pb pa) (concat pages) = filter (in_page pb pa) (filter isLocation (left r)))"
proof -
  let ?s = "\<lparr>gen_pages = [], gen_tlog_finished = False, gen_cached = 0, gen_reader = r,
             gen_current = [], gen_current_size = 0\<rparr>"
  have "ok (gen_reader ?s)" "gen_inv pb ?s" "gen_cached ?s < m"
    "\<forall>e \<in> set (locs (gen_reader ?s)). readable e" "gen_tlog_finished ?s \<longrightarrow> locs (gen_reader ?s) = []"
    using assms by (simp_all add: gen_inv_def pages_inv_def page_total_def locs_def)
  from gen_update_ok [OF this assms(4)] obtain g where
    1: "gen_update pb nxt m pick ?s = Some (Inr (), g)" "gen_ok pb m g"
      "\<forall>pa. filter (in_page pb pa) (gen_current g) @ page_group pa (gen_pages g) @
          filter (in_page pb pa) (locs (gen_reader g)) =
        page_group pa (gen_pages ?s) @ filter (in_page pb pa) (locs (gen_reader ?s))" by blast
  from gen_gives [OF 1(2) assms(4,2)] 1(1,3) assms(2) show ?thesis
    by (auto simp: PageGenerator_new_def locs_def page_group_def)
qed

end

end
