(* ===== verification/Replay.thy ===== *)
theory Replay
  imports Metadata_Store_Properties Page_Generator
begin

text \<open>
  The rebuild of the metadata from the TLogs, end to end: the TLogs that \<^verbatim>\<open>TLogWriter\<close> wrote are read
  by a \<^verbatim>\<open>CombinedTLogReader\<close>, grouped by a \<^verbatim>\<open>PageGenerator\<close>, handed over by a
  \<^verbatim>\<open>ThreadedGenerator\<close> and written to the store by \<^verbatim>\<open>processCloneTLogs\<close>
  (src/src/volumedriver/CachedMetaDataStore.cpp). Groups come in the order of an unordered map and may
  split a page; what the store ends up with is nevertheless what the TLogs say in their order.
\<close>

subsection \<open>Order of updates\<close>

lemma override_local: "v ca = w ca \<Longrightarrow> override zw us v ca = override zw us w ca"
proof (induction us arbitrary: v w)
  case (Cons u us)
  obtain k l where u: "u = (k, l)" by fastforce
  have "override zw us (v(k := clh_norm zw l)) ca = override zw us (w(k := clh_norm zw l)) ca"
    by (rule Cons.IH) (simp add: Cons.prems)
  then show ?case unfolding u override_Cons .
qed (simp add: override_def)

lemma override_address: "override zw us v ca = override zw (filter (\<lambda>u. fst u = ca) us) v ca"
proof (induction us arbitrary: v)
  case (Cons u us)
  obtain k l where u: "u = (k, l)" by fastforce
  have "k \<noteq> ca \<Longrightarrow> override zw us (v(k := clh_norm zw l)) ca = override zw us v ca"
    by (rule override_local) simp
  with Cons [of "v(ca := clh_norm zw l)"] Cons [of v] show ?case
    by (cases "k = ca") (simp_all add: u override_Cons del: fun_upd_apply)
qed (simp add: override_def)

text \<open>Entries whose order within each page is the same have the same effect.\<close>

lemma override_pages:
  assumes "\<forall>pa. filter (in_page pb pa) es = filter (in_page pb pa) es'"
  shows "override zw (map (entry_update cid) es) v = override zw (map (entry_update cid) es') v"
proof
  fix ca
  have f: "filter (\<lambda>u. fst u = ca) (map (entry_update cid) es) =
      map (entry_update cid) (filter (\<lambda>e. e_clusteraddress e = ca) (filter (in_page pb (pageAddress pb ca)) es))" for es
    by (induction es) (auto simp: entry_update_def in_page_def entry_page_def)
  show "override zw (map (entry_update cid) es) v ca = override zw (map (entry_update cid) es') v ca"
    by (subst (1 2) override_address) (simp only: f assms)
qed

subsection \<open>From the TLogs to the groups of entries\<close>

text \<open>
  What the environment of a replay decides: the page size, the reader's buffer, the two limits of
  src/src/volumedriver/CachedMetaDataStore.cpp and the iteration order of the unordered map.
\<close>

record replay_env =
  rp_tlog :: tlog_env
  rp_page_bits :: nat
  rp_read_size :: nat
  replayClustersCached :: nat
  replayPagesQueued :: nat
  rp_pick :: "(u64 \<times> entry list) list \<Rightarrow> nat"

definition replay_env_ok :: "replay_env \<Rightarrow> bool" where
  "replay_env_ok rp \<longleftrightarrow> 0 < rp_read_size rp \<and>
     rp_read_size rp * Entry_getDataSize (te_hash (rp_tlog rp)) < 2 ^ 32 \<and> 0 < replayClustersCached rp \<and>
     (\<forall>ps. ps \<noteq> [] \<longrightarrow> rp_pick rp ps < length ps)"

definition replay_generator :: "replay_env \<Rightarrow> (combined_reader page_gen, entry list) generator" where
  "replay_generator rp =
     PageGenerator (rp_page_bits rp) (combined_nextAny (rp_tlog rp) (rp_read_size rp))
       (replayClustersCached rp) (rp_pick rp)"

text \<open>
  \<open>processTLogReaderInterface\<close> up to \<open>processPages\<close>: \<open>pages\<close> are the groups that the threaded
  generator over the page generator over the reader of the files handed out in some run to its end.
\<close>

inductive replay_pages :: "replay_env \<Rightarrow> u8 list list \<Rightarrow> entry list list \<Rightarrow> bool" for rp where
  "PageGenerator_new (rp_page_bits rp) (combined_nextAny (rp_tlog rp) (rp_read_size rp))
     (replayClustersCached rp) (rp_pick rp)
     (TLogReaderGen_update (te_hash (rp_tlog rp)) (rp_read_size rp) files) = Some (Inr (), g) \<Longrightarrow>
   (tg_move (replay_generator rp))\<^sup>*\<^sup>* (ThreadedGenerator_new g (replayPagesQueued rp)) s \<Longrightarrow>
   tg_finished s \<Longrightarrow> tg_error s = None \<Longrightarrow>
   replay_pages rp files (tg_taken s)"

text \<open>The locations in the files, in their order.\<close>

definition tlog_locations :: "bool \<Rightarrow> u8 list list \<Rightarrow> entry list" where
  "tlog_locations hash files = filter isLocation (concat (map (file_entries hash) files))"

lemma replay_generator_gives:
  assumes "replay_env_ok rp" and "\<forall>e \<in> set (tlog_locations (te_hash (rp_tlog rp)) files). readable e"
  shows "\<exists>g pages. PageGenerator_new (rp_page_bits rp) (combined_nextAny (rp_tlog rp) (rp_read_size rp))
      (replayClustersCached rp) (rp_pick rp)
      (TLogReaderGen_update (te_hash (rp_tlog rp)) (rp_read_size rp) files) = Some (Inr (), g) \<and>
    gives (replay_generator rp) g pages None \<and>
    (\<forall>p \<in> set pages. p \<noteq> [] \<and> length p \<le> replayClustersCached rp \<and>
       (\<exists>k. \<forall>e \<in> set p. in_page (rp_page_bits rp) k e)) \<and>
    (\<forall>pa. filter (in_page (rp_page_bits rp) pa) (concat pages) =
       filter (in_page (rp_page_bits rp) pa) (tlog_locations (te_hash (rp_tlog rp)) files))"
proof -
  have cs: "0 < rp_read_size rp" "rp_read_size rp * Entry_getDataSize (te_hash (rp_tlog rp)) < 2 ^ 32"
    "0 < replayClustersCached rp" "\<forall>ps. ps \<noteq> [] \<longrightarrow> rp_pick rp ps < length ps"
    using assms(1) by (simp_all add: replay_env_ok_def)
  note u = combined_update [OF cs(1,2), of files]
  have "\<forall>e \<in> set (filter isLocation (combined_left (te_hash (rp_tlog rp))
      (TLogReaderGen_update (te_hash (rp_tlog rp)) (rp_read_size rp) files))). readable e"
    using assms(2) unfolding u(2) tlog_locations_def .
  from comb.PageGenerator_gives [OF u(1) cs(3) this cs(4), of "rp_page_bits rp"] show ?thesis
    unfolding u(2) tlog_locations_def [symmetric] replay_generator_def .
qed

lemma replay_pages_ok:
  assumes "replay_env_ok rp" and "\<forall>e \<in> set (tlog_locations (te_hash (rp_tlog rp)) files). readable e"
    and "replay_pages rp files pages"
  shows "(\<forall>p \<in> set pages. p \<noteq> [] \<and> length p \<le> replayClustersCached rp \<and>
       (\<exists>k. \<forall>e \<in> set p. in_page (rp_page_bits rp) k e)) \<and>
    (\<forall>pa. filter (in_page (rp_page_bits rp) pa) (concat pages) =
       filter (in_page (rp_page_bits rp) pa) (tlog_locations (te_hash (rp_tlog rp)) files))"
  using assms(3)
proof cases
  case (1 g s)
  from replay_generator_gives [OF assms(1,2)] 1(2) obtain xs where
    g: "gives (replay_generator rp) g xs None"
    and f: "\<forall>p \<in> set xs. p \<noteq> [] \<and> length p \<le> replayClustersCached rp \<and>
       (\<exists>k. \<forall>e \<in> set p. in_page (rp_page_bits rp) k e)"
      "\<forall>pa. filter (in_page (rp_page_bits rp) pa) (concat xs) =
      filter (in_page (rp_page_bits rp) pa) (tlog_locations (te_hash (rp_tlog rp)) files)" by auto
  from tg_finished_all [OF g 1(3,4)] f 1(1) show ?thesis by simp
qed

lemma replay_pages_exist:
  assumes "replay_env_ok rp" and "\<forall>e \<in> set (tlog_locations (te_hash (rp_tlog rp)) files). readable e"
  shows "\<exists>pages. replay_pages rp files pages"
proof -
  from replay_generator_gives [OF assms] obtain g xs where
    g: "PageGenerator_new (rp_page_bits rp) (combined_nextAny (rp_tlog rp) (rp_read_size rp))
      (replayClustersCached rp) (rp_pick rp)
      (TLogReaderGen_update (te_hash (rp_tlog rp)) (rp_read_size rp) files) = Some (Inr (), g)"
    and gv: "gives (replay_generator rp) g xs None" by blast
  from tg_run_to_end [OF gv] obtain s where
    s: "(tg_move (replay_generator rp))\<^sup>*\<^sup>* (ThreadedGenerator_new g (replayPagesQueued rp)) s" "tg_finished s" by blast
  from tg_finished_all [OF gv s] show ?thesis by (blast intro: replay_pages.intros [OF g s])
qed

text \<open>A TLog that a writer made: \<open>f\<close> is the closed file, \<open>adds\<close> the locations that were added.\<close>

fun op_location :: "tlog_op \<Rightarrow> (u64 \<times> clh) list" where
  "op_location (AddLoc ca loc) = [(ca, loc)]"
| "op_location _ = []"

definition loc_entry :: "u64 \<times> clh \<Rightarrow> entry" where
  "loc_entry = (\<lambda>(ca, loc). \<lparr>e_clusteraddress = ca, e_loc = loc\<rparr>)"

inductive written_tlog :: "tlog_env \<Rightarrow> u8 list \<times> (u64 \<times> clh) list \<Rightarrow> bool" for env where
  "TLogWriter_new env rc ps nb [] = Inr w0 \<Longrightarrow> 0 < ps \<Longrightarrow>
   sfor ops (tlog_run env) w0 = (Inr (), w) \<Longrightarrow> TLogWriter_close env w = (Inr cs, w') \<Longrightarrow>
   \<forall>ca loc. AddLoc ca loc \<in> set ops \<longrightarrow> te_hash env \<or> weed loc = 0 \<Longrightarrow>
   written_tlog env (tw_file w', concat (map op_location ops))"

lemma isLocation_iff: "isLocation e \<longleftrightarrow> \<not> isNull (clusterLocation (e_loc e))"
  by (auto simp: isLocation_def Entry_is_def Entry_type_def Let_def split: if_splits)

lemma crc_no_location: "Entry_crc v t = Inr crc \<Longrightarrow> \<not> isLocation crc"
  by (auto simp: isLocation_iff Entry_crc_def verify_def clh_zero_def null_location_def isNull_def
      ClusterLocation_new_def SCO_new_def split: if_splits)

lemma op_locations:
  assumes "sfor ops (tlog_run env) w = (Inr (), w')"
  shows "filter isLocation (concat (map tlog_op_entries ops)) = map loc_entry (concat (map op_location ops)) \<and>
    (\<forall>e \<in> set (map loc_entry (concat (map op_location ops))). readable e)"
  using assms
proof (induction ops arbitrary: w)
  case (Cons op ops)
  from Cons.prems obtain w1 where 1: "tlog_run env op w = (Inr (), w1)"
    and 2: "sfor ops (tlog_run env) w1 = (Inr (), w')" by auto
  have "filter isLocation (tlog_op_entries op) = map loc_entry (op_location op) \<and>
      (\<forall>e \<in> set (map loc_entry (op_location op)). readable e)"
  proof (cases op)
    case (AddLoc ca loc)
    with 1 show ?thesis
      by (auto simp: TLogWriter_add_def tw_place_def Entry_loc_def verify_def isLocation_iff loc_entry_def
          readable_def split: if_splits)
  next
    case (AddCRC cs)
    have "Entry_crc (CheckSum_getValue cs) SCOCRC = Inr (projr (Entry_crc (CheckSum_getValue cs) SCOCRC))"
      by (simp add: Entry_crc_def verify_def)
    from crc_no_location [OF this] AddCRC show ?thesis by simp
  next
    case AddSync
    then show ?thesis
      by (simp add: Entry_sync_def isLocation_iff clh_zero_def null_location_def isNull_def
          ClusterLocation_new_def SCO_new_def)
  qed simp
  with Cons.IH [OF 2] show ?case by auto
qed simp

lemma written_tlog_locations:
  assumes "written_tlog env t"
  shows "filter isLocation (file_entries (te_hash env) (fst t)) = map loc_entry (snd t) \<and>
    (\<forall>e \<in> set (map loc_entry (snd t)). readable e)"
  using assms
proof cases
  case (1 rc ps nb w0 ops w cs w')
  from closed_tlog [OF 1(2-6)] obtain crc where
    "Entry_crc (CheckSum_getValue (calculate_checksum env ps
       ([] @ entries_bytes (te_hash env) (concat (map tlog_op_entries ops))))) TLogCRC = Inr crc"
    "file_entries (te_hash env) (tw_file w') =
       file_entries (te_hash env) [] @ concat (map tlog_op_entries ops) @ [crc]" by blast
  with crc_no_location op_locations [OF 1(4)] 1(1) show ?thesis by (simp add: file_entries_def)
qed

lemma written_tlogs_locations:
  assumes "\<forall>t \<in> set tlogs. written_tlog env t"
  shows "tlog_locations (te_hash env) (map fst tlogs) = map loc_entry (concat (map snd tlogs)) \<and>
    (\<forall>e \<in> set (tlog_locations (te_hash env) (map fst tlogs)). readable e)"
proof -
  have "tlog_locations (te_hash env) (map fst tlogs) = map loc_entry (concat (map snd tlogs))"
    using assms
  proof (induction tlogs)
    case (Cons t tlogs)
    then show ?case using written_tlog_locations [of env t] by (simp add: tlog_locations_def)
  qed (simp add: tlog_locations_def)
  then show ?thesis using assms written_tlog_locations by auto
qed

subsection \<open>From the groups to the store\<close>

text \<open>One entry of \<^verbatim>\<open>CloneTLogs\<close>, with its TLogs and the groups that were made of them.\<close>

record replay_clone =
  rc_cloneid :: u8
  rc_tlogs :: "(u8 list \<times> (u64 \<times> clh) list) list"
  rc_pages :: "entry list list"

definition clone_pages :: "replay_clone \<Rightarrow> u8 \<times> entry list list" where
  "clone_pages rc = (rc_cloneid rc, rc_pages rc)"

definition clone_updates :: "replay_clone \<Rightarrow> (u64 \<times> clh) list" where
  "clone_updates rc = map (\<lambda>(ca, loc). (ca, clh_cloneID (rc_cloneid rc) loc)) (concat (map snd (rc_tlogs rc)))"

definition replayed :: "replay_env \<Rightarrow> replay_clone \<Rightarrow> bool" where
  "replayed rp rc \<longleftrightarrow> (\<forall>t \<in> set (rc_tlogs rc). written_tlog (rp_tlog rp) t) \<and>
     replay_pages rp (map fst (rc_tlogs rc)) (rc_pages rc)"

lemma replayed_updates:
  assumes "replay_env_ok rp" and "\<forall>rc \<in> set clones. replayed rp rc"
  shows "override zw (replay_updates (map clone_pages clones)) v = override zw (concat (map clone_updates clones)) v"
  using assms(2)
proof (induction clones arbitrary: v)
  case (Cons rc clones)
  let ?h = "te_hash (rp_tlog rp)"
  have w: "\<forall>t \<in> set (rc_tlogs rc). written_tlog (rp_tlog rp) t"
    and p: "replay_pages rp (map fst (rc_tlogs rc)) (rc_pages rc)"
    using Cons.prems by (simp_all add: replayed_def)
  note l = written_tlogs_locations [OF w]
  have "map (entry_update (rc_cloneid rc)) (tlog_locations ?h (map fst (rc_tlogs rc))) = clone_updates rc"
    unfolding conjunct1 [OF l] clone_updates_def by (simp add: entry_update_def loc_entry_def split_def)
  then have "override zw (map (entry_update (rc_cloneid rc)) (concat (rc_pages rc))) v = override zw (clone_updates rc) v"
    using override_pages [OF conjunct2 [OF replay_pages_ok [OF assms(1) conjunct2 [OF l] p]]] by metis
  moreover have "replay_updates (map clone_pages (rc # clones)) =
      map (entry_update (rc_cloneid rc)) (concat (rc_pages rc)) @ replay_updates (map clone_pages clones)"
    by (simp add: replay_updates_def clone_pages_def)
  ultimately show ?case using Cons by (simp add: override_append)
qed (simp add: replay_updates_def)

subsection \<open>Properties\<close>

text \<open>
  C26. The groups of a replay: for TLogs whose locations can be read, the reader, the page generator and
  the thread between it and its consumer run to their end without an exception. In every such run, each
  group is not empty, holds at most \<^verbatim>\<open>replayClustersCached\<close> entries, all of one page, and for every
  page the entries of its groups are the locations of that page in all TLogs, in the order of the
  TLogs.
\<close>

theorem replay_pages_grouped:
  assumes "replay_env_ok rp" and "\<forall>e \<in> set (tlog_locations (te_hash (rp_tlog rp)) files). readable e"
  shows "(\<exists>pages. replay_pages rp files pages) \<and>
    (replay_pages rp files pages \<longrightarrow>
      (\<forall>p \<in> set pages. p \<noteq> [] \<and> length p \<le> replayClustersCached rp \<and>
         (\<exists>k. \<forall>e \<in> set p. in_page (rp_page_bits rp) k e)) \<and>
      (\<forall>pa. filter (in_page (rp_page_bits rp) pa) (concat pages) =
         filter (in_page (rp_page_bits rp) pa) (tlog_locations (te_hash (rp_tlog rp)) files)))"
  using replay_pages_exist [OF assms] replay_pages_ok [OF assms] by blast

text \<open>
  C4. Rebuilding the metadata, end to end: TLogs that were written and closed by TLog writers, for each
  clone from the root to the volume, are read, grouped, handed over by a thread and processed by a new
  store. Then the store shows, for every address, the last location that was added for it, with the
  clone id of its clone, over what the database held before; the database has all of it, and the given
  cork.
\<close>

theorem replay_end_to_end:
  assumes "kv_database kv view"
    and "CMDS_new (rocks_env (rp_page_bits rp) (te_hash (rp_tlog rp)) zw kv) b capacity = (Inr s, b')"
    and "replay_env_ok rp" and "\<forall>rc \<in> set clones. replayed rp rc"
    and "processCloneTLogs (rocks_env (rp_page_bits rp) (te_hash (rp_tlog rp)) zw kv) (map clone_pages clones)
      True (Some c) s = (Inr (), s')"
  shows "cmds_view (rocks_env (rp_page_bits rp) (te_hash (rp_tlog rp)) zw kv) (rocks_pages view) s' =
      override zw (concat (map clone_updates clones))
        (disk_view (rocks_env (rp_page_bits rp) (te_hash (rp_tlog rp)) zw kv) (rocks_pages view) b) \<and>
    disk_view (rocks_env (rp_page_bits rp) (te_hash (rp_tlog rp)) zw kv) (rocks_pages view) (cs_backend s') =
      cmds_view (rocks_env (rp_page_bits rp) (te_hash (rp_tlog rp)) zw kv) (rocks_pages view) s' \<and>
    rocks_cork view (cs_backend s') = Some c"
proof -
  note n = rocks_new_store [OF assms(1,2)]
  note p = rocks_processCloneTLogs [OF assms(1) conjunct1 [OF n(1)] assms(5)]
  have "cmds_view (rocks_env pb h zw kv) (rocks_pages view) t = base_view (rocks_env pb h zw kv) (rocks_pages view) t"
    if "cs_corks t = []" for t pb h
    using that by (simp add: cmds_view_def fun_eq_iff)
  with n p replayed_updates [OF assms(3,4)] show ?thesis by simp
qed

text \<open>Two clones with one TLog each, which both have a location for the address 3.\<close>

definition ex_rp :: replay_env where
  "ex_rp = \<lparr>rp_tlog = ex_tlog_env, rp_page_bits = 1, rp_read_size = 2, replayClustersCached = 4,
            replayPagesQueued = 1, rp_pick = (\<lambda>_. 0)\<rparr>"

definition ex_tlog :: "u32 \<Rightarrow> u8 list" where
  "ex_tlog n = tw_file (snd (TLogWriter_close ex_tlog_env
     (snd (sfor [AddLoc 3 (ex_loc n)] (tlog_run ex_tlog_env) ex_writer))))"

lemma ex_rp_ok: "replay_env_ok ex_rp"
  by (simp add: replay_env_ok_def ex_rp_def ex_tlog_env_def Entry_getDataSize_def)

lemma ex_tlog_written:
  assumes "n \<noteq> 0"
  shows "written_tlog ex_tlog_env (ex_tlog n, [(3, ex_loc n)])"
proof -
  let ?ops = "[AddLoc 3 (ex_loc n)]"
  let ?w = "snd (sfor ?ops (tlog_run ex_tlog_env) ex_writer)"
  have new: "TLogWriter_new ex_tlog_env 2 16 64 [] = Inr ex_writer"
    by (simp add: ex_writer_def TLogWriter_new_def)
  have "fst (sfor ?ops (tlog_run ex_tlog_env) ex_writer) = Inr ()"
    using assms by (simp add: TLogWriter_add_def tw_place_def
        tw_maybe_refresh_buffer_def Entry_loc_def verify_def sbind_def smod_def slift_def sret_def ex_loc_def
        isNull_def ClusterLocation_new_def SCO_new_def max_valid_cluster_address_def)
  note run = result_Inr [OF this]
  have "\<not> isl (fst (TLogWriter_close ex_tlog_env ?w))"
    by (simp add: TLogWriter_close_def tw_place_def tw_maybe_refresh_buffer_def Entry_crc_def verify_def
        sbind_def smod_def slift_def sret_def sget_def)
  from written_tlog.intros [OF new _ run result_projr [OF this]] show ?thesis
    by (simp add: ex_tlog_def ex_loc_def)
qed

lemma ex_tlog_locations:
  assumes "n \<noteq> 0"
  shows "tlog_locations (te_hash (rp_tlog ex_rp)) [ex_tlog n] = [ex_entry 3 n] \<and> readable (ex_entry 3 n)"
  using written_tlogs_locations [of "[(ex_tlog n, [(3, ex_loc n)])]" ex_tlog_env] ex_tlog_written [OF assms]
  by (simp add: ex_rp_def loc_entry_def ex_entry_def)

theorem replay_pages_grouped_witness:
  "\<exists>pages. replay_pages ex_rp [ex_tlog 4] pages \<and> filter (in_page 1 1) (concat pages) = [ex_entry 3 4]"
proof -
  note l = ex_tlog_locations [of 4]
  have "filter (in_page 1 1) [ex_entry 3 4] = [ex_entry 3 4]" by code_simp
  with replay_pages_grouped [OF ex_rp_ok, of "[ex_tlog 4]"] l show ?thesis by (force simp: ex_rp_def)
qed

lemma single_page:
  assumes "\<forall>p \<in> set pages. p \<noteq> []" and "concat pages = [e]"
  shows "pages = [[e]]"
  using assms by (cases pages) (auto simp: append_eq_Cons_conv concat_eq_Nil_conv)

lemma ex_pages:
  assumes "n \<noteq> 0" and "replay_pages ex_rp [ex_tlog n] pages"
  shows "pages = [[ex_entry 3 n]]"
proof (rule single_page)
  note l = ex_tlog_locations [OF assms(1)]
  note o = replay_pages_ok [OF ex_rp_ok _ assms(2), unfolded conjunct1 [OF l]]
  from o l show "\<forall>p \<in> set pages. p \<noteq> []" by simp
  have f: "filter (in_page (rp_page_bits ex_rp) pa) (concat pages) =
      filter (in_page (rp_page_bits ex_rp) pa) [ex_entry 3 n]" for pa
    using o l by simp
  have "x = ex_entry 3 n" if "x \<in> set (concat pages)" for x
  proof -
    have "x \<in> set (filter (in_page (rp_page_bits ex_rp) (entry_page (rp_page_bits ex_rp) x)) (concat pages))"
      using that by (simp add: in_page_def)
    then show ?thesis unfolding f by (simp split: if_splits)
  qed
  then have "filter (in_page (rp_page_bits ex_rp) (entry_page (rp_page_bits ex_rp) (ex_entry 3 n))) (concat pages) = concat pages"
    by (auto simp: in_page_def filter_id_conv)
  with f [of "entry_page (rp_page_bits ex_rp) (ex_entry 3 n)"] show "concat pages = [ex_entry 3 n]"
    by (simp add: in_page_def)
qed

definition ex_clone :: "u8 \<Rightarrow> u32 \<Rightarrow> replay_clone" where
  "ex_clone cid n = \<lparr>rc_cloneid = cid, rc_tlogs = [(ex_tlog n, [(3, ex_loc n)])], rc_pages = [[ex_entry 3 n]]\<rparr>"

lemma ex_clone_replayed: "n \<noteq> 0 \<Longrightarrow> replayed ex_rp (ex_clone cid n)"
  using replay_pages_exist [OF ex_rp_ok, of "[ex_tlog n]"] ex_tlog_locations [of n] ex_pages [of n]
    ex_tlog_written [of n]
  by (auto simp: replayed_def ex_clone_def ex_rp_def)

definition ex_rebuilt :: "(u64 \<Rightarrow> kv_value option) rocks cmds" where
  "ex_rebuilt = snd (processCloneTLogs ex_env [(1, [[ex_entry 3 4]]), (0, [[ex_entry 3 6]])] True (Some 9) ex_store)"

theorem replay_end_to_end_witness:
  "cmds_view ex_env (rocks_pages (\<lambda>m. m)) ex_rebuilt 3 = ex_loc 6 \<and>
   rocks_cork (\<lambda>m. m) (cs_backend ex_rebuilt) = Some 9"
proof -
  let ?cs = "[ex_clone 1 4, ex_clone 0 6]"
  have env: "rocks_env (rp_page_bits ex_rp) (te_hash (rp_tlog ex_rp)) 0 mem_kv = ex_env"
    by (simp add: ex_rp_def ex_tlog_env_def ex_env_def)
  have m: "map clone_pages ?cs = [(1, [[ex_entry 3 4]]), (0, [[ex_entry 3 6]])]"
    by (simp add: clone_pages_def ex_clone_def)
  have "fst (processCloneTLogs ex_env [(1, [[ex_entry 3 4]]), (0, [[ex_entry 3 6]])] True (Some 9) ex_store) = Inr ()"
    by code_simp
  from result_Inr [OF this] have p: "processCloneTLogs ex_env (map clone_pages ?cs) True (Some 9) ex_store = (Inr (), ex_rebuilt)"
    unfolding m ex_rebuilt_def .
  have u: "concat (map clone_updates ?cs) = [(3, clh_cloneID 1 (ex_loc 4)), (3, clh_cloneID 0 (ex_loc 6))]"
    by (simp add: clone_updates_def ex_clone_def)
  have "override 0 [(3, clh_cloneID 1 (ex_loc 4)), (3, clh_cloneID 0 (ex_loc 6))]
      (disk_view ex_env (rocks_pages (\<lambda>m. m)) ex_db) 3 = ex_loc 6" by code_simp
  with replay_end_to_end [OF mem.kv_database_axioms, of ex_rp 0, unfolded env, OF ex_new ex_rp_ok _ p] u
  show ?thesis by (simp add: ex_clone_replayed)
qed

end
