(* ===== verification/Scrub_Metadata.thy ===== *)
theory Scrub_Metadata
  imports TLog_IO "HOL-Library.Multiset"
begin

text \<open>
  The first half of a scrub (src/src/volumedriver/Scrubber.cpp): the TLogs of a snapshot are split by
  region of the address space (TLogSplitter.cpp), the TLog of each region is read backwards and only the
  last location of each address is kept (PartScrubber.cpp), and the results are merged into one TLog in
  the order of the locations (TLogMerger.h). On the way the scrubber counts how often each SCO is named
  and used (ScrubbingSCOData.h).

  A TLog that the scrubber writes and reads back is the list of its entries; \<open>ew_add_refines\<close> shows
  that this is what \<^verbatim>\<open>TLogWriter\<close> puts in the file. The loops over \<open>nextLocation\<close> are loops over
  the locations in such a list.
\<close>

subsection \<open>Writing temporary TLogs\<close>

record entry_writer =
  ew_entries :: "entry list"
  ew_last :: cluster_location

definition ew_new :: entry_writer where
  "ew_new = \<lparr>ew_entries = [], ew_last = null_location\<rparr>"

definition ew_add :: "u64 \<Rightarrow> clh \<Rightarrow> (entry_writer, unit) sm" where
  "ew_add ca loc =
     sbind (smod (\<lambda>w. w\<lparr>ew_last := clusterLocation loc\<rparr>)) (\<lambda>_.
     sbind (slift (Entry_loc ca loc)) (\<lambda>e.
       smod (\<lambda>w. w\<lparr>ew_entries := ew_entries w @ [e]\<rparr>)))"

text \<open>\<^verbatim>\<open>tlog_writer.add(e->clusterAddress(), e->clusterLocationAndHash())\<close>\<close>

definition ew_copy :: "entry \<Rightarrow> (entry_writer, unit) sm" where
  "ew_copy e = sbind (slift (Entry_clusterAddress e)) (\<lambda>ca. ew_add ca (e_loc e))"

subsection \<open>What is known of a SCO\<close>

datatype scrub_state = Unknown | Scrubbed | NotScrubbed | Reused

record scrub_sco =
  sd_sconame :: sco
  sd_usageCount :: u16
  sd_size :: u16
  sd_state :: scrub_state

definition ScrubbingSCOData_new :: "sco \<Rightarrow> scrub_sco" where
  "ScrubbingSCOData_new s = \<lparr>sd_sconame = s, sd_usageCount = 0, sd_size = 1, sd_state = Unknown\<rparr>"

subsection \<open>Splitting by region\<close>

text \<open>\<open>sl_tlogs\<close> is both \<^verbatim>\<open>tlog_names_\<close> and \<^verbatim>\<open>tlog_writers_\<close>, which have the same keys.\<close>

record splitter =
  sl_tlogs :: "entry_writer std_map"
  sl_sco_data :: "scrub_sco list"

definition splitter_sco :: "sco \<Rightarrow> scrub_sco list \<Rightarrow> scrub_sco list" where
  "splitter_sco s ds =
     (if ds = [] \<or> s \<noteq> sd_sconame (last ds) then ds @ [ScrubbingSCOData_new s]
      else butlast ds @ [(last ds)\<lparr>sd_size := sd_size (last ds) + 1\<rparr>])"

definition splitter_doEntry :: "nat \<Rightarrow> entry \<Rightarrow> (splitter, unit) sm" where
  "splitter_doEntry region_exponent e =
     sbind (slift (Entry_clusterAddress e)) (\<lambda>ca.
     let index = drop_bit region_exponent ca
     in sbind (smod (\<lambda>s. case map_of (sl_tlogs s) index of
                 None \<Rightarrow> s\<lparr>sl_tlogs := std_map_insert index ew_new (sl_tlogs s)\<rparr>
               | Some _ \<Rightarrow> s)) (\<lambda>_.
        sbind (szoom (\<lambda>s. the (map_of (sl_tlogs s) index))
                 (\<lambda>w s. s\<lparr>sl_tlogs := std_map_insert index w (sl_tlogs s)\<rparr>) (ew_copy e)) (\<lambda>_.
        smod (\<lambda>s. s\<lparr>sl_sco_data := splitter_sco (cl_sco (clusterLocation (e_loc e))) (sl_sco_data s)\<rparr>))))"

definition TLogSplitter_run :: "nat \<Rightarrow> entry list \<Rightarrow> (splitter, unit) sm" where
  "TLogSplitter_run region_exponent es =
     sfor (filter isLocation es) (splitter_doEntry region_exponent)"

definition splitter_new :: splitter where
  "splitter_new = \<lparr>sl_tlogs = [], sl_sco_data = []\<rparr>"

subsection \<open>Keeping the last location of an address\<close>

text \<open>
  \<open>ps_iter\<close> is the distance of \<^verbatim>\<open>scodata_iterator\<close> from \<open>rend()\<close>: the iterator stands at the
  element \<open>ps_iter - 1\<close>. \<open>ps_seen\<close> are the bits that are set.
\<close>

record part_scrubber =
  ps_scodata :: "scrub_sco list"
  ps_iter :: nat
  ps_seen :: "u64 list"
  ps_out :: entry_writer

fun reverse_find :: "sco \<Rightarrow> scrub_sco list \<Rightarrow> nat \<Rightarrow> nat" where
  "reverse_find s ds 0 = 0"
| "reverse_find s ds (Suc n) = (if sd_sconame (ds ! n) = s then Suc n else reverse_find s ds n)"

definition updateIterator :: "sco \<Rightarrow> (part_scrubber, unit) sm" where
  "updateIterator s =
     sbind (smod (\<lambda>p. p\<lparr>ps_iter := reverse_find s (ps_scodata p) (ps_iter p)\<rparr>)) (\<lambda>_.
     sbind (sget (\<lambda>p. p)) (\<lambda>p.
       if ps_iter p = 0 then sthrow (IOException ''Unknown SCO in SCODATA'')
       else
         let i = ps_iter p - 1;
             d = (ps_scodata p ! i)\<lparr>sd_usageCount := sd_usageCount (ps_scodata p ! i) + 1\<rparr>
         in sbind (smod (\<lambda>p. p\<lparr>ps_scodata := (ps_scodata p)[i := d]\<rparr>)) (\<lambda>_.
            sverify (sd_size d \<ge> sd_usageCount d) ''scodata_iterator->size >= scodata_iterator->usageCount'')))"

definition part_scrub_entry :: "nat \<Rightarrow> u64 \<Rightarrow> entry \<Rightarrow> (part_scrubber, unit) sm" where
  "part_scrub_entry region_exponent cluster_begin e =
     sbind (slift (Entry_clusterAddress e)) (\<lambda>ca.
     sbind (sverify (ca - cluster_begin < push_bit region_exponent 1)
              ''e->clusterAddress() - cluster_begin_ < (1UL<<region_exponent_)'') (\<lambda>_.
     sbind (sget ps_seen) (\<lambda>seen.
       if ca - cluster_begin \<notin> set seen
       then sbind (szoom ps_out (\<lambda>w p. p\<lparr>ps_out := w\<rparr>) (ew_copy e)) (\<lambda>_.
            sbind (updateIterator (cl_sco (clusterLocation (e_loc e)))) (\<lambda>_.
            smod (\<lambda>p. p\<lparr>ps_seen := (ca - cluster_begin) # ps_seen p\<rparr>)))
       else sret ())))"

text \<open>The constructor and \<^verbatim>\<open>operator()\<close>, for the TLog \<open>es\<close> of the region \<open>index\<close>.\<close>

definition PartScrubber_run ::
  "nat \<Rightarrow> u64 \<Rightarrow> entry list \<Rightarrow> scrub_sco list \<Rightarrow> (entry list \<times> scrub_sco list) result" where
  "PartScrubber_run region_exponent index es scodata =
     rbind (verify (region_exponent < 64) ''region_exponent_ < (sizeof(unsigned long) * 8)'') (\<lambda>_.
     case sfor (rev (filter isLocation es)) (part_scrub_entry region_exponent (push_bit region_exponent index))
            \<lparr>ps_scodata = scodata, ps_iter = length scodata, ps_seen = [], ps_out = ew_new\<rparr> of
       (Inl err, _) \<Rightarrow> Inl err
     | (Inr _, p) \<Rightarrow> Inr (ew_entries (ps_out p), ps_scodata p))"

fun part_scrub_all ::
  "nat \<Rightarrow> (u64 \<times> entry list) list \<Rightarrow> scrub_sco list \<Rightarrow> (entry list list \<times> scrub_sco list) result" where
  "part_scrub_all region_exponent [] scodata = Inr ([], scodata)"
| "part_scrub_all region_exponent ((index, es) # parts) scodata =
     rbind (PartScrubber_run region_exponent index es scodata) (\<lambda>(out, scodata').
     rbind (part_scrub_all region_exponent parts scodata') (\<lambda>(outs, scodata'').
       Inr (out # outs, scodata'')))"

subsection \<open>Merging\<close>

text \<open>\<open>compare\<close>: whether the first of two entries goes first. On a tie it is the second.\<close>

definition merge_first :: "entry \<Rightarrow> entry \<Rightarrow> bool" where
  "merge_first a b =
     (let la = clusterLocation (e_loc a); lb = clusterLocation (e_loc b);
          fst_n = sco_number (cl_sco la); snd_n = sco_number (cl_sco lb)
      in if fst_n < snd_n then True
         else if snd_n < fst_n then False
         else cl_offset la < cl_offset lb)"

text \<open>
  A reader in the list is what it has left, the entry it stands at included; it is never empty. The scan
  of \<open>next\<close> for the reader to take from, as the readers before it, itself and the readers after it.
\<close>

fun merge_scan :: "entry list list \<Rightarrow> entry list \<Rightarrow> entry list list \<Rightarrow> entry list list \<Rightarrow>
    entry list list \<times> entry list \<times> entry list list" where
  "merge_scan bs t ms [] = (bs, t, ms)"
| "merge_scan bs t ms (r # rs) =
     (if merge_first (hd t) (hd r) then merge_scan bs t (ms @ [r]) rs
      else merge_scan (bs @ t # ms) r [] rs)"

definition merge_next :: "entry list list \<Rightarrow> (entry \<times> entry list list) option" where
  "merge_next rs =
     (case rs of
        [] \<Rightarrow> None
      | r # rs' \<Rightarrow>
          (case merge_scan [] r [] rs' of (bs, t, as) \<Rightarrow>
             Some (hd t, if tl t = [] then bs @ as else bs @ tl t # as)))"

definition addTLogReader :: "entry list \<Rightarrow> entry list list \<Rightarrow> entry list list" where
  "addTLogReader r rs = (if r = [] then rs else rs @ [r])"

lemma merge_scan_parts:
  "merge_scan bs t ms rs = (bs', t', as') \<Longrightarrow> bs' @ t' # as' = bs @ t # ms @ rs"
proof (induction bs t ms rs rule: merge_scan.induct)
  case (2 bs t ms r rs)
  then show ?case by (cases "merge_first (hd t) (hd r)") auto
qed auto

fun merge_size :: "entry list list \<Rightarrow> nat" where
  "merge_size rs = length (concat rs) + length rs"

lemma merge_next_smaller:
  assumes "merge_next rs = Some (e, rs')"
  shows "merge_size rs' < merge_size rs"
proof -
  from assms obtain r rs0 bs t as where r: "rs = r # rs0" and s: "merge_scan [] r [] rs0 = (bs, t, as)"
    and rs': "rs' = (if tl t = [] then bs @ as else bs @ tl t # as)"
    by (auto simp: merge_next_def split: list.splits prod.splits)
  from merge_scan_parts [OF s] have "rs = bs @ t # as" by (simp add: r)
  then show ?thesis by (cases t) (auto simp: rs')
qed

function merge_all :: "entry list list \<Rightarrow> entry list" where
  "merge_all rs = (case merge_next rs of None \<Rightarrow> [] | Some (e, rs') \<Rightarrow> e # merge_all rs')"
  by auto
termination
  by (relation "measure merge_size") (auto simp: merge_next_smaller simp del: merge_size.simps)

declare merge_all.simps [simp del]

text \<open>\<^verbatim>\<open>operator()\<close>: the entries that are written and the location of the last one.\<close>

definition TLogMerger_run :: "entry list list \<Rightarrow> (entry list \<times> cluster_location) result" where
  "TLogMerger_run readers =
     (case sfor (merge_all (fold addTLogReader readers [])) ew_copy ew_new of
        (Inl err, _) \<Rightarrow> Inl err
      | (Inr _, w) \<Rightarrow> Inr (ew_entries w, ew_last w))"

subsection \<open>The metadata scrub\<close>

text \<open>
  The part of \<^verbatim>\<open>Scrubber::operator()\<close> that turns the entries of the TLogs of the snapshot into one TLog
  with the last locations. It also gives the location of the last entry and the data on the SCOs.
\<close>

definition metadata_scrub :: "nat \<Rightarrow> entry list \<Rightarrow> (entry list \<times> cluster_location \<times> scrub_sco list) result" where
  "metadata_scrub region_exponent es =
     (case TLogSplitter_run region_exponent es splitter_new of
        (Inl err, _) \<Rightarrow> Inl err
      | (Inr _, sl) \<Rightarrow>
          rbind (part_scrub_all region_exponent (map (\<lambda>(index, w). (index, ew_entries w)) (sl_tlogs sl)) (sl_sco_data sl))
            (\<lambda>(tlogs, scodata).
          rbind (TLogMerger_run (map (\<lambda>t. rev (filter isLocation t)) tlogs)) (\<lambda>(merged, last_loc).
          rbind (verify (sum_list (map length tlogs) = length merged) ''size == fs::file_size(metadata_scrubbed)'')
            (\<lambda>_. Inr (merged, last_loc, scodata)))))"

subsection \<open>Entries that can be copied\<close>

definition good_entry :: "entry \<Rightarrow> bool" where
  "good_entry e \<longleftrightarrow> \<not> isNull (clusterLocation (e_loc e)) \<and> e_clusteraddress e \<le> max_valid_cluster_address"

lemma good_location: "good_entry e \<Longrightarrow> isLocation e"
  by (simp add: good_entry_def isLocation_def Entry_is_def Entry_type_def)

lemma good_locations: "\<forall>e \<in> set es. good_entry e \<Longrightarrow> filter isLocation es = es"
  by (simp add: filter_id_conv good_location)

lemma good_address: "good_entry e \<Longrightarrow> Entry_clusterAddress e = Inr (e_clusteraddress e)"
  by (simp add: good_entry_def Entry_clusterAddress_def verify_def)

lemma ew_copy_good:
  assumes "good_entry e"
  shows "ew_copy e w = (Inr (), w\<lparr>ew_entries := ew_entries w @ [e], ew_last := clusterLocation (e_loc e)\<rparr>)"
  using assms good_address [OF assms]
  by (simp add: ew_copy_def ew_add_def Entry_loc_def verify_def good_entry_def sbind_def smod_def slift_def)

lemma ew_copy_loop:
  assumes "\<forall>e \<in> set es. good_entry e"
  shows "sfor es ew_copy w = (Inr (), w\<lparr>ew_entries := ew_entries w @ es,
     ew_last := (if es = [] then ew_last w else clusterLocation (e_loc (last es)))\<rparr>)"
  using assms
proof (induction es arbitrary: w)
  case (Cons e es)
  then show ?case by (simp add: sbind_def ew_copy_good)
qed (simp add: sret_def)

subsection \<open>The order of locations\<close>

definition loc_key :: "entry \<Rightarrow> nat" where
  "loc_key e = unat (sco_number (cl_sco (clusterLocation (e_loc e)))) * 65536 + unat (cl_offset (clusterLocation (e_loc e)))"

lemma merge_first_key: "merge_first a b \<longleftrightarrow> loc_key a < loc_key b"
proof -
  have "unat (w :: u16) < 65536" for w using unat_bound [of w] by simp
  from this [of "cl_offset (clusterLocation (e_loc a))"] this [of "cl_offset (clusterLocation (e_loc b))"]
  show ?thesis
    by (auto simp: merge_first_def loc_key_def Let_def word_less_nat_alt word_unat_eq_iff)
qed

definition loc_sorted :: "entry list \<Rightarrow> bool" where
  "loc_sorted es \<longleftrightarrow> sorted_wrt (<) (map loc_key es)"

lemma strict_sorted_unique:
  fixes f :: "'a \<Rightarrow> nat"
  shows "sorted_wrt (<) (map f xs) \<Longrightarrow> sorted_wrt (<) (map f ys) \<Longrightarrow> set xs = set ys \<Longrightarrow> xs = ys"
proof (induction xs arbitrary: ys)
  case (Cons x xs)
  then obtain y ys' where ys: "ys = y # ys'" by (cases ys) auto
  have "x = y"
  proof (rule ccontr)
    assume "x \<noteq> y"
    with Cons.prems(3) ys have "x \<in> set ys'" "y \<in> set xs" by auto
    with Cons.prems(1,2) ys have "f y < f x" "f x < f y" by auto
    then show False by simp
  qed
  moreover have "x \<notin> set xs" "y \<notin> set ys'" using Cons.prems(1,2) ys by auto
  ultimately have "set xs = set ys'" using Cons.prems(3) ys by auto
  with Cons.IH [of ys'] Cons.prems ys \<open>x = y\<close> show ?case by simp
qed simp

lemma loc_sorted_unique: "loc_sorted xs \<Longrightarrow> loc_sorted ys \<Longrightarrow> set xs = set ys \<Longrightarrow> xs = ys"
  unfolding loc_sorted_def by (rule strict_sorted_unique)

lemma loc_sorted_distinct: "loc_sorted es \<Longrightarrow> distinct es"
  unfolding loc_sorted_def by (metis distinct_map strict_sorted_iff)

lemma loc_sorted_filter: "loc_sorted es \<Longrightarrow> loc_sorted (filter P es)"
  unfolding loc_sorted_def by (induction es) auto

subsection \<open>The last entry of an address\<close>

fun first_entries :: "u64 set \<Rightarrow> entry list \<Rightarrow> entry list" where
  "first_entries S [] = []"
| "first_entries S (e # es) =
     (if e_clusteraddress e \<in> S then first_entries S es
      else e # first_entries (insert (e_clusteraddress e) S) es)"

definition latest :: "entry list \<Rightarrow> entry list" where
  "latest es = rev (first_entries {} (rev es))"

lemma first_entries_filter:
  "first_entries S (filter (\<lambda>e. P (e_clusteraddress e)) es) =
     filter (\<lambda>e. P (e_clusteraddress e)) (first_entries S es)"
proof (induction es arbitrary: S)
  case (Cons e es)
  have *: "first_entries (insert (e_clusteraddress e) S) (filter (\<lambda>e. P (e_clusteraddress e)) es) =
      first_entries S (filter (\<lambda>e. P (e_clusteraddress e)) es)" if "\<not> P (e_clusteraddress e)"
    using that
  proof (induction es arbitrary: S)
    case (Cons x es)
    then show ?case by (auto simp: insert_commute)
  qed simp
  show ?case using Cons * by auto
qed simp

lemma latest_filter:
  "latest (filter (\<lambda>e. P (e_clusteraddress e)) es) = filter (\<lambda>e. P (e_clusteraddress e)) (latest es)"
  by (simp add: latest_def rev_filter first_entries_filter)

lemma set_first_entries: "set (first_entries S es) \<subseteq> {e \<in> set es. e_clusteraddress e \<notin> S}"
  by (induction S es rule: first_entries.induct) auto

lemma set_latest: "set (latest es) \<subseteq> set es"
  using set_first_entries [of "{}" "rev es"] by (auto simp: latest_def)

lemma first_entries_addresses: "distinct (map e_clusteraddress (first_entries S es))"
proof (induction S es rule: first_entries.induct)
  case (2 S e es)
  then show ?case using set_first_entries [of "insert (e_clusteraddress e) S" es] by auto
qed simp

lemma latest_addresses: "distinct (map e_clusteraddress (latest es))"
  using first_entries_addresses [of "{}" "rev es"] by (simp add: latest_def rev_map [symmetric])

lemma first_entries_sorted:
  "sorted_wrt (>) (map loc_key es) \<Longrightarrow> sorted_wrt (>) (map loc_key (first_entries S es))"
proof (induction S es rule: first_entries.induct)
  case (2 S e es)
  then show ?case using set_first_entries [of "insert (e_clusteraddress e) S" es] by auto
qed simp

lemma latest_sorted: "loc_sorted es \<Longrightarrow> loc_sorted (latest es)"
  using first_entries_sorted [of "rev es" "{}"]
  by (simp add: loc_sorted_def latest_def sorted_wrt_rev rev_map [symmetric] del: rev_map)

subsection \<open>The splitter\<close>

abbreviation entry_sco :: "entry \<Rightarrow> sco" where
  "entry_sco e \<equiv> cl_sco (clusterLocation (e_loc e))"

definition region :: "nat \<Rightarrow> entry \<Rightarrow> u64" where
  "region region_exponent e = drop_bit region_exponent (e_clusteraddress e)"

definition part_entries :: "entry_writer std_map \<Rightarrow> u64 \<Rightarrow> entry list" where
  "part_entries m i = (case map_of m i of None \<Rightarrow> [] | Some w \<Rightarrow> ew_entries w)"

lemma splitter_doEntry_good:
  assumes "good_entry e" and "std_map_inv (sl_tlogs s)"
  shows "\<exists>s'. splitter_doEntry k e s = (Inr (), s') \<and> std_map_inv (sl_tlogs s') \<and>
    (\<forall>i. part_entries (sl_tlogs s') i = part_entries (sl_tlogs s) i @ (if region k e = i then [e] else [])) \<and>
    fst ` set (sl_tlogs s') = insert (region k e) (fst ` set (sl_tlogs s)) \<and>
    sl_sco_data s' = splitter_sco (entry_sco e) (sl_sco_data s)"
proof -
  let ?m = "case map_of (sl_tlogs s) (region k e) of
      None \<Rightarrow> std_map_insert (region k e) ew_new (sl_tlogs s) | Some _ \<Rightarrow> sl_tlogs s"
  let ?w = "the (map_of ?m (region k e))"
  let ?w' = "?w\<lparr>ew_entries := ew_entries ?w @ [e], ew_last := clusterLocation (e_loc e)\<rparr>"
  let ?s = "s\<lparr>sl_tlogs := std_map_insert (region k e) ?w' ?m, sl_sco_data := splitter_sco (entry_sco e) (sl_sco_data s)\<rparr>"
  have m: "std_map_inv ?m" using assms(2) by (auto split: option.split)
  have "splitter_doEntry k e s = (Inr (), ?s)"
    using assms(1) good_address [OF assms(1)]
    by (simp add: splitter_doEntry_def region_def [symmetric] Let_def sbind_def smod_def slift_def szoom_def
        ew_copy_good split: option.split)
  moreover have "part_entries (sl_tlogs ?s) i = part_entries (sl_tlogs s) i @ (if region k e = i then [e] else [])" for i
    using assms(2) by (auto simp: part_entries_def std_map_lookup_insert [OF m] ew_new_def std_map_lookup_insert
        split: option.splits)
  moreover have "fst ` set ?m = (case map_of (sl_tlogs s) (region k e) of
      None \<Rightarrow> insert (region k e) (fst ` set (sl_tlogs s)) | Some _ \<Rightarrow> fst ` set (sl_tlogs s))"
    by (auto simp: set_std_map_insert split: option.split)
  then have "fst ` set (sl_tlogs ?s) = insert (region k e) (fst ` set (sl_tlogs s))"
    by (auto simp: set_std_map_insert split: option.splits)
  ultimately show ?thesis using m by (intro exI [of _ ?s]) auto
qed

lemma TLogSplitter_loop:
  assumes "\<forall>e \<in> set es. good_entry e" and "std_map_inv (sl_tlogs s)"
  shows "\<exists>s'. sfor es (splitter_doEntry k) s = (Inr (), s') \<and> std_map_inv (sl_tlogs s') \<and>
    (\<forall>i. part_entries (sl_tlogs s') i = part_entries (sl_tlogs s) i @ filter (\<lambda>e. region k e = i) es) \<and>
    fst ` set (sl_tlogs s') = region k ` set es \<union> fst ` set (sl_tlogs s) \<and>
    sl_sco_data s' = fold splitter_sco (map entry_sco es) (sl_sco_data s)"
  using assms
proof (induction es arbitrary: s)
  case (Cons e es)
  from splitter_doEntry_good [of e s k] Cons.prems obtain s1 where
    1: "splitter_doEntry k e s = (Inr (), s1)" "std_map_inv (sl_tlogs s1)"
      "\<forall>i. part_entries (sl_tlogs s1) i = part_entries (sl_tlogs s) i @ (if region k e = i then [e] else [])"
      "fst ` set (sl_tlogs s1) = insert (region k e) (fst ` set (sl_tlogs s))"
      "sl_sco_data s1 = splitter_sco (entry_sco e) (sl_sco_data s)" by auto
  from Cons.IH [of s1] Cons.prems 1(2) obtain s2 where
    "sfor es (splitter_doEntry k) s1 = (Inr (), s2)" "std_map_inv (sl_tlogs s2)"
      "\<forall>i. part_entries (sl_tlogs s2) i = part_entries (sl_tlogs s1) i @ filter (\<lambda>e. region k e = i) es"
      "fst ` set (sl_tlogs s2) = region k ` set es \<union> fst ` set (sl_tlogs s1)"
      "sl_sco_data s2 = fold splitter_sco (map entry_sco es) (sl_sco_data s1)" by auto
  with 1 show ?case by (auto simp: sbind_def)
qed (simp add: sret_def)

text \<open>What the splitter knows of the SCOs, for locations in the order of the SCO numbers.\<close>

definition sco_num :: "sco \<Rightarrow> nat" where
  "sco_num s = unat (sco_number s)"

definition sco_data_ok :: "sco list \<Rightarrow> scrub_sco list \<Rightarrow> bool" where
  "sco_data_ok ns ds \<longleftrightarrow> sorted_wrt (<) (map (sco_num \<circ> sd_sconame) ds) \<and> sd_sconame ` set ds = set ns \<and>
     (\<forall>d \<in> set ds. sd_usageCount d = 0 \<and> sd_state d = Unknown \<and>
        sd_size d = of_nat (count_list ns (sd_sconame d)))"

lemma sco_data_last:
  assumes "sco_data_ok ns ds" and "ds \<noteq> []" and "s \<in> set ns" and "\<forall>n \<in> set ns. sco_num n \<le> sco_num s"
    and "\<forall>n \<in> set ns. \<forall>m \<in> set ns. sco_num n = sco_num m \<longrightarrow> n = m"
  shows "sd_sconame (last ds) = s"
proof -
  have so: "sorted_wrt (<) (map (sco_num \<circ> sd_sconame) ds)" and nm: "sd_sconame ` set ds = set ns"
    using assms(1) by (simp_all add: sco_data_ok_def)
  from assms(3) nm obtain d where d: "d \<in> set ds" "sd_sconame d = s" by (metis imageE)
  obtain ds' l where ds: "ds = ds' @ [l]" using assms(2) by (metis append_butlast_last_id)
  have "sco_num s \<le> sco_num (sd_sconame l)" using so d by (auto simp: ds sorted_wrt_append)
  moreover have "sd_sconame l \<in> set ns" using nm ds by auto
  ultimately show ?thesis using assms(3-5) ds by (metis last_snoc le_antisym)
qed

lemma splitter_sco_ok:
  assumes ok: "sco_data_ok ns ds" and le: "\<forall>n \<in> set ns. sco_num n \<le> sco_num s"
    and fn: "\<forall>n \<in> set (ns @ [s]). \<forall>m \<in> set (ns @ [s]). sco_num n = sco_num m \<longrightarrow> n = m"
  shows "sco_data_ok (ns @ [s]) (splitter_sco s ds)"
proof (cases "ds = [] \<or> s \<noteq> sd_sconame (last ds)")
  case True
  have "s \<notin> set ns"
  proof
    assume s: "s \<in> set ns"
    then have "ds \<noteq> []" using ok by (auto simp: sco_data_ok_def)
    with sco_data_last [OF ok this s le] fn True show False by simp
  qed
  moreover from this le fn have lt: "sco_num n < sco_num s" if "n \<in> set ns" for n
    using that by (metis Un_iff le_neq_implies_less list.set_intros(1) set_append)
  moreover have "splitter_sco s ds = ds @ [ScrubbingSCOData_new s]" using True by (simp add: splitter_sco_def)
  moreover have "sco_num (sd_sconame d) < sco_num s" if "d \<in> set ds" for d
    using lt ok that by (auto simp: sco_data_ok_def)
  moreover have "s \<noteq> sd_sconame d" if "d \<in> set ds" for d
    using \<open>s \<notin> set ns\<close> ok that by (auto simp: sco_data_ok_def)
  ultimately show ?thesis using ok
    by (simp add: sco_data_ok_def sorted_wrt_append ScrubbingSCOData_new_def)
next
  case False
  obtain ds' d where ds: "ds = ds' @ [d]" using False by (metis append_butlast_last_id)
  with False ok have s: "sd_sconame d = s" and ns: "s \<in> set ns" by (auto simp: sco_data_ok_def)
  have "sd_sconame x \<noteq> s" if "x \<in> set ds'" for x
    using ok s ds that by (auto simp: sco_data_ok_def sorted_wrt_append)
  moreover have "splitter_sco s ds = ds' @ [d\<lparr>sd_size := sd_size d + 1\<rparr>]"
    using False ds by (simp add: splitter_sco_def)
  ultimately show ?thesis using ok s ns ds
    by (auto simp: sco_data_ok_def sorted_wrt_append add.commute)
qed

lemma splitter_scos:
  assumes "sorted (map sco_num ns)" and "\<forall>n \<in> set ns. \<forall>m \<in> set ns. sco_num n = sco_num m \<longrightarrow> n = m"
  shows "sco_data_ok ns (fold splitter_sco ns [])"
  using assms
proof (induction ns rule: rev_induct)
  case Nil
  then show ?case by (simp add: sco_data_ok_def)
next
  case (snoc s ns)
  have "sco_data_ok ns (fold splitter_sco ns [])" using snoc by (simp add: sorted_append)
  from splitter_sco_ok [OF this] snoc.prems show ?case by (simp add: sorted_append)
qed

subsection \<open>The part scrubber\<close>

definition num_sorted :: "scrub_sco list \<Rightarrow> bool" where
  "num_sorted ds \<longleftrightarrow> sorted_wrt (<) (map (sco_num \<circ> sd_sconame) ds)"

lemma num_sorted_nth:
  assumes "num_sorted ds" and "i < length ds" and "j < length ds"
  shows "sco_num (sd_sconame (ds ! i)) < sco_num (sd_sconame (ds ! j)) \<longleftrightarrow> i < j"
proof -
  have "sco_num (sd_sconame (ds ! i)) < sco_num (sd_sconame (ds ! j))" if "i < j" "j < length ds" for i j
    using assms(1) that by (auto simp: num_sorted_def sorted_wrt_iff_nth_less)
  from this [of i j] this [of j i] assms(2,3) show ?thesis by (cases i j rule: linorder_cases) auto
qed

lemma num_sorted_inj:
  assumes "num_sorted ds" and "i < length ds" and "j < length ds" and "sd_sconame (ds ! i) = sd_sconame (ds ! j)"
  shows "i = j"
  using num_sorted_nth [OF assms(1-3)] num_sorted_nth [OF assms(1,3,2)] assms(4) by simp

lemma reverse_find_index:
  assumes "num_sorted ds" and "k \<le> length ds" and "i < k" and "sd_sconame (ds ! i) = s"
  shows "reverse_find s ds k = Suc i"
  using assms(2,3)
proof (induction k)
  case (Suc n)
  show ?case
  proof (cases "i = n")
    case False
    then have "sd_sconame (ds ! n) \<noteq> s" using num_sorted_inj [OF assms(1), of i n] assms(4) Suc.prems by auto
    with Suc False show ?thesis by simp
  qed (use assms(4) in simp)
qed simp

definition usage_of :: "entry list \<Rightarrow> sco \<Rightarrow> nat" where
  "usage_of es s = length (filter (\<lambda>e. entry_sco e = s) es)"

definition add_usage :: "entry list \<Rightarrow> scrub_sco list \<Rightarrow> scrub_sco list" where
  "add_usage es ds = map (\<lambda>d. d\<lparr>sd_usageCount := sd_usageCount d + of_nat (usage_of es (sd_sconame d))\<rparr>) ds"

lemma usage_of_simps [simp]:
  "usage_of [] s = 0" "usage_of (e # es) s = (if entry_sco e = s then 1 else 0) + usage_of es s"
  "usage_of (es @ es') s = usage_of es s + usage_of es' s"
  by (simp_all add: usage_of_def)

lemma add_usage_simps [simp]:
  "add_usage [] ds = ds" "length (add_usage es ds) = length ds"
  "map sd_sconame (add_usage es ds) = map sd_sconame ds" "num_sorted (add_usage es ds) = num_sorted ds"
  "i < length ds \<Longrightarrow> sd_sconame (add_usage es ds ! i) = sd_sconame (ds ! i)"
  by (simp_all add: add_usage_def num_sorted_def comp_def)

lemma add_usage_add_usage: "add_usage es' (add_usage es ds) = add_usage (es @ es') ds"
  by (simp add: add_usage_def add.assoc)

lemma add_usage_single:
  assumes "num_sorted ds" and "i < length ds" and "sd_sconame (ds ! i) = entry_sco e"
  shows "ds[i := (ds ! i)\<lparr>sd_usageCount := sd_usageCount (ds ! i) + 1\<rparr>] = add_usage [e] ds"
proof (rule nth_equalityI)
  fix j assume "j < length (ds[i := (ds ! i)\<lparr>sd_usageCount := sd_usageCount (ds ! i) + 1\<rparr>])"
  then have j: "j < length ds" by simp
  with assms num_sorted_inj [OF assms(1), of i j] show
    "ds[i := (ds ! i)\<lparr>sd_usageCount := sd_usageCount (ds ! i) + 1\<rparr>] ! j = add_usage [e] ds ! j"
    by (cases "i = j") (auto simp: add_usage_def)
qed (simp add: add_usage_def)

text \<open>The counts stay below the sizes, so nothing wraps around.\<close>

definition usage_fits :: "entry list \<Rightarrow> scrub_sco list \<Rightarrow> bool" where
  "usage_fits es ds \<longleftrightarrow> (\<forall>d \<in> set ds. unat (sd_usageCount d) + usage_of es (sd_sconame d) \<le> unat (sd_size d))"

lemma unat_add_usage:
  fixes u :: u16
  assumes "unat u + n \<le> unat (w :: u16)"
  shows "unat (u + of_nat n) = unat u + n"
proof -
  have "n < 2 ^ 16" "unat u + n < 2 ^ 16" using assms unat_bound [of w] by simp_all
  then show ?thesis by (simp add: unat_word_ariths unat_of_nat take_bit_nat_eq_self)
qed

lemma usage_fits_step:
  assumes "usage_fits (es @ es') ds"
  shows "usage_fits es' (add_usage es ds)"
  unfolding usage_fits_def
proof
  fix x assume "x \<in> set (add_usage es ds)"
  then obtain d where d: "d \<in> set ds"
    and x: "x = d\<lparr>sd_usageCount := sd_usageCount d + of_nat (usage_of es (sd_sconame d))\<rparr>"
    by (auto simp: add_usage_def)
  from assms d have f: "unat (sd_usageCount d) + usage_of es (sd_sconame d) + usage_of es' (sd_sconame d) \<le> unat (sd_size d)"
    by (auto simp: usage_fits_def)
  then have "unat (sd_usageCount d + of_nat (usage_of es (sd_sconame d))) = unat (sd_usageCount d) + usage_of es (sd_sconame d)"
    by (intro unat_add_usage [of _ _ "sd_size d"]) simp
  with f x show "unat (sd_usageCount x) + usage_of es' (sd_sconame x) \<le> unat (sd_size x)" by simp
qed

lemma updateIterator_ok:
  assumes "num_sorted (ps_scodata p)" and "ps_iter p \<le> length (ps_scodata p)"
    and "i < ps_iter p" and "sd_sconame (ps_scodata p ! i) = entry_sco e" and "usage_fits [e] (ps_scodata p)"
  shows "updateIterator (entry_sco e) p = (Inr (), p\<lparr>ps_iter := Suc i, ps_scodata := add_usage [e] (ps_scodata p)\<rparr>)"
proof -
  let ?d = "ps_scodata p ! i"
  have il: "i < length (ps_scodata p)" using assms(2,3) by simp
  have "unat (sd_usageCount ?d) + 1 \<le> unat (sd_size ?d)"
    using assms(4,5) il by (auto simp: usage_fits_def dest!: bspec [of _ _ ?d])
  then have "unat (sd_usageCount ?d + of_nat 1) \<le> unat (sd_size ?d)" by (subst unat_add_usage)
  then have "sd_usageCount ?d + 1 \<le> sd_size ?d" by (simp add: word_le_nat_alt)
  then show ?thesis
    using reverse_find_index [OF assms(1-4)] add_usage_single [OF assms(1) il assms(4)]
    by (simp add: updateIterator_def sbind_def smod_def sget_def sverify_def verify_def Let_def)
qed

text \<open>The entries that are still to come are of SCOs at or before the iterator.\<close>

definition iter_ok :: "part_scrubber \<Rightarrow> entry list \<Rightarrow> bool" where
  "iter_ok p es \<longleftrightarrow> num_sorted (ps_scodata p) \<and> ps_iter p \<le> length (ps_scodata p) \<and>
     sorted_wrt (\<lambda>a b. sco_num (entry_sco b) \<le> sco_num (entry_sco a)) es \<and>
     (\<forall>e \<in> set es. \<exists>i < ps_iter p. sd_sconame (ps_scodata p ! i) = entry_sco e)"

lemma iter_ok_step:
  assumes "iter_ok p (e # es)" and "i < ps_iter p" and "sd_sconame (ps_scodata p ! i) = entry_sco e"
  shows "iter_ok (p\<lparr>ps_iter := Suc i, ps_scodata := add_usage xs (ps_scodata p), ps_seen := S, ps_out := w\<rparr>) es"
proof -
  have "\<exists>j < Suc i. sd_sconame (add_usage xs (ps_scodata p) ! j) = entry_sco x" if x: "x \<in> set es" for x
  proof -
    obtain j where j: "j < ps_iter p" "sd_sconame (ps_scodata p ! j) = entry_sco x"
      using assms(1) x by (auto simp: iter_ok_def)
    have "sco_num (entry_sco x) \<le> sco_num (entry_sco e)" using assms(1) x by (simp add: iter_ok_def)
    then have "\<not> i < j"
      using num_sorted_nth [of "ps_scodata p" i j] assms j by (simp add: iter_ok_def)
    with j assms show ?thesis by (intro exI [of _ j]) (simp add: iter_ok_def)
  qed
  with assms show ?thesis by (simp add: iter_ok_def)
qed

lemma part_scrub_loop:
  assumes "\<forall>e \<in> set es. good_entry e \<and> e_clusteraddress e - cb < push_bit k 1"
    and "iter_ok p es" and "usage_fits (first_entries S es) (ps_scodata p)"
    and "set (ps_seen p) = (\<lambda>ca. ca - cb) ` S"
  shows "\<exists>p'. sfor es (part_scrub_entry k cb) p = (Inr (), p') \<and>
    ew_entries (ps_out p') = ew_entries (ps_out p) @ first_entries S es \<and>
    ps_scodata p' = add_usage (first_entries S es) (ps_scodata p)"
  using assms
proof (induction S es arbitrary: p rule: first_entries.induct)
  case (2 S e es)
  have g: "good_entry e" "e_clusteraddress e - cb < push_bit k 1" using 2(3) by simp_all
  have seen: "e_clusteraddress e - cb \<in> set (ps_seen p) \<longleftrightarrow> e_clusteraddress e \<in> S"
    using "2.prems"(4) by auto
  show ?case
  proof (cases "e_clusteraddress e \<in> S")
    case True
    have "part_scrub_entry k cb e p = (Inr (), p)"
      using g True seen good_address [OF g(1)]
      by (simp add: part_scrub_entry_def sbind_def slift_def sget_def sret_def sverify_def verify_def)
    moreover have "iter_ok p es" using "2.prems"(2) by (simp add: iter_ok_def)
    ultimately show ?thesis using "2.IH"(1) [OF True, of p] "2.prems" True by (auto simp: sbind_def)
  next
    case False
    from "2.prems"(2) obtain i where i: "i < ps_iter p" "sd_sconame (ps_scodata p ! i) = entry_sco e"
      by (auto simp: iter_ok_def)
    let ?w = "(ps_out p)\<lparr>ew_entries := ew_entries (ps_out p) @ [e], ew_last := clusterLocation (e_loc e)\<rparr>"
    let ?p = "p\<lparr>ps_iter := Suc i, ps_scodata := add_usage [e] (ps_scodata p),
                ps_seen := (e_clusteraddress e - cb) # ps_seen p, ps_out := ?w\<rparr>"
    have fits: "usage_fits [e] (ps_scodata p)"
      "usage_fits (first_entries (insert (e_clusteraddress e) S) es) (ps_scodata ?p)"
      using "2.prems"(3) False usage_fits_step [of "[e]" "first_entries (insert (e_clusteraddress e) S) es" "ps_scodata p"]
      by (auto simp: usage_fits_def split: if_splits)
    have "part_scrub_entry k cb e p = (Inr (), ?p)"
      using g False seen good_address [OF g(1)] updateIterator_ok [of "p\<lparr>ps_out := ?w\<rparr>" i e] "2.prems"(2) i fits(1)
      by (simp add: part_scrub_entry_def sbind_def slift_def sget_def smod_def szoom_def sverify_def verify_def
          ew_copy_good iter_ok_def)
    moreover have "\<exists>p'. sfor es (part_scrub_entry k cb) ?p = (Inr (), p') \<and>
        ew_entries (ps_out p') = ew_entries (ps_out ?p) @ first_entries (insert (e_clusteraddress e) S) es \<and>
        ps_scodata p' = add_usage (first_entries (insert (e_clusteraddress e) S) es) (ps_scodata ?p)"
      using "2.prems" iter_ok_step [OF "2.prems"(2) i]
      by (intro "2.IH"(2) [OF False] fits(2)) auto
    ultimately show ?thesis using False by (auto simp: sbind_def add_usage_add_usage)
  qed
qed (simp add: sret_def)

lemma region_offset:
  fixes ca :: u64
  assumes "k < 64"
  shows "ca - push_bit k (drop_bit k ca) < push_bit k 1"
proof -
  have "ca - push_bit k (drop_bit k ca) = take_bit k ca"
    using bits_ident [of k ca] by (metis add_diff_cancel_left')
  moreover have "unat (take_bit k ca) < 2 ^ k"
    by (simp add: unsigned_take_bit_eq take_bit_nat_less_exp)
  moreover have "unat (push_bit k 1 :: u64) = 2 ^ k"
  proof -
    have "(2 :: nat) ^ k < 2 ^ 64" using assms by (intro power_strict_increasing) simp_all
    then have "unat (of_nat (2 ^ k) :: u64) = 2 ^ k" by (simp only: unat_of_nat) (simp add: take_bit_nat_eq_self)
    then show ?thesis by simp
  qed
  ultimately show ?thesis by (simp add: word_less_nat_alt)
qed

lemma PartScrubber_ok:
  assumes "k < 64" and "\<forall>e \<in> set es. good_entry e \<and> region k e = index"
    and "sorted (map (\<lambda>e. sco_num (entry_sco e)) es)" and "num_sorted ds"
    and "\<forall>e \<in> set es. entry_sco e \<in> sd_sconame ` set ds" and "usage_fits (first_entries {} (rev es)) ds"
  shows "PartScrubber_run k index es ds = Inr (first_entries {} (rev es), add_usage (first_entries {} (rev es)) ds)"
proof -
  let ?p = "\<lparr>ps_scodata = ds, ps_iter = length ds, ps_seen = [], ps_out = ew_new\<rparr>"
  have f: "filter isLocation es = es" using assms(2) by (intro good_locations) simp
  have "\<forall>e \<in> set (rev es). good_entry e \<and> e_clusteraddress e - push_bit k index < push_bit k 1"
    using assms(1,2) region_offset by (auto simp: region_def)
  moreover have "\<exists>i < length ds. sd_sconame (ds ! i) = entry_sco e" if "e \<in> set es" for e
    using assms(5) that by (metis imageE in_set_conv_nth)
  then have "iter_ok ?p (rev es)"
    using assms(3,4) by (simp add: iter_ok_def sorted_wrt_rev sorted_wrt_map)
  ultimately obtain p' where "sfor (rev es) (part_scrub_entry k (push_bit k index)) ?p = (Inr (), p')"
      "ew_entries (ps_out p') = first_entries {} (rev es)" "ps_scodata p' = add_usage (first_entries {} (rev es)) ds"
    using part_scrub_loop [of "rev es" "push_bit k index" k ?p "{}"] assms(6) by (auto simp: ew_new_def)
  with assms(1) show ?thesis by (simp add: PartScrubber_run_def f verify_def)
qed

definition scrubbed_part :: "u64 \<times> entry list \<Rightarrow> entry list" where
  "scrubbed_part p = first_entries {} (rev (snd p))"

lemma scrubbed_part_pair [simp]: "scrubbed_part (index, es) = first_entries {} (rev es)"
  by (simp add: scrubbed_part_def)

lemma part_scrub_all_ok:
  assumes "k < 64" and "\<forall>(index, es) \<in> set parts. (\<forall>e \<in> set es. good_entry e \<and> region k e = index) \<and>
      sorted (map (\<lambda>e. sco_num (entry_sco e)) es) \<and> (\<forall>e \<in> set es. entry_sco e \<in> sd_sconame ` set ds)"
    and "num_sorted ds" and "usage_fits (concat (map scrubbed_part parts)) ds"
  shows "part_scrub_all k parts ds = Inr (map scrubbed_part parts, add_usage (concat (map scrubbed_part parts)) ds)"
  using assms(2-4)
proof (induction parts arbitrary: ds)
  case (Cons part parts)
  obtain index es where part: "part = (index, es)" by fastforce
  let ?out = "first_entries {} (rev es)"
  have "usage_fits ?out ds" using Cons.prems(3) by (auto simp: usage_fits_def part)
  then have "PartScrubber_run k index es ds = Inr (?out, add_usage ?out ds)"
    using PartScrubber_ok [OF assms(1), of es index ds] Cons.prems part by auto
  moreover have "part_scrub_all k parts (add_usage ?out ds) =
      Inr (map scrubbed_part parts, add_usage (concat (map scrubbed_part parts)) (add_usage ?out ds))"
  proof (rule Cons.IH)
    have "sd_sconame ` set (add_usage ?out ds) = sd_sconame ` set ds"
      by (metis add_usage_simps(3) set_map)
    with Cons.prems(1) show "\<forall>(index, es) \<in> set parts. (\<forall>e \<in> set es. good_entry e \<and> region k e = index) \<and>
      sorted (map (\<lambda>e. sco_num (entry_sco e)) es) \<and> (\<forall>e \<in> set es. entry_sco e \<in> sd_sconame ` set (add_usage ?out ds))"
      by auto
    show "usage_fits (concat (map scrubbed_part parts)) (add_usage ?out ds)"
      using Cons.prems(3) by (intro usage_fits_step) (simp add: part)
  qed (use Cons.prems(2) in simp)
  ultimately show ?case by (simp add: part add_usage_add_usage)
qed simp

subsection \<open>The merger\<close>

lemma merge_scan_min:
  assumes "merge_scan bs t ms rs = (bs', t', as')" and "t \<noteq> []" and "\<forall>r \<in> set rs. r \<noteq> []"
    and "\<forall>r \<in> set (bs @ ms). loc_key (hd t) \<le> loc_key (hd r)"
  shows "t' \<noteq> [] \<and> (\<forall>r \<in> set (bs' @ as'). loc_key (hd t') \<le> loc_key (hd r))"
  using assms
proof (induction bs t ms rs rule: merge_scan.induct)
  case (2 bs t ms r rs)
  show ?case
  proof (cases "merge_first (hd t) (hd r)")
    case True
    with 2(1) [OF True] 2(3-) show ?thesis by (auto simp: merge_first_key)
  next
    case False
    have "\<forall>x \<in> set ((bs @ t # ms) @ []). loc_key (hd r) \<le> loc_key (hd x)"
      using False "2.prems"(4) by (fastforce simp: merge_first_key not_less intro: order_trans)
    with 2(2) [OF False] "2.prems" False show ?thesis by auto
  qed
qed auto

lemma merge_next_ok:
  assumes "rs \<noteq> []" and "\<forall>r \<in> set rs. r \<noteq> []"
  shows "\<exists>e rs'. merge_next rs = Some (e, rs') \<and> (\<forall>r \<in> set rs'. r \<noteq> []) \<and>
    mset (concat rs) = add_mset e (mset (concat rs')) \<and>
    (\<forall>r \<in> set rs. loc_key e \<le> loc_key (hd r)) \<and>
    ((\<forall>r \<in> set rs. loc_sorted r) \<longrightarrow> (\<forall>r \<in> set rs'. loc_sorted r))"
proof -
  obtain r rs0 where r: "rs = r # rs0" using assms(1) by (cases rs) auto
  obtain bs t as where s: "merge_scan [] r [] rs0 = (bs, t, as)" by (metis prod_cases3)
  have rs: "rs = bs @ t # as" using merge_scan_parts [OF s] by (simp add: r)
  have m: "t \<noteq> []" "\<forall>x \<in> set (bs @ as). loc_key (hd t) \<le> loc_key (hd x)"
    using merge_scan_min [OF s] assms(2) r by auto
  let ?rs' = "if tl t = [] then bs @ as else bs @ tl t # as"
  have "merge_next rs = Some (hd t, ?rs')" by (simp add: merge_next_def r s)
  moreover have "mset (concat rs) = add_mset (hd t) (mset (concat ?rs'))"
    using m(1) by (cases t) (auto simp: rs)
  moreover have "\<forall>x \<in> set ?rs'. x \<noteq> []" using assms(2) by (auto simp: rs)
  moreover have "(\<forall>r \<in> set rs. loc_sorted r) \<longrightarrow> (\<forall>r \<in> set ?rs'. loc_sorted r)"
    using m(1) by (cases t) (auto simp: rs loc_sorted_def)
  moreover have "\<forall>r \<in> set rs. loc_key (hd t) \<le> loc_key (hd r)" using m(2) by (auto simp: rs)
  ultimately show ?thesis by blast
qed

lemma merge_all_mset:
  "\<forall>r \<in> set rs. r \<noteq> [] \<Longrightarrow> mset (merge_all rs) = mset (concat rs)"
proof (induction rs rule: merge_all.induct)
  case (1 rs)
  show ?case
  proof (cases "rs = []")
    case True
    then show ?thesis by (simp add: merge_all.simps merge_next_def)
  next
    case False
    from merge_next_ok [OF this 1(2)] obtain e rs' where n: "merge_next rs = Some (e, rs')"
      "\<forall>r \<in> set rs'. r \<noteq> []" "mset (concat rs) = add_mset e (mset (concat rs'))" by blast
    with 1(1) [OF n(1) refl] show ?thesis by (simp add: merge_all.simps [of rs])
  qed
qed

lemma loc_sorted_hd: "loc_sorted r \<Longrightarrow> x \<in> set r \<Longrightarrow> loc_key (hd r) \<le> loc_key x"
  by (cases r) (auto simp: loc_sorted_def less_imp_le)

lemma merge_all_sorted:
  assumes "\<forall>r \<in> set rs. r \<noteq> [] \<and> loc_sorted r" and "distinct (map loc_key (concat rs))"
  shows "loc_sorted (merge_all rs)"
  using assms
proof (induction rs rule: merge_all.induct)
  case (1 rs)
  show ?case
  proof (cases "rs = []")
    case True
    then show ?thesis by (simp add: merge_all.simps merge_next_def loc_sorted_def)
  next
    case False
    from merge_next_ok [OF this] 1(2) obtain e rs' where n: "merge_next rs = Some (e, rs')"
      "\<forall>r \<in> set rs'. r \<noteq> []" "mset (concat rs) = add_mset e (mset (concat rs'))"
      "\<forall>r \<in> set rs. loc_key e \<le> loc_key (hd r)" "\<forall>r \<in> set rs'. loc_sorted r" by blast
    have d: "distinct (map loc_key (e # concat rs'))"
      using 1(3) n(3) by (metis mset.simps(2) mset_eq_imp_distinct_iff mset_map)
    have "loc_key e < loc_key x" if x: "x \<in> set (merge_all rs')" for x
    proof -
      have x': "x \<in> set (concat rs')" using x merge_all_mset [OF n(2)] by (metis set_mset_mset)
      then have "x \<in> set (concat rs)" using n(3) by (metis add_mset_remove_trivial_eq insert_iff set_mset_add_mset_insert set_mset_mset)
      then obtain r where "r \<in> set rs" "x \<in> set r" by auto
      with n(4) loc_sorted_hd [of r x] 1(2) have "loc_key e \<le> loc_key x" by fastforce
      with d x' show ?thesis by fastforce
    qed
    moreover have "loc_sorted (merge_all rs')" using 1(1) [OF n(1) refl] n(2,5) d by simp
    ultimately show ?thesis by (simp add: merge_all.simps [of rs] n(1) loc_sorted_def)
  qed
qed

lemma fold_addTLogReader: "fold addTLogReader readers rs = rs @ filter (\<lambda>r. r \<noteq> []) readers"
  by (induction readers arbitrary: rs) (auto simp: addTLogReader_def)

lemma concat_nonempty: "concat (filter (\<lambda>r. r \<noteq> []) rs) = concat rs"
  by (induction rs) auto

text \<open>Merging sorted TLogs whose locations are the elements of a sorted list gives that list.\<close>

lemma TLogMerger_ok:
  assumes "\<forall>r \<in> set readers. loc_sorted r" and "loc_sorted es" and "mset (concat readers) = mset es"
    and "\<forall>e \<in> set es. good_entry e"
  shows "TLogMerger_run readers = Inr (es, if es = [] then null_location else clusterLocation (e_loc (last es)))"
proof -
  let ?rs = "filter (\<lambda>r. r \<noteq> []) readers"
  have m: "mset (concat ?rs) = mset es" using assms(3) by (simp only: concat_nonempty)
  then have "distinct (map loc_key (concat ?rs)) \<longleftrightarrow> distinct (map loc_key es)"
    by (metis mset_eq_imp_distinct_iff mset_map)
  then have "distinct (map loc_key (concat ?rs))" using assms(2) by (simp add: loc_sorted_def strict_sorted_iff)
  then have "loc_sorted (merge_all ?rs)" using assms(1) by (intro merge_all_sorted) auto
  moreover have "mset (merge_all ?rs) = mset es" using m by (subst merge_all_mset) auto
  then have "set (merge_all ?rs) = set es" by (rule mset_eq_setD)
  ultimately have "merge_all ?rs = es" using loc_sorted_unique assms(2) by blast
  then show ?thesis
    using ew_copy_loop [OF assms(4), of ew_new] by (simp add: TLogMerger_run_def fold_addTLogReader ew_new_def)
qed

subsection \<open>The metadata scrub as a whole\<close>

lemma mset_regions:
  assumes "distinct ks" and "\<forall>x \<in> set xs. f x \<in> set ks"
  shows "mset (concat (map (\<lambda>k. filter (\<lambda>x. f x = k) xs) ks)) = mset xs"
  using assms
proof (induction ks arbitrary: xs)
  case (Cons k ks)
  let ?ys = "filter (\<lambda>x. f x \<noteq> k) xs"
  have regions: "map (\<lambda>k. filter (\<lambda>x. f x = k) xs) ks = map (\<lambda>k. filter (\<lambda>x. f x = k) ?ys) ks"
    using Cons.prems(1) by (auto intro!: filter_cong)
  have split: "mset xs = mset (filter (\<lambda>x. f x = k) xs) + mset ?ys"
    unfolding mset_filter by (rule multiset_partition)
  have rest: "mset (concat (map (\<lambda>k. filter (\<lambda>x. f x = k) ?ys) ks)) = mset ?ys"
    by (rule Cons.IH) (use Cons.prems in auto)
  show ?case unfolding list.map concat.simps mset_append regions rest by (rule split [symmetric])
qed simp

lemma usage_of_mset: "mset xs = mset ys \<Longrightarrow> usage_of xs s = usage_of ys s"
  unfolding usage_of_def by (metis mset_filter size_mset)

lemma usage_of_count: "usage_of es s = count_list (map entry_sco es) s"
  by (induction es) auto

lemma usage_latest: "usage_of (latest es) s \<le> usage_of es s"
proof -
  have "usage_of (first_entries S es) s \<le> usage_of es s" for S es
    by (induction S es rule: first_entries.induct) auto
  from this [of "{}" "rev es"] show ?thesis by (simp add: latest_def usage_of_def rev_filter [symmetric])
qed

text \<open>What the TLogs of a snapshot look like: the locations were handed out in order.\<close>

definition scrub_input :: "entry list \<Rightarrow> bool" where
  "scrub_input es \<longleftrightarrow> (\<forall>e \<in> set es. good_entry e) \<and> loc_sorted es \<and>
     (\<forall>a \<in> set es. \<forall>b \<in> set es. sco_num (entry_sco a) = sco_num (entry_sco b) \<longrightarrow> entry_sco a = entry_sco b) \<and>
     (\<forall>e \<in> set es. usage_of es (entry_sco e) < 2 ^ 16)"

lemma loc_sorted_nums: "loc_sorted es \<Longrightarrow> sorted (map (\<lambda>e. sco_num (entry_sco e)) es)"
proof -
  have "loc_key a < loc_key b \<Longrightarrow> sco_num (entry_sco a) \<le> sco_num (entry_sco b)" for a b
  proof -
    have "unat (w :: u16) < 65536" for w using unat_bound [of w] by simp
    from this [of "cl_offset (clusterLocation (e_loc b))"] show "loc_key a < loc_key b \<Longrightarrow> ?thesis"
      by (simp add: loc_key_def sco_num_def)
  qed
  then show "loc_sorted es \<Longrightarrow> ?thesis"
    unfolding loc_sorted_def sorted_wrt_map by (metis (no_types, lifting) sorted_wrt_mono_rel)
qed

definition sco_table :: "entry list \<Rightarrow> scrub_sco list" where
  "sco_table es = fold splitter_sco (map entry_sco es) []"

lemma sco_table_ok:
  assumes "scrub_input es"
  shows "sco_data_ok (map entry_sco es) (sco_table es)"
  unfolding sco_table_def
proof (rule splitter_scos)
  show "sorted (map sco_num (map entry_sco es))"
    using loc_sorted_nums [of es] assms by (simp add: scrub_input_def comp_def)
  show "\<forall>n \<in> set (map entry_sco es). \<forall>m \<in> set (map entry_sco es). sco_num n = sco_num m \<longrightarrow> n = m"
    using assms by (auto simp: scrub_input_def)
qed

lemma sco_table_fits:
  assumes "scrub_input es" and "mset xs = mset (latest es)"
  shows "usage_fits xs (sco_table es)"
  unfolding usage_fits_def
proof
  fix d assume d: "d \<in> set (sco_table es)"
  with sco_table_ok [OF assms(1)] have t: "sd_usageCount d = 0" "sd_size d = of_nat (usage_of es (sd_sconame d))"
    "sd_sconame d \<in> entry_sco ` set es" by (auto simp: sco_data_ok_def usage_of_count)
  then have "usage_of es (sd_sconame d) < 2 ^ 16" using assms(1) by (auto simp: scrub_input_def)
  then have "unat (sd_size d) = usage_of es (sd_sconame d)" using t by (simp add: unat_of_nat take_bit_nat_eq_self)
  with usage_latest [of es] usage_of_mset [OF assms(2)] t
  show "unat (sd_usageCount d) + usage_of xs (sd_sconame d) \<le> unat (sd_size d)" by simp
qed

text \<open>The TLogs that the splitter makes and what the part scrubbers leave of them.\<close>

definition region_parts :: "nat \<Rightarrow> entry list \<Rightarrow> u64 list \<Rightarrow> (u64 \<times> entry list) list" where
  "region_parts k ls ks = map (\<lambda>i. (i, filter (\<lambda>e. region k e = i) ls)) ks"

lemma TLogSplitter_ok:
  assumes "ls = filter isLocation es" and "\<forall>e \<in> set ls. good_entry e"
  shows "\<exists>sl ks. TLogSplitter_run k es splitter_new = (Inr (), sl) \<and> sl_sco_data sl = sco_table ls \<and>
    map (\<lambda>(index, w). (index, ew_entries w)) (sl_tlogs sl) = region_parts k ls ks \<and>
    distinct ks \<and> set ks = region k ` set ls"
proof -
  obtain sl where sl: "TLogSplitter_run k es splitter_new = (Inr (), sl)" "std_map_inv (sl_tlogs sl)"
      "\<forall>i. part_entries (sl_tlogs sl) i = filter (\<lambda>e. region k e = i) ls"
      "fst ` set (sl_tlogs sl) = region k ` set ls" "sl_sco_data sl = sco_table ls"
    using TLogSplitter_loop [OF assms(2), of splitter_new k]
    by (auto simp: TLogSplitter_run_def assms(1) [symmetric] splitter_new_def std_map_inv_def part_entries_def sco_table_def)
  define ks where "ks = map fst (sl_tlogs sl)"
  have "distinct ks" "set ks = region k ` set ls" using sl(2,4) std_map_distinct by (auto simp: ks_def)
  moreover have "map (\<lambda>(index, w). (index, ew_entries w)) (sl_tlogs sl) = region_parts k ls ks"
    using sl(2,3) unfolding ks_def region_parts_def
    by (auto simp: part_entries_def std_map_distinct dest: spec split: option.splits)
  ultimately show ?thesis using sl by blast
qed

lemma scrubbed_parts:
  "map scrubbed_part (region_parts k ls ks) = map (\<lambda>i. rev (filter (\<lambda>e. region k e = i) (latest ls))) ks"
  unfolding region_parts_def using latest_filter [where P = "\<lambda>a. drop_bit k a = _" and es = ls]
  by (auto simp: latest_def region_def rev_filter rev_swap)

lemma scrubbed_parts_mset:
  assumes "distinct ks" and "set ks = region k ` set ls"
  shows "mset (concat (map scrubbed_part (region_parts k ls ks))) = mset (latest ls)"
proof -
  have "mset (concat (map scrubbed_part (region_parts k ls ks))) =
      mset (concat (map (\<lambda>i. filter (\<lambda>e. region k e = i) (latest ls)) ks))"
    unfolding scrubbed_parts by (simp add: mset_concat comp_def)
  also have "\<dots> = mset (latest ls)" using assms set_latest [of ls] by (intro mset_regions) auto
  finally show ?thesis .
qed

lemma part_scrub_regions:
  assumes "k < 64" and inp: "scrub_input ls" and ks: "distinct ks" "set ks = region k ` set ls"
  shows "part_scrub_all k (region_parts k ls ks) (sco_table ls) =
    Inr (map scrubbed_part (region_parts k ls ks), add_usage (latest ls) (sco_table ls))"
proof -
  let ?parts = "region_parts k ls ks"
  note m = scrubbed_parts_mset [OF ks]
  have tab: "sco_data_ok (map entry_sco ls) (sco_table ls)" by (rule sco_table_ok [OF inp])
  have "part_scrub_all k ?parts (sco_table ls) =
      Inr (map scrubbed_part ?parts, add_usage (concat (map scrubbed_part ?parts)) (sco_table ls))"
  proof (rule part_scrub_all_ok [OF assms(1)])
    show "\<forall>(index, es) \<in> set ?parts. (\<forall>e \<in> set es. good_entry e \<and> region k e = index) \<and>
      sorted (map (\<lambda>e. sco_num (entry_sco e)) es) \<and> (\<forall>e \<in> set es. entry_sco e \<in> sd_sconame ` set (sco_table ls))"
      using inp tab loc_sorted_nums [OF loc_sorted_filter [of ls]]
      by (auto simp: sco_data_ok_def region_parts_def scrub_input_def)
    show "num_sorted (sco_table ls)" using tab by (simp add: sco_data_ok_def num_sorted_def)
  qed (rule sco_table_fits [OF inp m])
  then show ?thesis unfolding add_usage_def using usage_of_mset [OF m] by simp
qed

lemma latest_Nil [simp]: "latest ls = [] \<longleftrightarrow> ls = []"
  by (cases ls rule: rev_cases) (auto simp: latest_def)

lemma merge_regions:
  assumes inp: "scrub_input ls" and ks: "distinct ks" "set ks = region k ` set ls"
  shows "TLogMerger_run (map (\<lambda>t. rev (filter isLocation t)) (map scrubbed_part (region_parts k ls ks))) =
    Inr (latest ls, if ls = [] then null_location else clusterLocation (e_loc (last (latest ls))))"
proof -
  let ?ts = "map scrubbed_part (region_parts k ls ks)"
  have lg: "\<forall>e \<in> set (latest ls). good_entry e" and so: "loc_sorted (latest ls)"
    using inp set_latest [of ls] latest_sorted [of ls] by (auto simp: scrub_input_def)
  have fl: "map (\<lambda>t. rev (filter isLocation t)) ?ts = map rev ?ts"
    unfolding scrubbed_parts using lg by (auto simp: good_location rev_filter intro!: filter_cong)
  have "\<forall>r \<in> set (map rev ?ts). loc_sorted r"
    unfolding scrubbed_parts using loc_sorted_filter [OF so] by auto
  moreover have "mset (concat (map rev ?ts)) = mset (latest ls)"
    using scrubbed_parts_mset [OF ks] by (simp add: mset_concat comp_def)
  ultimately show ?thesis unfolding fl using TLogMerger_ok [OF _ so _ lg] by simp
qed

lemma metadata_scrub_ok:
  assumes "k < 64" and "ls = filter isLocation es" and "scrub_input ls"
  shows "metadata_scrub k es =
    Inr (latest ls, if ls = [] then null_location else clusterLocation (e_loc (last (latest ls))),
         add_usage (latest ls) (sco_table ls))"
proof -
  have "\<forall>e \<in> set ls. good_entry e" using assms(3) by (simp add: scrub_input_def)
  from TLogSplitter_ok [OF assms(2) this, of k] obtain sl ks where
    sl: "TLogSplitter_run k es splitter_new = (Inr (), sl)" "sl_sco_data sl = sco_table ls"
      "map (\<lambda>(index, w). (index, ew_entries w)) (sl_tlogs sl) = region_parts k ls ks"
    and ks: "distinct ks" "set ks = region k ` set ls" by blast
  have "sum_list (map length (map scrubbed_part (region_parts k ls ks))) = length (latest ls)"
    using scrubbed_parts_mset [OF ks] by (metis length_concat size_mset)
  with sl part_scrub_regions [OF assms(1,3) ks] merge_regions [OF assms(3) ks] show ?thesis
    by (simp add: metadata_scrub_def verify_def)
qed

subsection \<open>The entries of a writer are what TLogWriter puts in the file\<close>

definition ew_rel :: "tlog_env \<Rightarrow> entry_writer \<Rightarrow> tlog_writer \<Rightarrow> bool" where
  "ew_rel env v w \<longleftrightarrow> tw_inv env w \<and> tw_bytes (te_hash env) w = entries_bytes (te_hash env) (ew_entries v) \<and>
     tw_lastClusterLocation w = ew_last v"

lemma ew_new_refines: "TLogWriter_new env rc ps nb [] = Inr w \<Longrightarrow> ew_rel env ew_new w"
  by (auto simp: TLogWriter_new_def ew_rel_def ew_new_def tw_inv_def tw_bytes_def entries_bytes_def)

lemma ew_add_refines:
  assumes "ew_rel env v w"
  shows "fst (TLogWriter_add env ca loc w) = fst (ew_add ca loc v) \<and>
    ew_rel env (snd (ew_add ca loc v)) (snd (TLogWriter_add env ca loc w))"
  using assms
  by (auto simp: ew_rel_def TLogWriter_add_def ew_add_def tw_place_def tw_maybe_refresh_buffer_def Entry_loc_def
      verify_def sbind_def smod_def slift_def sret_def tw_inv_def tw_bytes_def entries_bytes_def update_append)
    (simp flip: append_assoc)

subsection \<open>What the metadata scrub promises\<close>

lemma latest_of_address:
  "filter (\<lambda>e. e_clusteraddress e = a) (latest es) =
     (case filter (\<lambda>e. e_clusteraddress e = a) es of [] \<Rightarrow> [] | es' \<Rightarrow> [last es'])"
proof -
  have *: "first_entries {} xs = [hd xs]" if "xs \<noteq> []" "\<forall>e \<in> set xs. e_clusteraddress e = a" for xs
  proof -
    have "first_entries {a} ys = []" if "\<forall>e \<in> set ys. e_clusteraddress e = a" for ys
      using that by (induction ys) auto
    then show ?thesis using that by (cases xs) auto
  qed
  let ?P = "\<lambda>e. e_clusteraddress e = a"
  have "latest xs = [last xs]" if "xs \<noteq> []" "\<forall>e \<in> set xs. ?P e" for xs
    unfolding latest_def using that * [of "rev xs"] by (simp add: hd_rev)
  then have "latest xs = (case xs of [] \<Rightarrow> [] | es' \<Rightarrow> [last es'])" if "\<forall>e \<in> set xs. ?P e" for xs
    using that by (cases xs) auto
  from this [of "filter ?P es"] have "latest (filter ?P es) = (case filter ?P es of [] \<Rightarrow> [] | es' \<Rightarrow> [last es'])"
    by simp
  then show ?thesis using latest_filter [of "\<lambda>x. x = a" es] by simp
qed

lemma scrub_counts:
  assumes "scrub_input ls" and "d \<in> set (add_usage (latest ls) (sco_table ls))"
  shows "unat (sd_usageCount d) = usage_of (latest ls) (sd_sconame d) \<and>
    unat (sd_size d) = usage_of ls (sd_sconame d)"
proof -
  from assms(2) obtain t where t: "t \<in> set (sco_table ls)"
    and d: "d = t\<lparr>sd_usageCount := sd_usageCount t + of_nat (usage_of (latest ls) (sd_sconame t))\<rparr>"
    by (auto simp: add_usage_def)
  from t sco_table_ok [OF assms(1)] have tab: "sd_usageCount t = 0" "sd_size t = of_nat (usage_of ls (sd_sconame t))"
    "sd_sconame t \<in> entry_sco ` set ls" by (auto simp: sco_data_ok_def usage_of_count)
  then have "usage_of ls (sd_sconame t) < 2 ^ 16" using assms(1) by (auto simp: scrub_input_def)
  with tab usage_latest [of ls "sd_sconame t"] show ?thesis
    by (simp add: d unat_of_nat take_bit_nat_eq_self)
qed

definition ex_scrub_entry :: "u64 \<Rightarrow> u32 \<Rightarrow> u16 \<Rightarrow> entry" where
  "ex_scrub_entry ca n off = \<lparr>e_clusteraddress = ca,
     e_loc = \<lparr>clusterLocation = \<lparr>cl_offset = off, cl_sco = SCO_new n 0 0\<rparr>, weed = 0\<rparr>\<rparr>"

definition ex_scrub :: "entry list" where
  "ex_scrub = [ex_scrub_entry 7 1 0, ex_scrub_entry 300 1 1, Entry_sync, ex_scrub_entry 7 2 0, ex_scrub_entry 8 2 1]"

lemma ex_scrub_locations:
  "filter isLocation ex_scrub =
     [ex_scrub_entry 7 1 0, ex_scrub_entry 300 1 1, ex_scrub_entry 7 2 0, ex_scrub_entry 8 2 1]"
  by code_simp

lemma ex_scrub_input: "scrub_input (filter isLocation ex_scrub)"
  unfolding ex_scrub_locations
  by (simp add: scrub_input_def good_entry_def isNull_def ex_scrub_entry_def SCO_new_def max_valid_cluster_address_def
      loc_sorted_def loc_key_def sco_num_def)

text \<open>
  C6. The metadata scrub of TLogs whose locations were handed out in order succeeds. Its TLog is in the
  order of the locations and has, for every address, exactly the last location the TLogs had for it.
\<close>

theorem metadata_scrub_keeps_last:
  assumes "k < 64" and "ls = filter isLocation es" and "scrub_input ls"
  shows "\<exists>out last_loc scos. metadata_scrub k es = Inr (out, last_loc, scos) \<and> loc_sorted out \<and>
    (\<forall>a. filter (\<lambda>e. e_clusteraddress e = a) out =
       (case filter (\<lambda>e. e_clusteraddress e = a) ls of [] \<Rightarrow> [] | es' \<Rightarrow> [last es']))"
  using metadata_scrub_ok [OF assms] latest_sorted [of ls] assms(3) latest_of_address [of _ ls]
  by (auto simp: scrub_input_def)

theorem metadata_scrub_keeps_last_witness:
  "\<exists>out last_loc scos. metadata_scrub 4 ex_scrub = Inr (out, last_loc, scos) \<and> loc_sorted out \<and>
    filter (\<lambda>e. e_clusteraddress e = 7) out = [ex_scrub_entry 7 2 0]"
proof -
  have "(case filter (\<lambda>e. e_clusteraddress e = 7) (filter isLocation ex_scrub) of [] \<Rightarrow> [] | es' \<Rightarrow> [last es']) =
      [ex_scrub_entry 7 2 0]" by code_simp
  with metadata_scrub_keeps_last [of 4, OF _ refl ex_scrub_input] show ?thesis by force
qed


end
