(* ===== verification/Local_Backend.thy ===== *)
theory Local_Backend
  imports TLog_IO "HOL-Library.AList"
begin

text \<open>
  The object store on a local directory (src/src/backend/Local_Connection.cpp), with the cache of open
  files (src/src/youtils/LRUCache.h) that its partial reads go through, and the part of
  src/src/backend/BackendConnectionInterface.cpp that stands in front of it.

  A namespace is a directory and an object a file in it; a path is the pair of their names, which are
  non-empty and have no slash. A file on the caller's side is its content, or nothing when it does not
  exist. An open file keeps the content it had when it was opened, because an object is only ever
  replaced by renaming another file over it.
\<close>

subsection \<open>The cache of open files\<close>

text \<open>
  \<open>lru_entries\<close> is the right view of the \<^verbatim>\<open>bimap\<close>, the least recently used entry first. An entry whose
  value somebody else holds, \<^verbatim>\<open>use_count() > 1\<close>, is \<open>busy\<close>.
\<close>

record ('k, 'v) lru_cache =
  lru_entries :: "('k \<times> 'v) list"
  lru_capacity :: nat
  lru_hits :: u64
  lru_misses :: u64

text \<open>The constructor leaves the counters \<open>h\<close> and \<open>m\<close> as they are in memory.\<close>

definition LRUCache_new :: "u64 \<Rightarrow> u64 \<Rightarrow> nat \<Rightarrow> ('k, 'v) lru_cache result" where
  "LRUCache_new h m cap =
     (if cap = 0 then Inl (IOException ''capacity_ == 0'')
      else Inr \<lparr>lru_entries = [], lru_capacity = cap, lru_hits = h, lru_misses = m\<rparr>)"

text \<open>
  The loop of \<^verbatim>\<open>maybe_evict_\<close> with the iterator between \<open>pre\<close> and \<open>rest\<close>; \<open>ev\<close> are the entries given
  to \<^verbatim>\<open>evict_fun_\<close>. The first component says whether it came to its end.
\<close>

function evict_loop :: "('k \<Rightarrow> bool) \<Rightarrow> nat \<Rightarrow> ('k \<times> 'v) list \<Rightarrow> ('k \<times> 'v) list \<Rightarrow> ('k \<times> 'v) list \<Rightarrow>
    bool \<times> ('k \<times> 'v) list \<times> ('k \<times> 'v) list" where
  "evict_loop busy cap ev pre rest =
     (if length pre + length rest \<le> cap then (True, ev, pre @ rest)
      else case rest of
        [] \<Rightarrow> (False, ev, pre)
      | e # rest' \<Rightarrow>
          if busy (fst e) then evict_loop busy cap ev (pre @ [e]) rest'
          else evict_loop busy cap (ev @ [e]) [] (pre @ rest'))"
  by auto
termination
  by (relation "measures [\<lambda>(busy, cap, ev, pre, rest). length pre + length rest,
        \<lambda>(busy, cap, ev, pre, rest). length rest]") auto

declare evict_loop.simps [simp del]

definition lru_maybe_evict :: "('k \<Rightarrow> bool) \<Rightarrow> nat \<Rightarrow> (('k, 'v) lru_cache, ('k \<times> 'v) list) sm" where
  "lru_maybe_evict busy cap c =
     (case evict_loop busy cap [] [] (lru_entries c) of
        (ok, ev, es) \<Rightarrow>
          (if ok then Inr ev else Inl (IOException ''all cache entries are in use, cannot evict one''),
           c\<lparr>lru_entries := es\<rparr>))"

text \<open>\<open>fn\<close> is the \<^verbatim>\<open>PullFun\<close>; it gives nothing when it returns a null pointer.\<close>

definition lru_do_fetch :: "('k \<Rightarrow> bool) \<Rightarrow> 'k \<Rightarrow> 'v option result \<Rightarrow> (('k, 'v) lru_cache, 'v option) sm" where
  "lru_do_fetch busy k fn =
     sbind (slift fn) (\<lambda>v.
       case v of
         None \<Rightarrow> sret None
       | Some x \<Rightarrow>
           sbind (sget (\<lambda>c. map_of (lru_entries c) k)) (\<lambda>found.
           case found of
             Some _ \<Rightarrow> sret v
           | None \<Rightarrow>
               sbind (sget (\<lambda>c. lru_capacity c - 1)) (\<lambda>cap.
               sbind (lru_maybe_evict busy cap) (\<lambda>_.
               sbind (smod (\<lambda>c. c\<lparr>lru_entries := lru_entries c @ [(k, x)]\<rparr>)) (\<lambda>_. sret v)))))"

definition lru_find :: "('k \<Rightarrow> bool) \<Rightarrow> 'k \<Rightarrow> 'v option result \<Rightarrow> (('k, 'v) lru_cache, 'v option) sm" where
  "lru_find busy k fn =
     sbind (sget (\<lambda>c. map_of (lru_entries c) k)) (\<lambda>found.
     case found of
       Some v \<Rightarrow>
         sbind (smod (\<lambda>c. c\<lparr>lru_hits := lru_hits c + 1,
            lru_entries := filter (\<lambda>e. fst e \<noteq> k) (lru_entries c) @ [(k, v)]\<rparr>)) (\<lambda>_. sret (Some v))
     | None \<Rightarrow>
         sbind (smod (\<lambda>c. c\<lparr>lru_misses := lru_misses c + 1\<rparr>)) (\<lambda>_. lru_do_fetch busy k fn))"

definition lru_erase_no_evict :: "'k \<Rightarrow> (('k, 'v) lru_cache, bool) sm" where
  "lru_erase_no_evict k =
     sbind (sget (\<lambda>c. map_of (lru_entries c) k \<noteq> None)) (\<lambda>found.
     sbind (smod (\<lambda>c. c\<lparr>lru_entries := filter (\<lambda>e. fst e \<noteq> k) (lru_entries c)\<rparr>)) (\<lambda>_. sret found))"

definition lru_erase :: "('k \<Rightarrow> bool) \<Rightarrow> 'k \<Rightarrow> (('k, 'v) lru_cache, bool) sm" where
  "lru_erase busy k =
     sbind (sget (\<lambda>c. map_of (lru_entries c) k \<noteq> None)) (\<lambda>found.
     if found \<and> busy k then sthrow (IOException ''Entry still in use'') else lru_erase_no_evict k)"

definition lru_keys :: "('k, 'v) lru_cache \<Rightarrow> 'k list" where
  "lru_keys c = map fst (lru_entries c)"

definition lru_set_capacity :: "('k \<Rightarrow> bool) \<Rightarrow> nat \<Rightarrow> (('k, 'v) lru_cache, unit) sm" where
  "lru_set_capacity busy cap =
     (if cap = 0 then sthrow (IOException ''cap == 0'')
      else sbind (lru_maybe_evict busy cap) (\<lambda>_. smod (\<lambda>c. c\<lparr>lru_capacity := cap\<rparr>)))"

subsection \<open>The connection\<close>

type_synonym object_dir = "(string \<times> u8 list) list"
type_synonym object_tag = "128 word"

record local_store =
  lo_root :: bool
  lo_dirs :: "(string \<times> object_dir) list"
  lo_lru :: "(string \<times> string, u8 list) lru_cache"

text \<open>
  What the code takes from its surroundings: the checksum code and the size of a page, the MD5 sum that is
  the tag of an object (\<^verbatim>\<open>Weed\<close>), the name that \<^verbatim>\<open>mkstemp\<close> chooses for a temporary file in a directory, the
  setting for partial reads and the open files that other threads hold.
\<close>

record local_env =
  le_tlog :: tlog_env
  le_page :: nat
  le_md5 :: "u8 list \<Rightarrow> object_tag"
  le_mkstemp :: "object_dir \<Rightarrow> string \<Rightarrow> string"
  le_partial_read :: bool
  le_busy :: "string \<times> string \<Rightarrow> bool"

definition lo_object :: "local_store \<Rightarrow> string \<Rightarrow> string \<Rightarrow> u8 list option" where
  "lo_object s ns name = (case map_of (lo_dirs s) ns of None \<Rightarrow> None | Some d \<Rightarrow> map_of d name)"

definition lo_put :: "string \<Rightarrow> string \<Rightarrow> u8 list \<Rightarrow> local_store \<Rightarrow> local_store" where
  "lo_put ns name c s =
     (case map_of (lo_dirs s) ns of
        None \<Rightarrow> s
      | Some d \<Rightarrow> s\<lparr>lo_dirs := AList.update ns (AList.update name c d) (lo_dirs s)\<rparr>)"

definition lo_drop :: "string \<Rightarrow> string \<Rightarrow> local_store \<Rightarrow> local_store" where
  "lo_drop ns name s =
     (case map_of (lo_dirs s) ns of
        None \<Rightarrow> s
      | Some d \<Rightarrow> s\<lparr>lo_dirs := AList.update ns (AList.delete name d) (lo_dirs s)\<rparr>)"

definition on_lru :: "((string \<times> string, u8 list) lru_cache, 'a) sm \<Rightarrow> (local_store, 'a) sm" where
  "on_lru m = szoom lo_lru (\<lambda>c s. s\<lparr>lo_lru := c\<rparr>) m"

text \<open>The paths; the last two throw when nothing is there.\<close>

definition nspacePath :: "(local_store, unit) sm" where
  "nspacePath = sbind (sget lo_root) (\<lambda>r. if r then sret () else sthrow (BackendException Backend))"

definition objectPath :: "(local_store, unit) sm" where
  "objectPath = sbind (sget lo_root) (\<lambda>r. if r then sret () else sthrow (BackendException Backend))"

definition checkedNamespacePath :: "string \<Rightarrow> (local_store, object_dir) sm" where
  "checkedNamespacePath ns =
     sbind nspacePath (\<lambda>_.
     sbind (sget (\<lambda>s. map_of (lo_dirs s) ns)) (\<lambda>d.
     case d of None \<Rightarrow> sthrow (BackendException NamespaceDoesNotExist) | Some d \<Rightarrow> sret d))"

definition checkedObjectPath :: "string \<Rightarrow> string \<Rightarrow> (local_store, u8 list) sm" where
  "checkedObjectPath ns name =
     sbind objectPath (\<lambda>_.
     sbind (sget (\<lambda>s. lo_object s ns name)) (\<lambda>obj.
     case obj of
       Some c \<Rightarrow> sret c
     | None \<Rightarrow>
         sbind nspacePath (\<lambda>_.
         sbind (sget (\<lambda>s. map_of (lo_dirs s) ns)) (\<lambda>d.
           sthrow (BackendException (if d = None then NamespaceDoesNotExist else ObjectDoesNotExist))))))"

definition lc_namespaceExists :: "string \<Rightarrow> (local_store, bool) sm" where
  "lc_namespaceExists ns = sbind nspacePath (\<lambda>_. sget (\<lambda>s. map_of (lo_dirs s) ns \<noteq> None))"

definition lc_getCheckSum :: "local_env \<Rightarrow> string \<Rightarrow> string \<Rightarrow> (local_store, checksum) sm" where
  "lc_getCheckSum env ns name =
     sbind (checkedObjectPath ns name) (\<lambda>c. sret (calculate_checksum (le_tlog env) (le_page env) c))"

definition lc_createNamespace :: "string \<Rightarrow> bool \<Rightarrow> (local_store, unit) sm" where
  "lc_createNamespace ns must_not_exist =
     sbind (if must_not_exist then sbind nspacePath (\<lambda>_. sget (\<lambda>s. map_of (lo_dirs s) ns \<noteq> None)) else sret False)
       (\<lambda>there.
     if there then sthrow (BackendException CouldNotCreateNamespace)
     else sbind nspacePath (\<lambda>_.
       smod (\<lambda>s. if map_of (lo_dirs s) ns = None then s\<lparr>lo_dirs := AList.update ns [] (lo_dirs s)\<rparr> else s)))"

text \<open>The content that ends up in the destination file.\<close>

definition lc_read :: "string \<Rightarrow> string \<Rightarrow> (local_store, u8 list) sm" where
  "lc_read ns name =
     (if name = [] then sthrow (BackendException Client) else checkedObjectPath ns name)"

definition lc_verify_tag :: "local_env \<Rightarrow> string \<Rightarrow> (string \<times> object_tag) option \<Rightarrow> (local_store, unit) sm" where
  "lc_verify_tag env ns cond =
     (case cond of
        None \<Rightarrow> sret ()
      | Some (name, tag) \<Rightarrow>
          sbind (checkedObjectPath ns name) (\<lambda>c.
            if le_md5 env c \<noteq> tag then sthrow (BackendException AssertionFailed) else sret ()))"

text \<open>
  \<open>safe_copy\<close> copies to a temporary file in the namespace and renames that; when the source is missing, the
  temporary file stays behind.
\<close>

definition lc_copy :: "local_env \<Rightarrow> string \<Rightarrow> u8 list option \<Rightarrow> string \<Rightarrow> bool \<Rightarrow>
    (string \<times> object_tag) option \<Rightarrow> (local_store, unit) sm" where
  "lc_copy env ns src name overwrite cond =
     sbind (lc_verify_tag env ns cond) (\<lambda>_.
     sbind objectPath (\<lambda>_.
     sbind (sget (\<lambda>s. lo_object s ns name \<noteq> None)) (\<lambda>pre_exists.
     if pre_exists \<and> \<not> overwrite then sthrow (BackendException AssertionFailed)
     else sbind (sget (\<lambda>s. map_of (lo_dirs s) ns)) (\<lambda>d.
       case d of
         None \<Rightarrow> sthrow (BackendException Store)
       | Some d \<Rightarrow>
           (case src of
              None \<Rightarrow>
                sbind (smod (lo_put ns (le_mkstemp env d name) [])) (\<lambda>_. sthrow (BackendException Input))
            | Some c \<Rightarrow>
                sbind (smod (lo_put ns name c)) (\<lambda>_.
                if pre_exists then sbind (on_lru (lru_erase_no_evict (ns, name))) (\<lambda>_. sret ()) else sret ()))))))"

definition lc_write :: "local_env \<Rightarrow> string \<Rightarrow> u8 list option \<Rightarrow> string \<Rightarrow> bool \<Rightarrow> checksum option \<Rightarrow>
    (string \<times> object_tag) option \<Rightarrow> (local_store, unit) sm" where
  "lc_write env ns src name overwrite chksum cond =
     sbind (case chksum of
              None \<Rightarrow> sret ()
            | Some cs \<Rightarrow>
                (case src of
                   None \<Rightarrow> sthrow (IOException ''FileDescriptor'')
                 | Some c \<Rightarrow>
                     if calculate_checksum (le_tlog env) (le_page env) c \<noteq> cs
                     then sthrow (BackendException Input) else sret ())) (\<lambda>_.
       lc_copy env ns src name overwrite cond)"

definition lc_objectExists :: "string \<Rightarrow> string \<Rightarrow> (local_store, bool) sm" where
  "lc_objectExists ns name =
     sbind objectPath (\<lambda>_.
     sbind (sget (\<lambda>s. lo_object s ns name \<noteq> None)) (\<lambda>b.
     if b then sret True
     else sbind (lc_namespaceExists ns) (\<lambda>e.
       if \<not> e then sthrow (BackendException NamespaceDoesNotExist) else sret False)))"

definition lc_remove :: "local_env \<Rightarrow> string \<Rightarrow> string \<Rightarrow> bool \<Rightarrow> (string \<times> object_tag) option \<Rightarrow>
    (local_store, unit) sm" where
  "lc_remove env ns name may_not_exist cond =
     sbind objectPath (\<lambda>_.
     sbind (lc_verify_tag env ns cond) (\<lambda>_.
     sbind (sget (\<lambda>s. lo_object s ns name \<noteq> None)) (\<lambda>there.
     if there
     then sbind (smod (lo_drop ns name)) (\<lambda>_.
          sbind (on_lru (lru_erase_no_evict (ns, name))) (\<lambda>_. sret ()))
     else sbind (lc_namespaceExists ns) (\<lambda>e.
       if \<not> e then sthrow (BackendException NamespaceDoesNotExist)
       else if \<not> may_not_exist then sthrow (BackendException ObjectDoesNotExist)
       else sret ()))))"

definition lc_deleteNamespace :: "string \<Rightarrow> (local_store, unit) sm" where
  "lc_deleteNamespace ns =
     sbind nspacePath (\<lambda>_.
     sbind (sget (\<lambda>s. map_of (lo_dirs s) ns)) (\<lambda>d.
     if d = None then sthrow (BackendException CouldNotDeleteNamespace)
     else sbind (smod (\<lambda>s. s\<lparr>lo_dirs := AList.delete ns (lo_dirs s)\<rparr>)) (\<lambda>_.
          sbind (sget (\<lambda>s. lru_keys (lo_lru s))) (\<lambda>keys.
            sfor keys (\<lambda>key. if fst key = ns then sbind (on_lru (lru_erase_no_evict key)) (\<lambda>_. sret ()) else sret ())))))"

text \<open>\<open>FileDescriptor::pread\<close> on a file with the given content: it may return less than was asked for.\<close>

definition fd_pread :: "u8 list \<Rightarrow> nat \<Rightarrow> nat \<Rightarrow> u8 list" where
  "fd_pread content n offset = take n (drop offset content)"

text \<open>
  The slices of one object are pairs of size and offset. The result is whether partial reads are supported,
  and what the buffers get.
\<close>

fun read_slices :: "u8 list \<Rightarrow> (nat \<times> nat) list \<Rightarrow> u8 list list result" where
  "read_slices c [] = Inr []"
| "read_slices c ((n, offset) # ss) =
     (if length (fd_pread c n offset) \<noteq> n then Inl (BackendException Restore)
      else rbind (read_slices c ss) (\<lambda>bs. Inr (fd_pread c n offset # bs)))"

fun partial_read_loop :: "local_env \<Rightarrow> string \<Rightarrow> (string \<times> (nat \<times> nat) list) list \<Rightarrow>
    (local_store, u8 list list) sm" where
  "partial_read_loop env ns [] = sret []"
| "partial_read_loop env ns ((name, slices) # reads) =
     sbind objectPath (\<lambda>_.
     sbind (sget (\<lambda>s. case lo_object s ns name of
              None \<Rightarrow> Inl (IOException ''FileDescriptor'') | Some c \<Rightarrow> Inr (Some c))) (\<lambda>opened.
     sbind (on_lru (lru_find (le_busy env) (ns, name) opened)) (\<lambda>sio.
     case sio of
       None \<Rightarrow> sthrow UndefinedBehaviour
     | Some c \<Rightarrow>
         sbind (slift (read_slices c slices)) (\<lambda>bs.
         sbind (partial_read_loop env ns reads) (\<lambda>bss. sret (bs @ bss))))))"

definition lc_partial_read :: "local_env \<Rightarrow> string \<Rightarrow> (string \<times> (nat \<times> nat) list) list \<Rightarrow>
    (local_store, u8 list list option) sm" where
  "lc_partial_read env ns reads =
     (if le_partial_read env then sbind (partial_read_loop env ns reads) (\<lambda>bs. sret (Some bs)) else sret None)"

definition lc_getSize :: "string \<Rightarrow> string \<Rightarrow> (local_store, u64) sm" where
  "lc_getSize ns name = sbind (checkedObjectPath ns name) (\<lambda>c. sret (of_nat (length c)))"

definition lc_listObjects :: "string \<Rightarrow> (local_store, string list) sm" where
  "lc_listObjects ns = sbind (checkedNamespacePath ns) (\<lambda>d. sret (map fst d))"

definition lc_listNamespaces :: "(local_store, string list) sm" where
  "lc_listNamespaces = sbind nspacePath (\<lambda>_. sget (\<lambda>s. map fst (lo_dirs s)))"

definition lc_get_tag :: "local_env \<Rightarrow> string \<Rightarrow> string \<Rightarrow> (local_store, object_tag) sm" where
  "lc_get_tag env ns name = sbind (checkedObjectPath ns name) (\<lambda>c. sret (le_md5 env c))"

definition lc_read_tag :: "local_env \<Rightarrow> string \<Rightarrow> string \<Rightarrow> (local_store, u8 list \<times> object_tag) sm" where
  "lc_read_tag env ns name = sbind (lc_read ns name) (\<lambda>c. sret (c, le_md5 env c))"

definition lc_write_tag :: "local_env \<Rightarrow> string \<Rightarrow> u8 list option \<Rightarrow> string \<Rightarrow> object_tag option \<Rightarrow> bool \<Rightarrow>
    (local_store, object_tag) sm" where
  "lc_write_tag env ns src name prev_tag overwrite =
     sbind (sverify (prev_tag \<noteq> None \<longrightarrow> overwrite) ''overwrite == OverwriteObject::T'') (\<lambda>_.
     sbind (lc_copy env ns src name overwrite (map_option (\<lambda>tag. (name, tag)) prev_tag)) (\<lambda>_.
       lc_get_tag env ns name))"

subsection \<open>In front of the connection\<close>

definition ci_clearNamespace :: "string \<Rightarrow> (local_store, unit) sm" where
  "ci_clearNamespace ns = sbind (lc_deleteNamespace ns) (\<lambda>_. lc_createNamespace ns True)"

text \<open>\<open>fallback\<close> gives the content of the file that the caller keeps for an object.\<close>

fun fallback_loop :: "(string \<Rightarrow> u8 list result) \<Rightarrow> (string \<times> (nat \<times> nat) list) list \<Rightarrow> u8 list list result" where
  "fallback_loop fallback [] = Inr []"
| "fallback_loop fallback ((name, slices) # reads) =
     rbind (fallback name) (\<lambda>c.
     rbind (read_slices c slices) (\<lambda>bs.
     rbind (fallback_loop fallback reads) (\<lambda>bss. Inr (bs @ bss))))"

definition ci_partial_read :: "local_env \<Rightarrow> string \<Rightarrow> (string \<times> (nat \<times> nat) list) list \<Rightarrow>
    (string \<Rightarrow> u8 list result) \<Rightarrow> (local_store, u8 list list) sm" where
  "ci_partial_read env ns reads fallback =
     sbind (lc_partial_read env ns reads) (\<lambda>r.
     case r of Some bs \<Rightarrow> sret bs | None \<Rightarrow> slift (fallback_loop fallback reads))"

definition ci_write_tag :: "local_env \<Rightarrow> string \<Rightarrow> u8 list option \<Rightarrow> string \<Rightarrow> object_tag option \<Rightarrow> bool \<Rightarrow>
    (local_store, object_tag) sm" where
  "ci_write_tag env ns src name prev_tag overwrite =
     sbind (sverify (\<not> (prev_tag \<noteq> None \<and> \<not> overwrite)) ''not (prev_tag and overwrite == OverwriteObject::F)'') (\<lambda>_.
       lc_write_tag env ns src name prev_tag overwrite)"

subsection \<open>The cache keeps its bound\<close>

definition lru_ok :: "('k, 'v) lru_cache \<Rightarrow> bool" where
  "lru_ok c \<longleftrightarrow> 0 < lru_capacity c \<and> distinct (map fst (lru_entries c)) \<and> length (lru_entries c) \<le> lru_capacity c"

lemma evict_loop_ok:
  assumes "evict_loop busy cap ev pre rest = (ok, ev', es)"
  shows "set es \<subseteq> set (pre @ rest) \<and> (distinct (map fst (pre @ rest)) \<longrightarrow> distinct (map fst es)) \<and>
    (ok \<longrightarrow> length es \<le> cap) \<and> length es \<le> length (pre @ rest) \<and>
    (\<exists>E. ev' = ev @ E \<and> (\<forall>e \<in> set E. \<not> busy (fst e))) \<and>
    (pre = [] \<and> (\<forall>e \<in> set rest. \<not> busy (fst e)) \<longrightarrow> ok)"
  using assms
proof (induction busy cap ev pre rest rule: evict_loop.induct)
  case (1 busy cap ev pre rest)
  note run = 1(3) [unfolded evict_loop.simps [of busy cap ev pre rest]]
  show ?case
  proof (cases "length pre + length rest \<le> cap")
    case True
    with run show ?thesis by auto
  next
    case big: False
    show ?thesis
    proof (cases rest)
      case Nil
      with run big show ?thesis by auto
    next
      case (Cons e rest')
      show ?thesis
      proof (cases "busy (fst e)")
        case True
        with run big Cons have "evict_loop busy cap ev (pre @ [e]) rest' = (ok, ev', es)" by simp
        from 1(1) [OF big Cons True this] True Cons show ?thesis by auto
      next
        case False
        with run big Cons have "evict_loop busy cap (ev @ [e]) [] (pre @ rest') = (ok, ev', es)" by simp
        from 1(2) [OF big Cons False this] False Cons show ?thesis by auto
      qed
    qed
  qed
qed

lemma lru_evict_ok:
  assumes "lru_maybe_evict busy cap c = (r, c')"
  shows "set (lru_entries c') \<subseteq> set (lru_entries c) \<and> lru_capacity c' = lru_capacity c \<and>
    (distinct (map fst (lru_entries c)) \<longrightarrow> distinct (map fst (lru_entries c'))) \<and>
    length (lru_entries c') \<le> length (lru_entries c) \<and>
    (\<forall>ev. r = Inr ev \<longrightarrow> length (lru_entries c') \<le> cap \<and> (\<forall>e \<in> set ev. \<not> busy (fst e))) \<and>
    ((\<forall>k. \<not> busy k) \<longrightarrow> (\<exists>ev. r = Inr ev))"
proof -
  obtain ok ev es where l: "evict_loop busy cap [] [] (lru_entries c) = (ok, ev, es)" by (metis prod_cases3)
  with assms have "c' = c\<lparr>lru_entries := es\<rparr>"
    "r = (if ok then Inr ev else Inl (IOException ''all cache entries are in use, cannot evict one''))"
    by (auto simp: lru_maybe_evict_def)
  with evict_loop_ok [OF l] show ?thesis by auto
qed

lemma lru_do_fetch_ok:
  assumes "lru_do_fetch busy k fn c = (r, c')" and "lru_ok c"
  shows "lru_ok c' \<and> (\<forall>k' v'. (k', v') \<in> set (lru_entries c') \<longrightarrow>
      (k', v') \<in> set (lru_entries c) \<or> k' = k \<and> fn = Inr (Some v')) \<and>
    (map_of (lru_entries c) k = None \<longrightarrow>
      (\<forall>v. r = Inr v \<longrightarrow> fn = Inr v) \<and> ((\<forall>k. \<not> busy k) \<longrightarrow> r = fn))"
proof -
  consider (err) e where "fn = Inl e" | (null) "fn = Inr None" | (val) x where "fn = Inr (Some x)"
    by (metis not_Some_eq sum.exhaust)
  then show ?thesis
  proof cases
    case (val x)
    show ?thesis
    proof (cases "map_of (lru_entries c) k")
      case None
      obtain r1 c1 where e: "lru_maybe_evict busy (lru_capacity c - 1) c = (r1, c1)" by fastforce
      note ev = lru_evict_ok [OF e]
      have k: "k \<notin> fst ` set (lru_entries c)" using None by (simp add: map_of_eq_None_iff)
      show ?thesis
      proof (cases r1)
        case (Inl e1)
        with assms(1) val None e have "r = Inl e1" "c' = c1"
          by (auto simp: lru_do_fetch_def sbind_def sget_def slift_def)
        with ev Inl assms(2) show ?thesis by (auto simp: lru_ok_def)
      next
        case (Inr es)
        with assms(1) val None e have "r = Inr (Some x)" "c' = c1\<lparr>lru_entries := lru_entries c1 @ [(k, x)]\<rparr>"
          by (auto simp: lru_do_fetch_def sbind_def sget_def slift_def smod_def sret_def)
        with ev Inr assms(2) val k show ?thesis by (fastforce simp: lru_ok_def)
      qed
    next
      case (Some v)
      with assms val show ?thesis by (auto simp: lru_do_fetch_def sbind_def sget_def slift_def sret_def)
    qed
  qed (use assms in \<open>auto simp: lru_do_fetch_def sbind_def slift_def sret_def\<close>)
qed

lemma lru_find_ok:
  assumes "lru_find busy k fn c = (r, c')" and "lru_ok c"
  shows "lru_ok c' \<and> (\<forall>k' v'. (k', v') \<in> set (lru_entries c') \<longrightarrow>
      (k', v') \<in> set (lru_entries c) \<or> k' = k \<and> fn = Inr (Some v')) \<and>
    (case map_of (lru_entries c) k of
       Some v \<Rightarrow> r = Inr (Some v)
     | None \<Rightarrow> (\<forall>v. r = Inr v \<longrightarrow> fn = Inr v) \<and> ((\<forall>k. \<not> busy k) \<longrightarrow> r = fn))"
proof (cases "map_of (lru_entries c) k")
  case None
  let ?c = "c\<lparr>lru_misses := lru_misses c + 1\<rparr>"
  have "lru_do_fetch busy k fn ?c = (r, c')"
    using assms(1) None by (simp add: lru_find_def sbind_def sget_def smod_def)
  moreover have "lru_ok ?c" using assms(2) by (simp add: lru_ok_def)
  moreover have en: "lru_entries ?c = lru_entries c" by simp
  ultimately show ?thesis
    using lru_do_fetch_ok [of busy k fn ?c r c', unfolded en] None unfolding None option.case by blast
next
  case (Some v)
  then have "(k, v) \<in> set (lru_entries c)" by (rule map_of_SomeD)
  then have "length (filter (\<lambda>e. fst e \<noteq> k) (lru_entries c)) < length (lru_entries c)"
    by (intro length_filter_less [of "(k, v)"]) auto
  moreover have "r = Inr (Some v)"
    "c' = c\<lparr>lru_hits := lru_hits c + 1, lru_entries := filter (\<lambda>e. fst e \<noteq> k) (lru_entries c) @ [(k, v)]\<rparr>"
    using assms(1) Some by (auto simp: lru_find_def sbind_def sget_def smod_def sret_def)
  ultimately show ?thesis
    using assms(2) Some \<open>(k, v) \<in> set (lru_entries c)\<close> by (auto simp: lru_ok_def distinct_map_filter)
qed

lemma lru_erase_no_evict_eq:
  "lru_erase_no_evict k c =
     (Inr (map_of (lru_entries c) k \<noteq> None), c\<lparr>lru_entries := filter (\<lambda>e. fst e \<noteq> k) (lru_entries c)\<rparr>)"
  by (simp add: lru_erase_no_evict_def sbind_def sget_def smod_def sret_def)

lemma lru_filter_ok: "lru_ok c \<Longrightarrow> lru_ok (c\<lparr>lru_entries := filter P (lru_entries c)\<rparr>)"
  by (auto simp: lru_ok_def distinct_map_filter intro: le_trans [OF length_filter_le])

subsection \<open>Objects\<close>

lemma lo_put_fields [simp]: "lo_lru (lo_put ns n c s) = lo_lru s" "lo_root (lo_put ns n c s) = lo_root s"
  by (simp_all add: lo_put_def split: option.split)

lemma lo_drop_fields [simp]: "lo_lru (lo_drop ns n s) = lo_lru s" "lo_root (lo_drop ns n s) = lo_root s"
  by (simp_all add: lo_drop_def split: option.split)

lemma lo_object_put:
  "lo_object (lo_put ns n c s) ns' n' =
     (if ns' = ns \<and> n' = n \<and> map_of (lo_dirs s) ns \<noteq> None then Some c else lo_object s ns' n')"
  by (auto simp: lo_object_def lo_put_def update_conv' split: option.split)

lemma lo_object_drop:
  "lo_object (lo_drop ns n s) ns' n' = (if ns' = ns \<and> n' = n then None else lo_object s ns' n')"
  by (auto simp: lo_object_def lo_drop_def update_conv' delete_conv' split: option.split)

lemma lo_dirs_put: "map_of (lo_dirs (lo_put ns n c s)) ns' = None \<longleftrightarrow> map_of (lo_dirs s) ns' = None"
  by (auto simp: lo_put_def update_conv' split: option.split)

lemma lo_dirs_drop: "map_of (lo_dirs (lo_drop ns n s)) ns' = None \<longleftrightarrow> map_of (lo_dirs s) ns' = None"
  by (auto simp: lo_drop_def update_conv' split: option.split)

lemma lo_object_lru [simp]: "lo_object (s\<lparr>lo_lru := c\<rparr>) = lo_object s"
  by (simp add: fun_eq_iff lo_object_def)

subsection \<open>The open files are those of the objects\<close>

definition lo_ok :: "local_store \<Rightarrow> bool" where
  "lo_ok s \<longleftrightarrow> lru_ok (lo_lru s) \<and>
     (\<forall>ns n c. ((ns, n), c) \<in> set (lru_entries (lo_lru s)) \<longrightarrow> lo_object s ns n = Some c)"

text \<open>\<open>mkstemp\<close> never gives the name of a file that exists.\<close>

definition mkstemp_ok :: "local_env \<Rightarrow> bool" where
  "mkstemp_ok env \<longleftrightarrow> (\<forall>d n. map_of d (le_mkstemp env d n) = None)"

lemma on_lru_erase:
  "on_lru (lru_erase_no_evict k) s = (Inr (map_of (lru_entries (lo_lru s)) k \<noteq> None),
     s\<lparr>lo_lru := (lo_lru s)\<lparr>lru_entries := filter (\<lambda>e. fst e \<noteq> k) (lru_entries (lo_lru s))\<rparr>\<rparr>)"
  by (simp add: on_lru_def szoom_def lru_erase_no_evict_eq)

lemma lo_ok_put_erase:
  assumes "lo_ok s"
  shows "lo_ok (lo_put ns n c s\<lparr>lo_lru := (lo_lru s)\<lparr>lru_entries := filter (\<lambda>e. fst e \<noteq> (ns, n)) (lru_entries (lo_lru s))\<rparr>\<rparr>)"
  using assms by (auto simp: lo_ok_def lo_object_put lru_filter_ok)

lemma lo_ok_put_new:
  assumes "lo_ok s" and "lo_object s ns n = None"
  shows "lo_ok (lo_put ns n c s)"
  using assms by (auto simp: lo_ok_def lo_object_put)

lemma lo_ok_drop_erase:
  assumes "lo_ok s"
  shows "lo_ok (lo_drop ns n s\<lparr>lo_lru := (lo_lru s)\<lparr>lru_entries := filter (\<lambda>e. fst e \<noteq> (ns, n)) (lru_entries (lo_lru s))\<rparr>\<rparr>)"
  using assms by (auto simp: lo_ok_def lo_object_drop lru_filter_ok)

text \<open>The queries leave the store alone.\<close>

lemma paths_state [simp]:
  "snd (nspacePath s) = s" "snd (objectPath s) = s" "snd (checkedObjectPath ns n s) = s"
  "snd (lc_namespaceExists ns s) = s" "snd (lc_verify_tag env ns cond s) = s" "snd (lc_read ns n s) = s"
  "snd (lc_objectExists ns n s) = s" "snd (lc_get_tag env ns n s) = s"
  by (auto simp: nspacePath_def objectPath_def checkedObjectPath_def lc_namespaceExists_def lc_verify_tag_def
      lc_read_def lc_objectExists_def lc_get_tag_def sbind_def sget_def sret_def sthrow_def
      split: option.split)

lemmas sm_defs = sbind_def sget_def smod_def sret_def sthrow_def slift_def sverify_def

lemma objectPath_cases: "objectPath s = (if lo_root s then Inr () else Inl (BackendException Backend), s)"
  by (simp add: objectPath_def sm_defs)

lemma nspacePath_cases: "nspacePath s = (if lo_root s then Inr () else Inl (BackendException Backend), s)"
  by (simp add: nspacePath_def sm_defs)

lemma lc_copy_ok:
  assumes "lo_ok s" and "mkstemp_ok env"
  shows "lo_ok (snd (lc_copy env ns src name ow cond s))"
proof -
  obtain r where v: "lc_verify_tag env ns cond s = (r, s)" using paths_state(5) by (metis prod.collapse)
  have t: "lo_object s ns (le_mkstemp env d name) = None" if "map_of (lo_dirs s) ns = Some d" for d
    using that assms(2) by (simp add: lo_object_def mkstemp_ok_def)
  show ?thesis
    using assms(1) v t lo_ok_put_new [OF assms(1)] lo_ok_put_erase [OF assms(1)]
    by (auto simp: lc_copy_def sbind_def sget_def smod_def sret_def sthrow_def objectPath_cases on_lru_erase
        split: sum.split option.split)
qed

lemma lc_write_ok:
  assumes "lo_ok s" and "mkstemp_ok env"
  shows "lo_ok (snd (lc_write env ns src name ow cs cond s))"
  using assms lc_copy_ok [OF assms]
  by (auto simp: lc_write_def sbind_def sret_def sthrow_def split: option.split)

lemma lc_write_tag_ok:
  assumes "lo_ok s" and "mkstemp_ok env"
  shows "lo_ok (snd (lc_write_tag env ns src name prev ow s))"
proof -
  obtain r s' where c: "lc_copy env ns src name ow (map_option (\<lambda>tag. (name, tag)) prev) s = (r, s')" by fastforce
  with lc_copy_ok [OF assms] have "lo_ok s'" by (metis snd_conv)
  with c assms show ?thesis
    by (auto simp: lc_write_tag_def sbind_def sverify_def verify_def split: sum.split)
qed

lemma lc_remove_ok:
  assumes "lo_ok s"
  shows "lo_ok (snd (lc_remove env ns name may cond s))"
proof -
  obtain r where v: "lc_verify_tag env ns cond s = (r, s)" using paths_state(5) by (metis prod.collapse)
  obtain q where e: "lc_namespaceExists ns s = (q, s)" using paths_state(4) by (metis prod.collapse)
  show ?thesis
    using assms v e lo_ok_drop_erase [OF assms]
    by (auto simp: lc_remove_def sbind_def sget_def smod_def sret_def sthrow_def objectPath_cases on_lru_erase
        split: sum.split)
qed

lemma lc_createNamespace_ok:
  assumes "lo_ok s"
  shows "lo_ok (snd (lc_createNamespace ns must s))"
proof -
  have "lo_ok (s\<lparr>lo_dirs := AList.update ns [] (lo_dirs s)\<rparr>)" if "map_of (lo_dirs s) ns = None"
    using assms that by (fastforce simp: lo_ok_def lo_object_def update_conv')
  with assms show ?thesis
    by (auto simp: lc_createNamespace_def sbind_def sget_def smod_def sret_def sthrow_def nspacePath_cases)
qed

text \<open>Closing the files of a namespace.\<close>

lemma erase_namespace_loop:
  "sfor keys (\<lambda>key. if fst key = ns then sbind (on_lru (lru_erase_no_evict key)) (\<lambda>_. sret ()) else sret ()) s =
     (Inr (), s\<lparr>lo_lru := (lo_lru s)\<lparr>lru_entries :=
        filter (\<lambda>e. fst e \<notin> set (filter (\<lambda>k. fst k = ns) keys)) (lru_entries (lo_lru s))\<rparr>\<rparr>)"
  by (induction keys arbitrary: s) (auto simp: sbind_def sret_def on_lru_erase intro: filter_cong)

lemma lc_deleteNamespace_ok:
  assumes "lo_ok s"
  shows "lo_ok (snd (lc_deleteNamespace ns s))"
proof -
  let ?s = "s\<lparr>lo_dirs := AList.delete ns (lo_dirs s),
    lo_lru := (lo_lru s)\<lparr>lru_entries := filter (\<lambda>e. fst (fst e) \<noteq> ns) (lru_entries (lo_lru s))\<rparr>\<rparr>"
  have "lo_ok ?s" using assms by (auto simp: lo_ok_def lo_object_def delete_conv' lru_filter_ok)
  moreover have "filter (\<lambda>e. fst e \<notin> set (filter (\<lambda>k. fst k = ns) (lru_keys (lo_lru s)))) (lru_entries (lo_lru s)) =
      filter (\<lambda>e. fst (fst e) \<noteq> ns) (lru_entries (lo_lru s))"
    by (rule filter_cong) (auto simp: lru_keys_def)
  ultimately show ?thesis
    using assms by (simp add: lc_deleteNamespace_def sbind_def sget_def smod_def sthrow_def nspacePath_cases
        erase_namespace_loop)
qed

text \<open>What partial reads would give without the cache.\<close>

definition direct_reads :: "local_store \<Rightarrow> string \<Rightarrow> (string \<times> (nat \<times> nat) list) list \<Rightarrow> u8 list list result" where
  "direct_reads s ns = fallback_loop (\<lambda>name. case lo_object s ns name of
     None \<Rightarrow> Inl (IOException ''FileDescriptor'') | Some c \<Rightarrow> Inr c)"

lemma partial_find_ok:
  assumes "lo_ok s" and "opened = (case lo_object s ns name of None \<Rightarrow> Inl (IOException ''FileDescriptor'') | Some c \<Rightarrow> Inr (Some c))"
    and "on_lru (lru_find busy (ns, name) opened) s = (r, s')"
  shows "lo_ok s' \<and> lo_object s' = lo_object s \<and> lo_dirs s' = lo_dirs s \<and> lo_root s' = lo_root s \<and>
    (\<forall>v. r = Inr v \<longrightarrow> v = lo_object s ns name \<and> v \<noteq> None) \<and>
    ((\<forall>k. \<not> busy k) \<longrightarrow> r = opened)"
proof -
  obtain c where f: "lru_find busy (ns, name) opened (lo_lru s) = (r, c)" and s': "s' = s\<lparr>lo_lru := c\<rparr>"
    using assms(3) by (auto simp: on_lru_def)
  have l: "lru_ok (lo_lru s)" using assms(1) by (simp add: lo_ok_def)
  note fo = lru_find_ok [OF f l]
  have "lo_object s ns' n = Some x" if "((ns', n), x) \<in> set (lru_entries c)" for ns' n x
  proof -
    from fo that have "((ns', n), x) \<in> set (lru_entries (lo_lru s)) \<or> (ns', n) = (ns, name) \<and> opened = Inr (Some x)"
      by blast
    with assms(1,2) show ?thesis by (auto simp: lo_ok_def split: option.splits)
  qed
  with conjunct1 [OF fo] have "lo_ok s'" by (simp add: s' lo_ok_def)
  moreover have "(\<forall>v. r = Inr v \<longrightarrow> v = lo_object s ns name \<and> v \<noteq> None) \<and> ((\<forall>k. \<not> busy k) \<longrightarrow> r = opened)"
  proof (cases "map_of (lru_entries (lo_lru s)) (ns, name)")
    case None
    have "\<forall>v. r = Inr v \<longrightarrow> opened = Inr v" "(\<forall>k. \<not> busy k) \<longrightarrow> r = opened"
      using fo [unfolded None option.case] by blast+
    moreover have "v = lo_object s ns name \<and> v \<noteq> None" if "opened = Inr v" for v
      using that assms(2) by (cases "lo_object s ns name") auto
    ultimately show ?thesis by blast
  next
    case (Some v)
    then have "((ns, name), v) \<in> set (lru_entries (lo_lru s))" by (rule map_of_SomeD)
    with assms(1) have "lo_object s ns name = Some v" by (simp add: lo_ok_def)
    with fo [unfolded Some option.case] assms(2) show ?thesis by simp
  qed
  ultimately show ?thesis by (simp add: s')
qed

lemma partial_read_loop_ok:
  assumes "lo_ok s" and "lo_root s" and "partial_read_loop env ns reads s = (r, s')"
  shows "lo_ok s' \<and> lo_object s' = lo_object s \<and> lo_dirs s' = lo_dirs s \<and> lo_root s' \<and>
    (\<forall>bs. r = Inr bs \<longrightarrow> direct_reads s ns reads = Inr bs) \<and>
    ((\<forall>k. \<not> le_busy env k) \<longrightarrow> r = direct_reads s ns reads)"
  using assms
proof (induction env ns reads arbitrary: s s' r rule: partial_read_loop.induct)
  case (1 env ns)
  then show ?case by (auto simp: direct_reads_def sret_def)
next
  case (2 env ns name slices reads)
  define opened where "opened = (case lo_object s ns name of None \<Rightarrow> Inl (IOException ''FileDescriptor'') | Some c \<Rightarrow> Inr (Some c))"
  obtain r1 s1 where f: "on_lru (lru_find (le_busy env) (ns, name) opened) s = (r1, s1)" by fastforce
  note fo = partial_find_ok [OF 2(2) opened_def f]
  have run: "(r, s') = (case r1 of Inl e \<Rightarrow> (Inl e, s1) | Inr sio \<Rightarrow> (case sio of None \<Rightarrow> sthrow UndefinedBehaviour
      | Some c \<Rightarrow> sbind (slift (read_slices c slices)) (\<lambda>bs.
          sbind (partial_read_loop env ns reads) (\<lambda>bss. sret (bs @ bss)))) s1)"
    using 2(3,4) f by (cases r1) (simp_all add: sbind_def objectPath_cases sget_def flip: opened_def)
  show ?case
  proof (cases r1)
    case (Inl e)
    with run have r: "r = Inl e" "s' = s1" by simp_all
    have "direct_reads s ns ((name, slices) # reads) = Inl e" if "\<forall>k. \<not> le_busy env k"
      using fo Inl that opened_def by (auto simp: direct_reads_def split: option.splits)
    with r fo 2(3) show ?thesis by simp
  next
    case (Inr v)
    with fo obtain c where c: "v = Some c" "lo_object s ns name = Some c" by auto
    show ?thesis
    proof (cases "read_slices c slices")
      case Inl': (Inl e)
      with run Inr c have r: "r = Inl e" "s' = s1" by (simp_all add: sbind_def slift_def)
      have "direct_reads s ns ((name, slices) # reads) = Inl e" using c Inl' by (simp add: direct_reads_def)
      with r fo 2(3) show ?thesis by simp
    next
      case bs: (Inr bs)
      obtain r2 s2 where l: "partial_read_loop env ns reads s1 = (r2, s2)" by fastforce
      have eq: "direct_reads s1 ns reads = direct_reads s ns reads" using fo by (simp add: direct_reads_def)
      have o1: "lo_ok s1" "lo_root s1" using fo 2(3) by simp_all
      note ih = 2(1) [OF o1 l, unfolded eq]
      have d: "direct_reads s ns ((name, slices) # reads) = rbind (direct_reads s ns reads) (\<lambda>bss. Inr (bs @ bss))"
        using c bs by (simp add: direct_reads_def)
      have r: "r = rbind r2 (\<lambda>bss. Inr (bs @ bss)) \<and> s' = s2"
        using run Inr c bs l by (cases r2) (simp_all add: sbind_def slift_def sret_def)
      have a: "direct_reads s ns ((name, slices) # reads) = Inr b" if "r = Inr b" for b
      proof -
        from that r obtain x where "r2 = Inr x" "b = bs @ x" by auto
        moreover from this ih have "direct_reads s ns reads = Inr x" by blast
        ultimately show ?thesis unfolding d by simp
      qed
      have b: "r = direct_reads s ns ((name, slices) # reads)" if "\<forall>k. \<not> le_busy env k"
        unfolding d using r ih that by blast
      have st: "lo_ok s' \<and> lo_object s' = lo_object s \<and> lo_dirs s' = lo_dirs s \<and> lo_root s'"
        using r ih fo by metis
      from a b st show ?thesis by blast
    qed
  qed
qed

subsection \<open>Any history of operations\<close>

datatype store_op =
    OpCreateNamespace string bool
  | OpDeleteNamespace string
  | OpClearNamespace string
  | OpWrite string "u8 list option" string bool "checksum option" "(string \<times> object_tag) option"
  | OpWriteTag string "u8 list option" string "object_tag option" bool
  | OpRemove string string bool "(string \<times> object_tag) option"
  | OpPartialRead string "(string \<times> (nat \<times> nat) list) list"

fun store_exec :: "local_env \<Rightarrow> store_op \<Rightarrow> local_store \<Rightarrow> local_store" where
  "store_exec env (OpCreateNamespace ns must) s = snd (lc_createNamespace ns must s)"
| "store_exec env (OpDeleteNamespace ns) s = snd (lc_deleteNamespace ns s)"
| "store_exec env (OpClearNamespace ns) s = snd (ci_clearNamespace ns s)"
| "store_exec env (OpWrite ns src name ow cs cond) s = snd (lc_write env ns src name ow cs cond s)"
| "store_exec env (OpWriteTag ns src name tag ow) s = snd (ci_write_tag env ns src name tag ow s)"
| "store_exec env (OpRemove ns name may cond) s = snd (lc_remove env ns name may cond s)"
| "store_exec env (OpPartialRead ns reads) s = snd (lc_partial_read env ns reads s)"

lemma store_exec_ok:
  assumes "lo_ok s" and "lo_root s" and "mkstemp_ok env"
  shows "lo_ok (store_exec env op s)"
proof (cases op)
  case (OpClearNamespace ns)
  obtain r s1 where d: "lc_deleteNamespace ns s = (r, s1)" by fastforce
  then have "lo_ok s1" using lc_deleteNamespace_ok [OF assms(1), of ns] by simp
  with d OpClearNamespace lc_createNamespace_ok show ?thesis
    by (auto simp: ci_clearNamespace_def sbind_def split: sum.split)
next
  case (OpWriteTag ns src name tag ow)
  with assms lc_write_tag_ok show ?thesis
    by (auto simp: ci_write_tag_def sbind_def sverify_def verify_def)
next
  case (OpPartialRead ns reads)
  obtain r s1 where d: "partial_read_loop env ns reads s = (r, s1)" by fastforce
  with OpPartialRead partial_read_loop_ok [OF assms(1,2) d] assms(1) show ?thesis
    by (auto simp: lc_partial_read_def sbind_def sret_def split: sum.split)
qed (use assms lc_createNamespace_ok lc_deleteNamespace_ok lc_write_ok lc_remove_ok in simp_all)

text \<open>No operation removes the root directory.\<close>

lemma lc_copy_root [simp]: "lo_root (snd (lc_copy env ns src name ow cond s)) = lo_root s"
proof -
  obtain r where "lc_verify_tag env ns cond s = (r, s)" using paths_state(5) by (metis prod.collapse)
  then show ?thesis
    by (auto simp: lc_copy_def sbind_def sget_def smod_def sret_def sthrow_def objectPath_cases on_lru_erase
        split: sum.split option.split)
qed

lemma lc_write_tag_root [simp]: "lo_root (snd (lc_write_tag env ns src name prev ow s)) = lo_root s"
proof -
  obtain r s' where c: "lc_copy env ns src name ow (map_option (\<lambda>tag. (name, tag)) prev) s = (r, s')" by fastforce
  with lc_copy_root [of env ns src name ow "map_option (\<lambda>tag. (name, tag)) prev" s] have "lo_root s' = lo_root s" by simp
  with c show ?thesis by (auto simp: lc_write_tag_def sbind_def sverify_def verify_def split: sum.split)
qed

lemma lc_remove_root [simp]: "lo_root (snd (lc_remove env ns name may cond s)) = lo_root s"
proof -
  obtain r where v: "lc_verify_tag env ns cond s = (r, s)" using paths_state(5) by (metis prod.collapse)
  obtain q where e: "lc_namespaceExists ns s = (q, s)" using paths_state(4) by (metis prod.collapse)
  from v e show ?thesis
    by (auto simp: lc_remove_def sbind_def sget_def smod_def sret_def sthrow_def objectPath_cases on_lru_erase
        split: sum.split)
qed

lemma lc_namespaces_root [simp]:
  "lo_root (snd (lc_createNamespace ns must s)) = lo_root s" "lo_root (snd (lc_deleteNamespace ns s)) = lo_root s"
  by (auto simp: lc_createNamespace_def lc_deleteNamespace_def sbind_def sget_def smod_def sret_def sthrow_def
      nspacePath_cases erase_namespace_loop)

lemma store_exec_root:
  assumes "lo_ok s" and "lo_root s"
  shows "lo_root (store_exec env op s)"
proof (cases op)
  case (OpClearNamespace ns)
  obtain r s1 where d: "lc_deleteNamespace ns s = (r, s1)" by fastforce
  then have "lo_root s1" using lc_namespaces_root(2) [of ns s] assms(2) by simp
  with d OpClearNamespace show ?thesis by (auto simp: ci_clearNamespace_def sbind_def split: sum.split)
next
  case (OpPartialRead ns reads)
  obtain r s1 where d: "partial_read_loop env ns reads s = (r, s1)" by fastforce
  with OpPartialRead partial_read_loop_ok [OF assms d] assms(2) show ?thesis
    by (auto simp: lc_partial_read_def sbind_def sret_def split: sum.split)
qed (use assms in \<open>auto simp: lc_write_def ci_write_tag_def sbind_def sret_def sthrow_def sverify_def verify_def
    split: option.split\<close>)

lemma store_history:
  assumes "lo_ok s" and "lo_root s" and "mkstemp_ok env"
  shows "lo_ok (fold (store_exec env) ops s) \<and> lo_root (fold (store_exec env) ops s)"
  using assms
  by (induction ops arbitrary: s) (auto simp: store_exec_ok store_exec_root)

text \<open>
  C37. Whatever was done to the store before, errors included, a partial read through the cache of open
  files gives what reading the objects would give, with the same error if there is one. The cache never
  has more files than its capacity.
\<close>

theorem partial_reads_see_objects:
  assumes "LRUCache_new h m cap = Inr c" and "mkstemp_ok env" and "\<forall>k. \<not> le_busy env k" and "le_partial_read env"
    and "s = fold (store_exec env) ops \<lparr>lo_root = True, lo_dirs = dirs, lo_lru = c\<rparr>"
  shows "fst (lc_partial_read env ns reads s) = rbind (direct_reads s ns reads) (\<lambda>bs. Inr (Some bs)) \<and>
    lo_object (snd (lc_partial_read env ns reads s)) = lo_object s \<and>
    length (lru_entries (lo_lru s)) \<le> lru_capacity (lo_lru s)"
proof -
  have "lo_ok \<lparr>lo_root = True, lo_dirs = dirs, lo_lru = c\<rparr>"
    using assms(1) by (auto simp: LRUCache_new_def lo_ok_def lru_ok_def split: if_splits)
  from store_history [OF this _ assms(2)] have ok: "lo_ok s" "lo_root s" by (simp_all add: assms(5))
  obtain r s' where l: "partial_read_loop env ns reads s = (r, s')" by fastforce
  then have run: "lc_partial_read env ns reads s = (rbind r (\<lambda>bs. Inr (Some bs)), s')"
    using assms(4) by (cases r) (simp_all add: lc_partial_read_def sbind_def sret_def)
  have "r = direct_reads s ns reads" "lo_object s' = lo_object s"
    using partial_read_loop_ok [OF ok l] assms(3) by blast+
  with run ok show ?thesis by (simp add: lo_ok_def lru_ok_def)
qed

definition ex_mkstemp :: "object_dir \<Rightarrow> string \<Rightarrow> string" where
  "ex_mkstemp d n = n @ concat (map fst d) @ ''X''"

lemma ex_mkstemp_fresh: "map_of d (ex_mkstemp d n) = None"
proof -
  have "length x \<le> length (concat xs)" if "x \<in> set xs" for x :: string and xs
    using that by (induction xs) auto
  from this [of _ "map fst d"] have "length x < length (ex_mkstemp d n)" if "x \<in> fst ` set d" for x
    using that by (fastforce simp: ex_mkstemp_def less_Suc_eq_le)
  then show ?thesis by (auto simp: map_of_eq_None_iff)
qed

definition ex_local_env :: local_env where
  "ex_local_env = \<lparr>le_tlog = \<lparr>te_hash = True, te_hw = False, te_addr = 0\<rparr>, le_page = 4096,
     le_md5 = (\<lambda>c. of_nat (length c)), le_mkstemp = ex_mkstemp, le_partial_read = True, le_busy = (\<lambda>_. False)\<rparr>"

definition ex_store_ops :: "store_op list" where
  "ex_store_ops = [OpCreateNamespace ''n'' True, OpWrite ''n'' (Some [1, 2, 3]) ''o'' False None None,
     OpPartialRead ''n'' [(''o'', [(2, 0)])], OpWrite ''n'' (Some [4, 5, 6]) ''o'' True None None]"

text \<open>The object is replaced after its file was opened, and the read still sees the new content.\<close>

theorem partial_reads_see_objects_witness:
  "\<exists>c. LRUCache_new 0 0 32 = Inr c \<and>
    fst (lc_partial_read ex_local_env ''n'' [(''o'', [(2, 1)])]
      (fold (store_exec ex_local_env) ex_store_ops \<lparr>lo_root = True, lo_dirs = [], lo_lru = c\<rparr>)) = Inr (Some [[5, 6]])"
proof -
  let ?c = "\<lparr>lru_entries = [], lru_capacity = 32, lru_hits = 0, lru_misses = 0\<rparr> :: (string \<times> string, u8 list) lru_cache"
  let ?s = "fold (store_exec ex_local_env) ex_store_ops \<lparr>lo_root = True, lo_dirs = [], lo_lru = ?c\<rparr>"
  have c: "LRUCache_new 0 0 32 = Inr ?c" by (simp add: LRUCache_new_def)
  have "mkstemp_ok ex_local_env" by (simp add: mkstemp_ok_def ex_local_env_def ex_mkstemp_fresh)
  from partial_reads_see_objects [where ops = ex_store_ops and dirs = "[]" and ns = "''n''" and
      reads = "[(''o'', [(2, 1)])]", OF c this _ _ refl]
  have "fst (lc_partial_read ex_local_env ''n'' [(''o'', [(2, 1)])] ?s) =
      rbind (direct_reads ?s ''n'' [(''o'', [(2, 1)])]) (\<lambda>bs. Inr (Some bs))"
    by (simp add: ex_local_env_def)
  moreover have "direct_reads ?s ''n'' [(''o'', [(2, 1)])] = Inr [[5, 6]]" by code_simp
  ultimately show ?thesis using c by (intro exI [of _ ?c]) simp
qed

end
