(* ===== verification/Backend_Interface.thy ===== *)
theory Backend_Interface
  imports Local_Backend
begin

text \<open>
  How the program talks to an object store: pools of connections (src/src/backend/ConnectionPool.cpp), the
  choice of a pool (NamespacePoolSelector.cpp, RoundRobinPoolSelector.cpp, BackendConnectionManager.h), and
  the requests with their retries (BackendInterface.cpp). The connections themselves are a parameter, the
  record \<open>conn_api\<close>; the local connection of the theory before is one of them.

  The clock and the random numbers are parameters too: functions of how often they were asked so far. Waiting
  between two attempts and the log have no effect here.
\<close>

subsection \<open>Connections\<close>

record ('b, 'c) conn_api =
  ca_make :: "('b, 'c) sm"
  ca_healthy :: "'c \<Rightarrow> bool"
  ca_read :: "'c \<Rightarrow> string \<Rightarrow> string \<Rightarrow> bool \<Rightarrow> ('b, u8 list) sm"
  ca_write :: "'c \<Rightarrow> string \<Rightarrow> u8 list option \<Rightarrow> string \<Rightarrow> bool \<Rightarrow> checksum option \<Rightarrow>
     (string \<times> object_tag) option \<Rightarrow> ('b, unit) sm"
  ca_objectExists :: "'c \<Rightarrow> string \<Rightarrow> string \<Rightarrow> ('b, bool) sm"
  ca_remove :: "'c \<Rightarrow> string \<Rightarrow> string \<Rightarrow> bool \<Rightarrow> (string \<times> object_tag) option \<Rightarrow> ('b, unit) sm"
  ca_getCheckSum :: "'c \<Rightarrow> string \<Rightarrow> string \<Rightarrow> ('b, checksum) sm"
  ca_getSize :: "'c \<Rightarrow> string \<Rightarrow> string \<Rightarrow> ('b, u64) sm"
  ca_namespaceExists :: "'c \<Rightarrow> string \<Rightarrow> ('b, bool) sm"
  ca_createNamespace :: "'c \<Rightarrow> string \<Rightarrow> bool \<Rightarrow> ('b, unit) sm"
  ca_deleteNamespace :: "'c \<Rightarrow> string \<Rightarrow> ('b, unit) sm"
  ca_clearNamespace :: "'c \<Rightarrow> string \<Rightarrow> ('b, unit) sm"
  ca_listObjects :: "'c \<Rightarrow> string \<Rightarrow> ('b, string list) sm"
  ca_partial_read :: "'c \<Rightarrow> string \<Rightarrow> (string \<times> (nat \<times> nat) list) list \<Rightarrow> bool \<Rightarrow>
     (string \<Rightarrow> u8 list result) \<Rightarrow> ('b, u8 list list) sm"

record 'c conn_pool =
  cp_connections :: "'c list"
  cp_capacity :: nat
  cp_gets_new :: u64
  cp_gets_from_pool :: u64
  cp_puts_delete :: u64
  cp_puts_to_pool :: u64
  cp_blacklisted_until :: int

text \<open>The store behind the connections, the pools, and the counters.\<close>

record ('b, 'c) bi_state =
  bi_store :: 'b
  bi_pools :: "'c conn_pool list"
  bi_next_pool :: u64
  bi_clock :: nat
  bi_retry_counter :: u64

datatype pool_policy = OnError | RoundRobin

record ('b, 'c) bi_env =
  be_conn :: "('b, 'c) conn_api"
  be_now :: "nat \<Rightarrow> int"
  be_random :: "nat \<Rightarrow> nat \<Rightarrow> nat"
  be_hash :: "string \<Rightarrow> nat"
  be_blacklist_secs :: int
  be_retries_on_error :: nat
  be_policy :: pool_policy
  be_partial_read_policy :: pool_policy
  be_switch_on_backend_error :: bool
  be_switch_on_timeout :: bool
  be_strict_consistency :: bool
  be_partial_read_nullio :: bool

definition clock_now :: "('b, 'c) bi_env \<Rightarrow> (('b, 'c) bi_state, int) sm" where
  "clock_now env s = (Inr (be_now env (bi_clock s)), s\<lparr>bi_clock := bi_clock s + 1\<rparr>)"

text \<open>A number from 0 to \<open>bound\<close>.\<close>

definition random_idx :: "('b, 'c) bi_env \<Rightarrow> nat \<Rightarrow> (('b, 'c) bi_state, nat) sm" where
  "random_idx env bound s = (Inr (be_random env (bi_clock s) bound), s\<lparr>bi_clock := bi_clock s + 1\<rparr>)"

definition on_pool :: "nat \<Rightarrow> ('c conn_pool \<Rightarrow> 'c conn_pool) \<Rightarrow> (('b, 'c) bi_state, unit) sm" where
  "on_pool i f = smod (\<lambda>s. s\<lparr>bi_pools := (bi_pools s)[i := f (bi_pools s ! i)]\<rparr>)"

definition on_store :: "('b, 'a) sm \<Rightarrow> (('b, 'c) bi_state, 'a) sm" where
  "on_store m = szoom bi_store (\<lambda>b s. s\<lparr>bi_store := b\<rparr>) m"

subsection \<open>A pool\<close>

definition ConnectionPool_new :: "nat \<Rightarrow> int \<Rightarrow> 'c conn_pool" where
  "ConnectionPool_new capacity time_min =
     \<lparr>cp_connections = [], cp_capacity = capacity, cp_gets_new = 0, cp_gets_from_pool = 0, cp_puts_delete = 0,
      cp_puts_to_pool = 0, cp_blacklisted_until = time_min\<rparr>"

definition pool_error :: "('b, 'c) bi_env \<Rightarrow> nat \<Rightarrow> (('b, 'c) bi_state, unit) sm" where
  "pool_error env i =
     sbind (clock_now env) (\<lambda>now.
       on_pool i (\<lambda>p. p\<lparr>cp_blacklisted_until := now + be_blacklist_secs env, cp_connections := []\<rparr>))"

definition pool_blacklisted :: "('b, 'c) bi_env \<Rightarrow> nat \<Rightarrow> (('b, 'c) bi_state, bool) sm" where
  "pool_blacklisted env i =
     sbind (clock_now env) (\<lambda>now. sget (\<lambda>s. now \<le> cp_blacklisted_until (bi_pools s ! i)))"

definition pool_make_one :: "('b, 'c) bi_env \<Rightarrow> nat \<Rightarrow> (('b, 'c) bi_state, 'c) sm" where
  "pool_make_one env i =
     scatch (on_store (ca_make (be_conn env))) (\<lambda>e. sbind (pool_error env i) (\<lambda>_. sthrow e))"

definition pool_release_connection :: "('b, 'c) bi_env \<Rightarrow> nat \<Rightarrow> 'c \<Rightarrow> (('b, 'c) bi_state, unit) sm" where
  "pool_release_connection env i conn =
     on_pool i (\<lambda>p. if ca_healthy (be_conn env) conn \<and> length (cp_connections p) < cp_capacity p
       then p\<lparr>cp_puts_to_pool := cp_puts_to_pool p + 1, cp_connections := conn # cp_connections p\<rparr>
       else p\<lparr>cp_puts_delete := cp_puts_delete p + 1\<rparr>)"

definition pool_get_connection :: "('b, 'c) bi_env \<Rightarrow> nat \<Rightarrow> bool \<Rightarrow> (('b, 'c) bi_state, 'c) sm" where
  "pool_get_connection env i force_new =
     sbind (if force_new then sret None
            else sbind (sget (\<lambda>s. cp_connections (bi_pools s ! i))) (\<lambda>conns.
                 sbind (on_pool i (\<lambda>p. p\<lparr>cp_gets_from_pool := cp_gets_from_pool p + 1, cp_connections := tl conns\<rparr>))
                   (\<lambda>_. sret (case conns of [] \<Rightarrow> None | c # _ \<Rightarrow> Some c)))) (\<lambda>popped.
     case popped of
       Some c \<Rightarrow> sret c
     | None \<Rightarrow>
         sbind (pool_make_one env i) (\<lambda>c.
         sbind (on_pool i (\<lambda>p. p\<lparr>cp_gets_new := cp_gets_new p + 1\<rparr>)) (\<lambda>_. sret c)))"

text \<open>
  Changing the capacity. The connections that are kept are moved one by one to the front of another list, so
  their order is reversed; the others are closed.
\<close>

definition pool_set_capacity :: "nat \<Rightarrow> 'c conn_pool \<Rightarrow> 'c conn_pool" where
  "pool_set_capacity cap p =
     (if length (cp_connections p) > cap
      then p\<lparr>cp_capacity := cap, cp_connections := rev (take cap (cp_connections p))\<rparr>
      else p\<lparr>cp_capacity := cap\<rparr>)"

subsection \<open>Choosing a pool\<close>

text \<open>The selectors; \<open>FixedSel\<close> is the \<^verbatim>\<open>FixedPoolSelector\<close> of BackendInterface.cpp.\<close>

datatype selector =
    NamespaceSel (ns_idx: nat) (ns_last_idx: nat) (ns_start_from_last: bool)
  | RoundRobinSel (rr_pool: "nat option")
  | FixedSel (fixed_pool: nat)

definition NamespacePoolSelector_new :: "('b, 'c) bi_env \<Rightarrow> string \<Rightarrow> nat \<Rightarrow> selector" where
  "NamespacePoolSelector_new env nspace n = (let idx = be_hash env nspace mod n in NamespaceSel idx idx False)"

text \<open>
  The loop of \<^verbatim>\<open>NamespacePoolSelector::pool\<close> over \<open>n\<close> pools, that starts at \<open>idx\<close> and stands at \<open>i\<close>. The number
  of rounds that are left is given; the theorems show that \<open>n\<close> rounds are enough.
\<close>

fun ns_pool_loop :: "('b, 'c) bi_env \<Rightarrow> nat \<Rightarrow> nat \<Rightarrow> nat \<Rightarrow> nat \<Rightarrow> (('b, 'c) bi_state, nat) sm" where
  "ns_pool_loop env n idx 0 i = sthrow UndefinedBehaviour"
| "ns_pool_loop env n idx (Suc k) i =
     sbind (pool_blacklisted env i) (\<lambda>black.
     if \<not> black then sret i
     else let i' = (if i + 1 = n then 0 else i + 1)
          in if i' = idx then random_idx env (n - 1) else ns_pool_loop env n idx k i')"

definition round_robin_select :: "(('b, 'c) bi_state, nat) sm" where
  "round_robin_select =
     sbind (sget bi_next_pool) (\<lambda>n.
     sbind (smod (\<lambda>s. s\<lparr>bi_next_pool := n + 1\<rparr>)) (\<lambda>_.
       sget (\<lambda>s. unat n mod length (bi_pools s))))"

text \<open>The loop of \<^verbatim>\<open>RoundRobinPoolSelector::pool\<close>: the pool it ended with and the one it looked at last.\<close>

fun rr_pool_loop :: "('b, 'c) bi_env \<Rightarrow> nat \<Rightarrow> nat \<Rightarrow> nat option \<Rightarrow> (('b, 'c) bi_state, nat \<times> nat option) sm" where
  "rr_pool_loop env n 0 pool = sbind (random_idx env (n - 1)) (\<lambda>i. sret (i, pool))"
| "rr_pool_loop env n (Suc k) pool =
     sbind round_robin_select (\<lambda>i.
     sbind (pool_blacklisted env i) (\<lambda>black.
       if \<not> black then sret (i, Some i) else rr_pool_loop env n k (Some i)))"

definition selector_pool :: "('b, 'c) bi_env \<Rightarrow> selector \<Rightarrow> (('b, 'c) bi_state, nat \<times> selector) sm" where
  "selector_pool env sel =
     sbind (sget (\<lambda>s. length (bi_pools s))) (\<lambda>n.
     case sel of
       NamespaceSel idx last_idx start_from_last \<Rightarrow>
         let start = (if start_from_last then last_idx else idx)
         in sbind (ns_pool_loop env n start n start) (\<lambda>i. sret (i, NamespaceSel idx i start_from_last))
     | RoundRobinSel pool \<Rightarrow>
         sbind (rr_pool_loop env n n pool) (\<lambda>(i, pool').
         sbind (sverify (i < n) ''i < pools.size()'') (\<lambda>_. sret (i, RoundRobinSel pool')))
     | FixedSel i \<Rightarrow> sret (i, sel))"

definition selector_connection_error :: "('b, 'c) bi_env \<Rightarrow> selector \<Rightarrow> (('b, 'c) bi_state, selector) sm" where
  "selector_connection_error env sel =
     (case sel of
        NamespaceSel idx last_idx _ \<Rightarrow>
          sbind (sget (\<lambda>s. length (bi_pools s))) (\<lambda>n.
          sbind (sverify (n > last_idx) ''cm_.pools().size() > last_idx_'') (\<lambda>_.
          sbind (pool_error env last_idx) (\<lambda>_. sret sel)))
      | RoundRobinSel pool \<Rightarrow>
          sbind (sverify (pool \<noteq> None) ''pool_'') (\<lambda>_.
          sbind (pool_error env (the pool)) (\<lambda>_. sret sel))
      | FixedSel i \<Rightarrow> sbind (pool_error env i) (\<lambda>_. sret sel))"

definition selector_switch :: "bool \<Rightarrow> selector \<Rightarrow> (('b, 'c) bi_state, selector) sm" where
  "selector_switch wanted sel =
     sbind (sget (\<lambda>s. length (bi_pools s))) (\<lambda>n. sret
     (case sel of
        NamespaceSel idx last_idx start \<Rightarrow>
          if wanted then NamespaceSel idx ((last_idx + 1) mod n) True else sel
      | _ \<Rightarrow> sel))"

definition selector_backend_error :: "('b, 'c) bi_env \<Rightarrow> selector \<Rightarrow> (('b, 'c) bi_state, selector) sm" where
  "selector_backend_error env = selector_switch (be_switch_on_backend_error env)"

definition selector_request_timeout :: "('b, 'c) bi_env \<Rightarrow> selector \<Rightarrow> (('b, 'c) bi_state, selector) sm" where
  "selector_request_timeout env = selector_switch (be_switch_on_timeout env)"

subsection \<open>Requests\<close>

definition no_retry :: "vd_error \<Rightarrow> bool" where
  "no_retry e = (e \<in> {BackendException AssertionFailed, BackendException NamespaceDoesNotExist,
     BackendException ObjectDoesNotExist})"

text \<open>
  What is in the \<^verbatim>\<open>try\<close> block: choose a pool, take a connection, run the request on it, and give the
  connection back in any case. It also gives the selector as the block leaves it.
\<close>

definition wrap_attempt :: "('b, 'c) bi_env \<Rightarrow> ('c \<Rightarrow> ('b, 'a) sm) \<Rightarrow> bool \<Rightarrow> selector \<Rightarrow> ('b, 'c) bi_state \<Rightarrow>
    'a result \<times> selector \<times> ('b, 'c) bi_state" where
  "wrap_attempt env mem_fun force_new sel s =
     (case selector_pool env sel s of
        (Inl e, s1) \<Rightarrow> (Inl e, sel, s1)
      | (Inr (i, sel'), s1) \<Rightarrow>
          (case pool_get_connection env i force_new s1 of
             (Inl e, s2) \<Rightarrow> (Inl e, sel', s2)
           | (Inr conn, s2) \<Rightarrow>
               (case on_store (mem_fun conn) s2 of
                  (r, s3) \<Rightarrow> (r, sel', snd (pool_release_connection env i conn s3)))))"

definition wrap_handler :: "('b, 'c) bi_env \<Rightarrow> vd_error \<Rightarrow> selector \<Rightarrow> (('b, 'c) bi_state, selector) sm" where
  "wrap_handler env e sel =
     (if e = BackendException ConnectionTimeout then selector_request_timeout env sel
      else if e = BackendException ConnectFailure then selector_connection_error env sel
      else selector_backend_error env sel)"

function do_wrap_loop :: "('b, 'c) bi_env \<Rightarrow> ('c \<Rightarrow> ('b, 'a) sm) \<Rightarrow> nat \<Rightarrow> nat \<Rightarrow> selector \<Rightarrow> (('b, 'c) bi_state, 'a) sm" where
  "do_wrap_loop env mem_fun retries attempt sel s =
     (case wrap_attempt env mem_fun (attempt \<noteq> 0) sel
             (if attempt \<noteq> 0 then s\<lparr>bi_retry_counter := bi_retry_counter s + 1\<rparr> else s) of
        (Inr x, _, s1) \<Rightarrow> (Inr x, s1)
      | (Inl e, sel1, s1) \<Rightarrow>
          if no_retry e then (Inl e, s1)
          else (case wrap_handler env e sel1 s1 of
                  (Inl e', s2) \<Rightarrow> (Inl e', s2)
                | (Inr sel2, s2) \<Rightarrow>
                    if attempt \<ge> retries then (Inl e, s2)
                    else do_wrap_loop env mem_fun retries (attempt + 1) sel2 s2))"
  by pat_completeness auto
termination
  by (relation "measure (\<lambda>(env, mem_fun, retries, attempt, sel, s). retries - attempt)") auto

declare do_wrap_loop.simps [simp del]

text \<open>\<open>retries\<close> is the number of the request, if it has one, or that of the connection manager.\<close>

definition do_wrap :: "('b, 'c) bi_env \<Rightarrow> nat option \<Rightarrow> selector \<Rightarrow> ('c \<Rightarrow> ('b, 'a) sm) \<Rightarrow> (('b, 'c) bi_state, 'a) sm" where
  "do_wrap env retries sel mem_fun =
     do_wrap_loop env mem_fun (case retries of Some n \<Rightarrow> n | None \<Rightarrow> be_retries_on_error env) 0 sel"

definition wrap_selector :: "('b, 'c) bi_env \<Rightarrow> nat option \<Rightarrow> pool_policy \<Rightarrow> string \<Rightarrow> ('c \<Rightarrow> ('b, 'a) sm) \<Rightarrow>
    (('b, 'c) bi_state, 'a) sm" where
  "wrap_selector env retries policy nspace mem_fun =
     sbind (sget (\<lambda>s. length (bi_pools s))) (\<lambda>n.
     do_wrap env retries
       (case policy of OnError \<Rightarrow> NamespacePoolSelector_new env nspace n | RoundRobin \<Rightarrow> RoundRobinSel None) mem_fun)"

definition wrap :: "('b, 'c) bi_env \<Rightarrow> nat option \<Rightarrow> string \<Rightarrow> ('c \<Rightarrow> ('b, 'a) sm) \<Rightarrow> (('b, 'c) bi_state, 'a) sm" where
  "wrap env retries = wrap_selector env retries (be_policy env)"

definition handle_eventual_consistency ::
  "('b, 'c) bi_env \<Rightarrow> bool \<Rightarrow> (bool \<Rightarrow> (('b, 'c) bi_state, 'a) sm) \<Rightarrow> (('b, 'c) bi_state, 'a) sm" where
  "handle_eventual_consistency env insist_on_latest fn =
     (let insist = (if be_strict_consistency env then False else insist_on_latest)
      in scatch (fn insist) (\<lambda>e.
           if e = BackendException ObjectDoesNotExist \<and> \<not> be_strict_consistency env \<and> \<not> insist
           then fn True else sthrow e))"

definition bi_read :: "('b, 'c) bi_env \<Rightarrow> nat option \<Rightarrow> string \<Rightarrow> string \<Rightarrow> bool \<Rightarrow> (('b, 'c) bi_state, u8 list) sm" where
  "bi_read env params nspace name insist_on_latest =
     handle_eventual_consistency env insist_on_latest (\<lambda>insist.
       wrap env params nspace (\<lambda>c. ca_read (be_conn env) c nspace name insist))"

definition bi_write :: "('b, 'c) bi_env \<Rightarrow> nat option \<Rightarrow> string \<Rightarrow> u8 list option \<Rightarrow> string \<Rightarrow> bool \<Rightarrow>
    checksum option \<Rightarrow> (string \<times> object_tag) option \<Rightarrow> (('b, 'c) bi_state, unit) sm" where
  "bi_write env params nspace src name overwrite chksum cond =
     wrap env params nspace (\<lambda>c. ca_write (be_conn env) c nspace src name overwrite chksum cond)"

definition bi_getCheckSum :: "('b, 'c) bi_env \<Rightarrow> nat option \<Rightarrow> string \<Rightarrow> string \<Rightarrow> (('b, 'c) bi_state, checksum) sm" where
  "bi_getCheckSum env params nspace name = wrap env params nspace (\<lambda>c. ca_getCheckSum (be_conn env) c nspace name)"

definition bi_namespaceExists :: "('b, 'c) bi_env \<Rightarrow> nat option \<Rightarrow> string \<Rightarrow> (('b, 'c) bi_state, bool) sm" where
  "bi_namespaceExists env params nspace = wrap env params nspace (\<lambda>c. ca_namespaceExists (be_conn env) c nspace)"

definition bi_createNamespace :: "('b, 'c) bi_env \<Rightarrow> nat option \<Rightarrow> string \<Rightarrow> bool \<Rightarrow> (('b, 'c) bi_state, unit) sm" where
  "bi_createNamespace env params nspace must_not_exist =
     scatch (wrap env params nspace (\<lambda>c. ca_createNamespace (be_conn env) c nspace must_not_exist)) (\<lambda>e.
       if e = BackendException NamespaceAlreadyExists \<and> \<not> must_not_exist then sret () else sthrow e)"

definition bi_deleteNamespace :: "('b, 'c) bi_env \<Rightarrow> nat option \<Rightarrow> string \<Rightarrow> (('b, 'c) bi_state, unit) sm" where
  "bi_deleteNamespace env params nspace = wrap env params nspace (\<lambda>c. ca_deleteNamespace (be_conn env) c nspace)"

definition bi_clearNamespace :: "('b, 'c) bi_env \<Rightarrow> nat option \<Rightarrow> string \<Rightarrow> (('b, 'c) bi_state, unit) sm" where
  "bi_clearNamespace env params nspace = wrap env params nspace (\<lambda>c. ca_clearNamespace (be_conn env) c nspace)"

definition bi_objectExists :: "('b, 'c) bi_env \<Rightarrow> nat option \<Rightarrow> string \<Rightarrow> string \<Rightarrow> (('b, 'c) bi_state, bool) sm" where
  "bi_objectExists env params nspace name = wrap env params nspace (\<lambda>c. ca_objectExists (be_conn env) c nspace name)"

definition bi_remove :: "('b, 'c) bi_env \<Rightarrow> nat option \<Rightarrow> string \<Rightarrow> string \<Rightarrow> bool \<Rightarrow>
    (string \<times> object_tag) option \<Rightarrow> (('b, 'c) bi_state, unit) sm" where
  "bi_remove env params nspace name may_not_exist cond =
     wrap env params nspace (\<lambda>c. ca_remove (be_conn env) c nspace name may_not_exist cond)"

definition bi_getSize :: "('b, 'c) bi_env \<Rightarrow> nat option \<Rightarrow> string \<Rightarrow> string \<Rightarrow> (('b, 'c) bi_state, u64) sm" where
  "bi_getSize env params nspace name = wrap env params nspace (\<lambda>c. ca_getSize (be_conn env) c nspace name)"

definition bi_listObjects :: "('b, 'c) bi_env \<Rightarrow> nat option \<Rightarrow> string \<Rightarrow> (('b, 'c) bi_state, string list) sm" where
  "bi_listObjects env params nspace = wrap env params nspace (\<lambda>c. ca_listObjects (be_conn env) c nspace)"

definition bi_partial_read :: "('b, 'c) bi_env \<Rightarrow> nat option \<Rightarrow> string \<Rightarrow> (string \<times> (nat \<times> nat) list) list \<Rightarrow>
    (string \<Rightarrow> u8 list result) \<Rightarrow> bool \<Rightarrow> (('b, 'c) bi_state, u8 list list option) sm" where
  "bi_partial_read env params nspace reads fallback insist_on_latest =
     (if \<not> be_partial_read_nullio env
      then handle_eventual_consistency env insist_on_latest (\<lambda>insist.
             sbind (wrap_selector env params (be_partial_read_policy env) nspace
                      (\<lambda>c. ca_partial_read (be_conn env) c nspace reads insist fallback)) (\<lambda>bs. sret (Some bs)))
      else sret None)"

subsection \<open>The local connection\<close>

definition local_api :: "local_env \<Rightarrow> (local_store, unit) conn_api" where
  "local_api env =
     \<lparr>ca_make = sbind (sget lo_root) (\<lambda>r. if r then sret () else sthrow (BackendException Backend)),
      ca_healthy = (\<lambda>_. True),
      ca_read = (\<lambda>_ ns name _. lc_read ns name),
      ca_write = (\<lambda>_. lc_write env),
      ca_objectExists = (\<lambda>_. lc_objectExists),
      ca_remove = (\<lambda>_. lc_remove env),
      ca_getCheckSum = (\<lambda>_. lc_getCheckSum env),
      ca_getSize = (\<lambda>_. lc_getSize),
      ca_namespaceExists = (\<lambda>_. lc_namespaceExists),
      ca_createNamespace = (\<lambda>_. lc_createNamespace),
      ca_deleteNamespace = (\<lambda>_. lc_deleteNamespace),
      ca_clearNamespace = (\<lambda>_. ci_clearNamespace),
      ca_listObjects = (\<lambda>_. lc_listObjects),
      ca_partial_read = (\<lambda>_ ns reads _ fallback. ci_partial_read env ns reads fallback)\<rparr>"

subsection \<open>Which pool is chosen\<close>

definition random_ok :: "('b, 'c) bi_env \<Rightarrow> bool" where
  "random_ok env \<longleftrightarrow> (\<forall>t n. be_random env t n \<le> n)"

text \<open>What a request must not change on its way to a connection.\<close>

definition same_base :: "('b, 'c) bi_state \<Rightarrow> ('b, 'c) bi_state \<Rightarrow> bool" where
  "same_base s s' \<longleftrightarrow> bi_store s' = bi_store s \<and> length (bi_pools s') = length (bi_pools s) \<and>
     bi_retry_counter s' = bi_retry_counter s"

lemma same_base_refl [simp]: "same_base s s"
  by (simp add: same_base_def)

lemma same_base_trans: "same_base s s' \<Longrightarrow> same_base s' s'' \<Longrightarrow> same_base s s''"
  by (simp add: same_base_def)

text \<open>Whether the pool \<open>i\<close> is seen as blacklisted by the \<open>q\<close>-th look at the clock from \<open>s\<close> on.\<close>

definition black :: "('b, 'c) bi_env \<Rightarrow> ('b, 'c) bi_state \<Rightarrow> nat \<Rightarrow> nat \<Rightarrow> bool" where
  "black env s q i \<longleftrightarrow> be_now env (bi_clock s + q) \<le> cp_blacklisted_until (bi_pools s ! i)"

definition ns_choice :: "('b, 'c) bi_env \<Rightarrow> ('b, 'c) bi_state \<Rightarrow> nat \<Rightarrow> nat \<Rightarrow> bool" where
  "ns_choice env s start j \<longleftrightarrow>
     (let n = length (bi_pools s) in
      (\<exists>m < n. (\<forall>q < m. black env s q ((start + q) mod n)) \<and> \<not> black env s m ((start + m) mod n) \<and>
         j = (start + m) mod n) \<or>
      (\<forall>q < n. black env s q ((start + q) mod n)) \<and> j < n)"

lemma pool_blacklisted_eq:
  "pool_blacklisted env i s =
     (Inr (be_now env (bi_clock s) \<le> cp_blacklisted_until (bi_pools s ! i)), s\<lparr>bi_clock := bi_clock s + 1\<rparr>)"
  by (simp add: pool_blacklisted_def clock_now_def sbind_def sget_def)

lemma next_index:
  fixes n q start :: nat
  assumes "start < n" and "q < n" and "i = (start + q) mod n"
  shows "(if i + 1 = n then 0 else i + 1) = (start + Suc q) mod n"
    and "(start + Suc q) mod n = start \<longleftrightarrow> Suc q = n"
proof -
  show "(if i + 1 = n then 0 else i + 1) = (start + Suc q) mod n"
    using assms by (simp add: mod_Suc)
  have "(start + Suc q) mod n = (if start + Suc q < n then start + Suc q else start + Suc q - n)"
    using assms(1,2) by (auto simp: le_mod_geq)
  then show "(start + Suc q) mod n = start \<longleftrightarrow> Suc q = n" using assms(1,2) by auto
qed

lemma ns_pool_loop_ok:
  assumes "random_ok env" and "n = length (bi_pools s0)" and "start < n" and "q + k = n" and "q < n"
    and "s = s0\<lparr>bi_clock := bi_clock s0 + q\<rparr>" and "\<forall>p < q. black env s0 p ((start + p) mod n)"
  shows "\<exists>j s'. ns_pool_loop env n start k ((start + q) mod n) s = (Inr j, s') \<and>
    bi_pools s' = bi_pools s0 \<and> same_base s0 s' \<and> ns_choice env s0 start j"
  using assms(4-)
proof (induction k arbitrary: q s)
  case 0
  then show ?case by simp
next
  case (Suc k)
  let ?i = "(start + q) mod n"
  have b: "pool_blacklisted env ?i s = (Inr (black env s0 q ?i), s0\<lparr>bi_clock := bi_clock s0 + Suc q\<rparr>)"
    using Suc.prems(3) by (simp add: pool_blacklisted_eq black_def)
  note nx = next_index [OF assms(3) Suc.prems(2) refl]
  show ?case
  proof (cases "black env s0 q ?i")
    case False
    with b Suc.prems(2,4) show ?thesis
      by (auto simp: sbind_def sret_def same_base_def ns_choice_def Let_def assms(2))
  next
    case True
    have all: "\<forall>p < Suc q. black env s0 p ((start + p) mod n)" using True Suc.prems(4) by (simp add: less_Suc_eq)
    show ?thesis
    proof (cases "Suc q = n")
      case last: True
      have "be_random env t (n - 1) < n" for t
        using assms(1,3) unfolding random_ok_def by (metis Suc_pred' le_imp_less_Suc less_nat_zero_code not_gr_zero)
      with b True last nx all show ?thesis
        by (auto simp: sbind_def random_idx_def same_base_def ns_choice_def Let_def assms(2))
    next
      case False
      then have "Suc q < n" "Suc q + k = n" using Suc.prems(1,2) by simp_all
      from Suc.IH [OF this(2,1) refl all] show ?thesis using b True False nx by (simp add: sbind_def)
    qed
  qed
qed

lemma random_idx_less: "random_ok env \<Longrightarrow> 0 < n \<Longrightarrow> be_random env t (n - 1) < n"
  unfolding random_ok_def by (metis Suc_pred' le_imp_less_Suc)

lemma rr_pool_loop_ok:
  assumes "random_ok env" and "n = length (bi_pools s)" and "0 < n" and "\<forall>i. pool = Some i \<longrightarrow> i < n"
    and "k = 0 \<longrightarrow> pool \<noteq> None"
  shows "\<exists>j i s'. rr_pool_loop env n k pool s = (Inr (j, Some i), s') \<and> j < n \<and> i < n \<and> same_base s s'"
  using assms
proof (induction k arbitrary: pool s)
  case 0
  then obtain i where "pool = Some i" "i < n" by auto
  with random_idx_less [OF 0(1,3)] show ?case by (auto simp: sbind_def random_idx_def sret_def same_base_def)
next
  case (Suc k)
  let ?i = "unat (bi_next_pool s) mod length (bi_pools s)"
  let ?s = "s\<lparr>bi_next_pool := bi_next_pool s + 1, bi_clock := bi_clock s + 1\<rparr>"
  have i: "?i < n" using Suc.prems(2,3) by simp
  have base: "same_base s ?s" by (simp add: same_base_def)
  have b: "rr_pool_loop env n (Suc k) pool s =
      (if \<not> be_now env (bi_clock s) \<le> cp_blacklisted_until (bi_pools s ! ?i) then (Inr (?i, Some ?i), ?s)
       else rr_pool_loop env n k (Some ?i) ?s)"
    by (simp add: sbind_def round_robin_select_def sget_def smod_def pool_blacklisted_eq sret_def)
  have "\<exists>j i s'. rr_pool_loop env n k (Some ?i) ?s = (Inr (j, Some i), s') \<and> j < n \<and> i < n \<and> same_base ?s s'"
    by (rule Suc.IH) (use Suc.prems i in auto)
  then obtain j i' s' where "rr_pool_loop env n k (Some ?i) ?s = (Inr (j, Some i'), s')" "j < n" "i' < n" "same_base ?s s'"
    by (elim exE conjE) (rule that)
  with b i base same_base_trans [OF base] show ?case by (auto simp del: rr_pool_loop.simps)
qed

definition sel_ok :: "nat \<Rightarrow> selector \<Rightarrow> bool" where
  "sel_ok n sel \<longleftrightarrow>
     (case sel of
        NamespaceSel idx last_idx _ \<Rightarrow> idx < n \<and> last_idx < n
      | RoundRobinSel pool \<Rightarrow> (\<forall>i. pool = Some i \<longrightarrow> i < n)
      | FixedSel i \<Rightarrow> i < n)"

text \<open>Once a pool was chosen, an error can be charged to one.\<close>

definition sel_used :: "selector \<Rightarrow> bool" where
  "sel_used sel \<longleftrightarrow> (\<forall>pool. sel = RoundRobinSel pool \<longrightarrow> pool \<noteq> None)"

lemma selector_pool_ok:
  assumes "random_ok env" and "n = length (bi_pools s)" and "0 < n" and "sel_ok n sel"
  shows "\<exists>j sel' s'. selector_pool env sel s = (Inr (j, sel'), s') \<and> j < n \<and> sel_ok n sel' \<and> sel_used sel' \<and> same_base s s'"
proof (cases sel)
  case (NamespaceSel idx last_idx start_from_last)
  let ?start = "if start_from_last then last_idx else idx"
  have st: "?start < n" using assms(4) NamespaceSel by (simp add: sel_ok_def)
  obtain j s' where "ns_pool_loop env n ?start n ((?start + 0) mod n) s = (Inr j, s')" "same_base s s'"
      "ns_choice env s ?start j"
    using ns_pool_loop_ok [where q = 0 and k = n and s = s, OF assms(1,2) st] assms(3) by auto
  moreover have "j < n" using calculation(3) assms(2,3) by (auto simp: ns_choice_def Let_def)
  ultimately show ?thesis
    using NamespaceSel st assms(2,4) by (auto simp: selector_pool_def sbind_def sget_def sret_def sel_ok_def sel_used_def Let_def)
next
  case (RoundRobinSel pool)
  then have "\<forall>i. pool = Some i \<longrightarrow> i < n" using assms(4) by (simp add: sel_ok_def)
  from rr_pool_loop_ok [OF assms(1-3) this, of n] assms(3) obtain j i s' where
    "rr_pool_loop env n n pool s = (Inr (j, Some i), s')" "j < n" "i < n" "same_base s s'" by auto
  with RoundRobinSel assms(2) show ?thesis
    by (auto simp: selector_pool_def sbind_def sget_def sret_def sverify_def verify_def sel_ok_def sel_used_def)
next
  case (FixedSel i)
  with assms show ?thesis
    by (auto simp: selector_pool_def sbind_def sget_def sret_def sel_ok_def sel_used_def)
qed

subsection \<open>Requests and retries\<close>

text \<open>A request without pools and connections: it is tried again while the error allows it.\<close>

fun retry_spec :: "nat \<Rightarrow> ('b, 'a) sm \<Rightarrow> ('b, 'a) sm" where
  "retry_spec 0 op b = op b"
| "retry_spec (Suc k) op b =
     (case op b of
        (Inr x, b') \<Rightarrow> (Inr x, b')
      | (Inl e, b') \<Rightarrow> if no_retry e then (Inl e, b') else retry_spec k op b')"

fun retry_attempts :: "nat \<Rightarrow> ('b, 'a) sm \<Rightarrow> 'b \<Rightarrow> nat" where
  "retry_attempts 0 op b = 1"
| "retry_attempts (Suc k) op b =
     (case op b of
        (Inr x, b') \<Rightarrow> 1
      | (Inl e, b') \<Rightarrow> if no_retry e then 1 else 1 + retry_attempts k op b')"

lemma retry_attempts_bound: "1 \<le> retry_attempts k op b \<and> retry_attempts k op b \<le> k + 1"
  by (induction k op b rule: retry_attempts.induct) (auto split: sum.split prod.split)

text \<open>Connections can be made while \<open>J\<close> holds of the store, and making one leaves the store alone.\<close>

definition conn_ok :: "('b, 'c) bi_env \<Rightarrow> ('b \<Rightarrow> bool) \<Rightarrow> bool" where
  "conn_ok env J \<longleftrightarrow> (\<forall>b. J b \<longrightarrow> (\<exists>c. ca_make (be_conn env) b = (Inr c, b)))"

lemma get_connection_ok:
  assumes "conn_ok env J" and "J (bi_store s)"
  shows "\<exists>c s'. pool_get_connection env i force s = (Inr c, s') \<and> same_base s s'"
proof -
  obtain p s1 where p: "(if force then sret None
            else sbind (sget (\<lambda>s. cp_connections (bi_pools s ! i))) (\<lambda>conns.
                 sbind (on_pool i (\<lambda>p. p\<lparr>cp_gets_from_pool := cp_gets_from_pool p + 1, cp_connections := tl conns\<rparr>))
                   (\<lambda>_. sret (case conns of [] \<Rightarrow> None | c # _ \<Rightarrow> Some c)))) s = (Inr p, s1)" and b: "same_base s s1"
    by (cases force) (auto simp: sbind_def sget_def on_pool_def smod_def sret_def same_base_def)
  show ?thesis
  proof (cases p)
    case None
    have "bi_store s1 = bi_store s" using b by (simp add: same_base_def)
    with assms obtain c where "ca_make (be_conn env) (bi_store s1) = (Inr c, bi_store s1)" by (auto simp: conn_ok_def)
    then have "pool_make_one env i s1 = (Inr c, s1)"
      by (simp add: pool_make_one_def scatch_def on_store_def szoom_def)
    then show ?thesis
      unfolding pool_get_connection_def using p b None
      by (auto simp: sbind_def [of _ _ s] sbind_def [of _ _ s1] on_pool_def smod_def sret_def same_base_def)
  next
    case (Some c)
    then show ?thesis unfolding pool_get_connection_def using p b by (auto simp: sbind_def [of _ _ s] sret_def)
  qed
qed

definition same_pools :: "('b, 'c) bi_state \<Rightarrow> ('b, 'c) bi_state \<Rightarrow> bool" where
  "same_pools s s' \<longleftrightarrow> length (bi_pools s') = length (bi_pools s) \<and> bi_retry_counter s' = bi_retry_counter s"

lemma wrap_attempt_ok:
  assumes "random_ok env" and "conn_ok env J" and "bi_pools s \<noteq> []" and "sel_ok (length (bi_pools s)) sel"
    and "J (bi_store s)" and "wrap_attempt env (\<lambda>_. op) force sel s = (r, sel', s')"
  shows "op (bi_store s) = (r, bi_store s') \<and> same_pools s s' \<and> sel_ok (length (bi_pools s)) sel' \<and> sel_used sel'"
proof -
  from selector_pool_ok [OF assms(1) refl _ assms(4)] assms(3) obtain j sl s1 where
    a: "selector_pool env sel s = (Inr (j, sl), s1)" "sel_ok (length (bi_pools s)) sl" "sel_used sl" "same_base s s1"
    by auto
  have "J (bi_store s1)" using a(4) assms(5) by (simp add: same_base_def)
  from get_connection_ok [OF assms(2) this, of j force] obtain c s2 where
    b: "pool_get_connection env j force s1 = (Inr c, s2)" "same_base s1 s2" by auto
  have st: "bi_store s2 = bi_store s" using a(4) b(2) by (simp add: same_base_def)
  show ?thesis
    using assms(6) a b st
    by (auto simp: wrap_attempt_def on_store_def szoom_def pool_release_connection_def on_pool_def smod_def
        same_base_def same_pools_def split: prod.splits)
qed

lemma wrap_handler_ok:
  assumes "sel_ok (length (bi_pools s)) sel" and "sel_used sel" and "bi_pools s \<noteq> []"
  shows "\<exists>sel' s'. wrap_handler env e sel s = (Inr sel', s') \<and> same_base s s' \<and> sel_ok (length (bi_pools s)) sel'"
  using assms
  by (cases sel)
    (auto simp: wrap_handler_def selector_request_timeout_def selector_backend_error_def selector_switch_def
      selector_connection_error_def pool_error_def clock_now_def on_pool_def sbind_def sget_def smod_def sret_def
      sverify_def verify_def same_base_def sel_ok_def sel_used_def)

lemma wrap_round:
  assumes "random_ok env" and "conn_ok env J" and "bi_pools s \<noteq> []" and "sel_ok (length (bi_pools s)) sel"
    and "J (bi_store s)"
    and "wrap_attempt env (\<lambda>_. op) b sel (if b then s\<lparr>bi_retry_counter := bi_retry_counter s + 1\<rparr> else s) = (r, sel', s')"
  shows "op (bi_store s) = (r, bi_store s') \<and> length (bi_pools s') = length (bi_pools s) \<and>
    bi_retry_counter s' = bi_retry_counter s + (if b then 1 else 0) \<and>
    sel_ok (length (bi_pools s')) sel' \<and> sel_used sel'"
proof (cases b)
  case True
  with assms(6) wrap_attempt_ok [OF assms(1,2), of "s\<lparr>bi_retry_counter := bi_retry_counter s + 1\<rparr>" sel op True r sel' s']
    assms(3-5) show ?thesis by (simp add: same_pools_def)
next
  case False
  with assms(6) wrap_attempt_ok [OF assms(1-5), of op False r sel' s'] show ?thesis by (simp add: same_pools_def)
qed

lemma do_wrap_loop_ok:
  assumes "random_ok env" and "conn_ok env J" and "\<forall>b. J b \<longrightarrow> J (snd (op b))" and "k = retries - attempt"
    and "bi_pools s \<noteq> []" and "sel_ok (length (bi_pools s)) sel" and "J (bi_store s)"
  shows "\<exists>s'. do_wrap_loop env (\<lambda>_. op) retries attempt sel s = (fst (retry_spec k op (bi_store s)), s') \<and>
    bi_store s' = snd (retry_spec k op (bi_store s)) \<and> length (bi_pools s') = length (bi_pools s) \<and>
    bi_retry_counter s' = bi_retry_counter s +
      of_nat (retry_attempts k op (bi_store s) - (if attempt = 0 then 1 else 0))"
  using assms(4-)
proof (induction k arbitrary: attempt sel s)
  case (0 attempt sel s)
  obtain r sel1 s1 where a: "wrap_attempt env (\<lambda>_. op) (attempt \<noteq> 0) sel
      (if attempt \<noteq> 0 then s\<lparr>bi_retry_counter := bi_retry_counter s + 1\<rparr> else s) = (r, sel1, s1)" by (metis prod_cases3)
  note w = wrap_round [OF assms(1,2) 0(2-4) a]
  note unf = do_wrap_loop.simps [of env "\<lambda>_. op" retries attempt sel s, unfolded a]
  show ?case
  proof (cases r)
    case (Inl e)
    have "bi_pools s1 \<noteq> []" using w 0(2) by auto
    with w obtain sel2 s2 where "wrap_handler env e sel1 s1 = (Inr sel2, s2)" "same_base s1 s2"
      using wrap_handler_ok [of s1 sel1 env e] by blast
    with w 0 Inl show ?thesis by (auto simp: unf same_base_def)
  qed (use w in \<open>auto simp: unf\<close>)
next
  case (Suc k attempt sel s)
  obtain r sel1 s1 where a: "wrap_attempt env (\<lambda>_. op) (attempt \<noteq> 0) sel
      (if attempt \<noteq> 0 then s\<lparr>bi_retry_counter := bi_retry_counter s + 1\<rparr> else s) = (r, sel1, s1)" by (metis prod_cases3)
  note w = wrap_round [OF assms(1,2) Suc.prems(2-4) a]
  note unf = do_wrap_loop.simps [of env "\<lambda>_. op" retries attempt sel s, unfolded a]
  have J1: "J (bi_store s1)" using assms(3) Suc.prems(4) w by (metis snd_conv)
  have p1: "bi_pools s1 \<noteq> []" using w Suc.prems(2) by auto
  consider (ok) x where "r = Inr x" | (stop) e where "r = Inl e" "no_retry e" | (again) e where "r = Inl e" "\<not> no_retry e"
    by (cases r) auto
  then show ?case
  proof cases
    case (again e)
    obtain sel2 s2 where h: "wrap_handler env e sel1 s1 = (Inr sel2, s2)" "same_base s1 s2"
        "sel_ok (length (bi_pools s1)) sel2"
      using wrap_handler_ok [of s1 sel1 env e] w p1 by blast
    have n: "length (bi_pools s2) = length (bi_pools s)" "bi_store s2 = bi_store s1" "bi_pools s2 \<noteq> []"
      using h(2) w p1 by (auto simp: same_base_def)
    have ks: "k = retries - (attempt + 1)" "\<not> retries \<le> attempt" using Suc.prems(1) by simp_all
    have "sel_ok (length (bi_pools s2)) sel2" "J (bi_store s2)" using h n J1 w by simp_all
    from Suc.IH [OF ks(1) n(3) this] obtain s' where
      ih: "do_wrap_loop env (\<lambda>_. op) retries (attempt + 1) sel2 s2 = (fst (retry_spec k op (bi_store s1)), s')"
        "bi_store s' = snd (retry_spec k op (bi_store s1))" "length (bi_pools s') = length (bi_pools s)"
        "bi_retry_counter s' = bi_retry_counter s2 + of_nat (retry_attempts k op (bi_store s1))"
      by (auto simp: n)
    have "do_wrap_loop env (\<lambda>_. op) retries attempt sel s = (fst (retry_spec k op (bi_store s1)), s')"
      using again h(1) ks(2) ih(1) by (simp add: unf)
    moreover have "bi_retry_counter s2 = bi_retry_counter s + (if attempt = 0 then 0 else 1)"
      using h(2) w by (auto simp: same_base_def)
    ultimately show ?thesis using ih w again by (auto simp: algebra_simps)
  qed (use w in \<open>auto simp: unf\<close>)
qed

text \<open>The request of the backend interface in terms of the store only.\<close>

lemma wrap_selector_ok:
  assumes "random_ok env" and "conn_ok env J" and "\<forall>b. J b \<longrightarrow> J (snd (op b))" and "bi_pools s \<noteq> []" and "J (bi_store s)"
    and "k = (case retries of Some n \<Rightarrow> n | None \<Rightarrow> be_retries_on_error env)"
  shows "\<exists>s'. wrap_selector env retries policy nspace (\<lambda>_. op) s = (fst (retry_spec k op (bi_store s)), s') \<and>
    bi_store s' = snd (retry_spec k op (bi_store s)) \<and> length (bi_pools s') = length (bi_pools s) \<and>
    bi_retry_counter s' = bi_retry_counter s + of_nat (retry_attempts k op (bi_store s) - 1)"
proof -
  let ?sel = "case policy of OnError \<Rightarrow> NamespacePoolSelector_new env nspace (length (bi_pools s))
    | RoundRobin \<Rightarrow> RoundRobinSel None"
  have "sel_ok (length (bi_pools s)) ?sel"
    using assms(4) by (cases policy) (auto simp: sel_ok_def NamespacePoolSelector_new_def Let_def)
  from do_wrap_loop_ok [OF assms(1-3) _ assms(4) this assms(5), of k k 0] show ?thesis
    unfolding wrap_selector_def do_wrap_def using assms(6) by (simp add: sbind_def sget_def)
qed


definition ex_flaky :: "(nat, nat) sm" where
  "ex_flaky b = (if b < 2 then (Inl (BackendException ConnectionTimeout), b + 1) else (Inr b, b))"

definition ex_conn_api :: "(nat, unit) conn_api" where
  "ex_conn_api =
     \<lparr>ca_make = sret (), ca_healthy = (\<lambda>_. True), ca_read = (\<lambda>_ _ _ _. sret []), ca_write = (\<lambda>_ _ _ _ _ _ _. sret ()),
      ca_objectExists = (\<lambda>_ _ _. sret True), ca_remove = (\<lambda>_ _ _ _ _. sret ()), ca_getCheckSum = (\<lambda>_ _ _. sret CheckSum_new),
      ca_getSize = (\<lambda>_ _ _. sret 0), ca_namespaceExists = (\<lambda>_ _. sret True), ca_createNamespace = (\<lambda>_ _ _. sret ()),
      ca_deleteNamespace = (\<lambda>_ _. sret ()), ca_clearNamespace = (\<lambda>_ _. sret ()), ca_listObjects = (\<lambda>_ _. sret []),
      ca_partial_read = (\<lambda>_ _ _ _ _. sret [])\<rparr>"

definition ex_bi_env :: "('b, 'c) conn_api \<Rightarrow> ('b, 'c) bi_env" where
  "ex_bi_env api =
     \<lparr>be_conn = api, be_now = int, be_random = (\<lambda>_ _. 0), be_hash = length, be_blacklist_secs = 10,
      be_retries_on_error = 1, be_policy = OnError, be_partial_read_policy = RoundRobin,
      be_switch_on_backend_error = True, be_switch_on_timeout = True, be_strict_consistency = True,
      be_partial_read_nullio = False\<rparr>"

definition ex_bi_state :: "'b \<Rightarrow> ('b, unit) bi_state" where
  "ex_bi_state b = \<lparr>bi_store = b, bi_pools = [ConnectionPool_new 2 (- 1), ConnectionPool_new 2 (- 1)], bi_next_pool = 0,
     bi_clock = 0, bi_retry_counter = 0\<rparr>"

lemma ex_random_ok [simp]: "random_ok (ex_bi_env api)"
  by (simp add: random_ok_def ex_bi_env_def)




subsection \<open>The interface of an object store\<close>

text \<open>What the scrubber calls, with the namespace and the request parameters fixed.\<close>

record 's store_api =
  sa_exists :: "string \<Rightarrow> ('s, bool) sm"
  sa_read :: "string \<Rightarrow> bool \<Rightarrow> ('s, u8 list) sm"
  sa_write :: "u8 list option \<Rightarrow> string \<Rightarrow> bool \<Rightarrow> checksum option \<Rightarrow> ('s, unit) sm"
  sa_remove :: "string \<Rightarrow> bool \<Rightarrow> ('s, unit) sm"

locale object_store =
  fixes api :: "'s store_api"
    and view :: "'s \<Rightarrow> string \<Rightarrow> u8 list option"
    and inv :: "'s \<Rightarrow> bool"
    and crc :: "u8 list \<Rightarrow> checksum"
  assumes exists_law: "inv s \<Longrightarrow> n \<noteq> [] \<Longrightarrow>
      \<exists>s'. sa_exists api n s = (Inr (view s n \<noteq> None), s') \<and> inv s' \<and> view s' = view s"
    and read_law: "inv s \<Longrightarrow> n \<noteq> [] \<Longrightarrow> view s n = Some c \<Longrightarrow>
      \<exists>s'. sa_read api n insist s = (Inr c, s') \<and> inv s' \<and> view s' = view s"
    and write_law: "inv s \<Longrightarrow> n \<noteq> [] \<Longrightarrow> overwrite \<or> view s n = None \<Longrightarrow> cs = None \<or> cs = Some (crc c) \<Longrightarrow>
      \<exists>s'. sa_write api (Some c) n overwrite cs s = (Inr (), s') \<and> inv s' \<and> view s' = (view s)(n \<mapsto> c)"
    and remove_law: "inv s \<Longrightarrow> n \<noteq> [] \<Longrightarrow> may_not_exist \<or> view s n \<noteq> None \<Longrightarrow>
      \<exists>s'. sa_remove api n may_not_exist s = (Inr (), s') \<and> inv s' \<and> view s' = (view s)(n := None)"
begin

lemma read_after_write:
  assumes "inv s" and "n \<noteq> []" and "overwrite \<or> view s n = None"
  shows "\<exists>s' s''. sa_write api (Some c) n overwrite (Some (crc c)) s = (Inr (), s') \<and>
    sa_read api n insist s' = (Inr c, s'')"
  using write_law [OF assms, of "Some (crc c)" c] read_law [of _ n c insist] assms(2) by fastforce

end

definition backend_api :: "('b, 'c) bi_env \<Rightarrow> nat option \<Rightarrow> string \<Rightarrow> ('b, 'c) bi_state store_api" where
  "backend_api env params nspace =
     \<lparr>sa_exists = bi_objectExists env params nspace,
      sa_read = bi_read env params nspace,
      sa_write = (\<lambda>src name overwrite cs. bi_write env params nspace src name overwrite cs None),
      sa_remove = (\<lambda>name may_not_exist. bi_remove env params nspace name may_not_exist None)\<rparr>"

text \<open>A backend interface on a local store in which the namespace exists.\<close>

definition local_ok :: "local_env \<Rightarrow> (local_store, unit) bi_env \<Rightarrow> string \<Rightarrow> (local_store, unit) bi_state \<Rightarrow> bool" where
  "local_ok lenv env ns s \<longleftrightarrow> be_conn env = local_api lenv \<and> mkstemp_ok lenv \<and> 0 < le_page lenv \<and> random_ok env \<and>
     bi_pools s \<noteq> [] \<and> lo_ok (bi_store s) \<and> lo_root (bi_store s) \<and> map_of (lo_dirs (bi_store s)) ns \<noteq> None"

definition file_crc :: "local_env \<Rightarrow> u8 list \<Rightarrow> checksum" where
  "file_crc lenv c = CheckSum_update (te_hw (le_tlog lenv)) (te_addr (le_tlog lenv)) c CheckSum_new"

lemma retry_spec_ok: "op b = (Inr x, b') \<Longrightarrow> retry_spec k op b = (Inr x, b')"
  by (cases k) simp_all

lemma wrap_local:
  assumes "local_ok lenv env ns s" and "\<forall>b. lo_root b \<longrightarrow> lo_root (snd (op b))" and "op (bi_store s) = (Inr x, b')"
    and "lo_ok b'" and "map_of (lo_dirs b') ns \<noteq> None"
  shows "\<exists>s'. wrap env params ns (\<lambda>_. op) s = (Inr x, s') \<and> bi_store s' = b' \<and> local_ok lenv env ns s'"
proof -
  have c: "conn_ok env lo_root"
    using assms(1) by (auto simp: local_ok_def conn_ok_def local_api_def sbind_def sget_def sret_def)
  have l: "random_ok env" "bi_pools s \<noteq> []" "lo_root (bi_store s)" using assms(1) by (simp_all add: local_ok_def)
  have "lo_root b'" using assms(2,3) l(3) by (metis snd_conv)
  moreover obtain s' where "wrap env params ns (\<lambda>_. op) s = (Inr x, s')" "bi_store s' = b'"
      "length (bi_pools s') = length (bi_pools s)"
    using wrap_selector_ok [OF l(1) c assms(2) l(2,3) refl, of params "be_policy env" ns] retry_spec_ok [of op, OF assms(3)]
    unfolding wrap_def by fastforce
  ultimately show ?thesis using assms(1,4,5) by (auto simp: local_ok_def)
qed

lemma lc_write_run:
  assumes "lo_root b" and "map_of (lo_dirs b) ns \<noteq> None" and "overwrite \<or> lo_object b ns n = None"
    and "cs = None \<or> cs = Some (file_crc lenv c)" and "0 < le_page lenv"
  shows "\<exists>b'. lc_write lenv ns (Some c) n overwrite cs None b = (Inr (), b') \<and> map_of (lo_dirs b') ns \<noteq> None \<and>
    lo_object b' ns = (lo_object b ns)(n \<mapsto> c)"
  using assms
  by (auto simp: lc_write_def lc_copy_def lc_verify_tag_def sbind_def sget_def smod_def sret_def objectPath_cases
      on_lru_erase lo_object_put lo_dirs_put fun_eq_iff calculate_checksum_def checksum_pages_spec file_crc_def
      simp del: not_None_eq split: option.split)

lemma lc_remove_run:
  assumes "lo_root b" and "map_of (lo_dirs b) ns \<noteq> None" and "may \<or> lo_object b ns n \<noteq> None"
  shows "\<exists>b'. lc_remove lenv ns n may None b = (Inr (), b') \<and> map_of (lo_dirs b') ns \<noteq> None \<and>
    lo_object b' ns = (lo_object b ns)(n := None)"
  using assms
  by (auto simp: lc_remove_def lc_verify_tag_def lc_namespaceExists_def sbind_def sget_def smod_def sret_def
      objectPath_cases nspacePath_cases on_lru_erase lo_object_drop lo_dirs_drop fun_eq_iff
      simp del: not_None_eq)

lemma lc_queries_run:
  assumes "lo_root b" and "map_of (lo_dirs b) ns \<noteq> None"
  shows "lc_objectExists ns n b = (Inr (lo_object b ns n \<noteq> None), b)"
    and "n \<noteq> [] \<Longrightarrow> lo_object b ns n = Some c \<Longrightarrow> lc_read ns n b = (Inr c, b)"
  using assms
  by (simp_all add: lc_objectExists_def lc_namespaceExists_def lc_read_def checkedObjectPath_def sbind_def sget_def
      sret_def objectPath_cases nspacePath_cases)

lemma local_env_simps [simp]:
  "ca_objectExists (local_api lenv) c = lc_objectExists" "ca_write (local_api lenv) c = lc_write lenv"
  "ca_remove (local_api lenv) c = lc_remove lenv" "ca_read (local_api lenv) c ns n insist = lc_read ns n"
  by (simp_all add: local_api_def)

lemma local_object_store:
  "object_store (backend_api env params ns) (\<lambda>s. lo_object (bi_store s) ns) (local_ok lenv env ns) (file_crc lenv)"
proof
  fix s and n :: string
  assume inv: "local_ok lenv env ns s" and n: "n \<noteq> []"
  then have l: "be_conn env = local_api lenv" "lo_ok (bi_store s)" "lo_root (bi_store s)" "mkstemp_ok lenv"
    "map_of (lo_dirs (bi_store s)) ns \<noteq> None" "0 < le_page lenv" by (simp_all add: local_ok_def)
  note api = backend_api_def bi_objectExists_def bi_read_def bi_write_def bi_remove_def l(1)
  show "\<exists>s'. sa_exists (backend_api env params ns) n s = (Inr (lo_object (bi_store s) ns n \<noteq> None), s') \<and>
      local_ok lenv env ns s' \<and> lo_object (bi_store s') ns = lo_object (bi_store s) ns"
    using wrap_local [where op = "lc_objectExists ns n" and params = params, OF inv _ lc_queries_run(1) [OF l(3,5)] l(2,5)] by (auto simp: api)
  show "\<exists>s'. sa_read (backend_api env params ns) n insist s = (Inr c, s') \<and>
      local_ok lenv env ns s' \<and> lo_object (bi_store s') ns = lo_object (bi_store s) ns"
    if "lo_object (bi_store s) ns n = Some c" for c insist
    using wrap_local [where op = "lc_read ns n" and params = params, OF inv _ lc_queries_run(2) [OF l(3,5) n that] l(2,5)]
    by (auto simp: api handle_eventual_consistency_def scatch_def Let_def)
  show "\<exists>s'. sa_write (backend_api env params ns) (Some c) n overwrite cs s = (Inr (), s') \<and>
      local_ok lenv env ns s' \<and> lo_object (bi_store s') ns = (lo_object (bi_store s) ns)(n \<mapsto> c)"
    if "overwrite \<or> lo_object (bi_store s) ns n = None" "cs = None \<or> cs = Some (file_crc lenv c)" for c overwrite cs
  proof -
    from lc_write_run [OF l(3,5) that l(6)] obtain b' where
      b: "lc_write lenv ns (Some c) n overwrite cs None (bi_store s) = (Inr (), b')" "map_of (lo_dirs b') ns \<noteq> None"
        "lo_object b' ns = (lo_object (bi_store s) ns)(n \<mapsto> c)" by blast
    have "lo_ok b'" using lc_write_ok [OF l(2,4)] b(1) by (metis snd_conv)
    moreover have "\<forall>b. lo_root b \<longrightarrow> lo_root (snd (lc_write lenv ns (Some c) n overwrite cs None b))"
      by (auto simp: lc_write_def sbind_def sret_def sthrow_def split: option.split)
    ultimately show ?thesis using wrap_local [where op = "lc_write lenv ns (Some c) n overwrite cs None" and params = params, OF inv _ b(1) _ b(2)] b(3)
      by (auto simp: api)
  qed
  show "\<exists>s'. sa_remove (backend_api env params ns) n may s = (Inr (), s') \<and>
      local_ok lenv env ns s' \<and> lo_object (bi_store s') ns = (lo_object (bi_store s) ns)(n := None)"
    if "may \<or> lo_object (bi_store s) ns n \<noteq> None" for may
  proof -
    from lc_remove_run [OF l(3,5) that] obtain b' where
      b: "lc_remove lenv ns n may None (bi_store s) = (Inr (), b')" "map_of (lo_dirs b') ns \<noteq> None"
        "lo_object b' ns = (lo_object (bi_store s) ns)(n := None)" by blast
    have "lo_ok b'" using lc_remove_ok [OF l(2)] b(1) by (metis snd_conv)
    then show ?thesis using wrap_local [where op = "lc_remove lenv ns n may None" and params = params, OF inv _ b(1) _ b(2)] b(3)
      by (auto simp: api)
  qed
qed

interpretation local_backend: object_store "backend_api env params ns" "\<lambda>s. lo_object (bi_store s) ns"
  "local_ok lenv env ns" "file_crc lenv" for env params ns lenv
  by (rule local_object_store)

text \<open>
  C36. An object that is written through the backend interface to a local store, with its checksum, is what the
  next read of that name returns, whatever the pools, the settings and the other objects.
\<close>

theorem backend_read_after_write:
  assumes "local_ok lenv env ns s" and "n \<noteq> []" and "overwrite \<or> lo_object (bi_store s) ns n = None"
  shows "\<exists>s' s''. bi_write env params ns (Some c) n overwrite (Some (file_crc lenv c)) None s = (Inr (), s') \<and>
    bi_read env params ns n insist s' = (Inr c, s'')"
  using local_backend.read_after_write [OF assms, of params c insist] by (simp add: backend_api_def)

theorem backend_read_after_write_witness:
  "\<exists>s' s''. bi_write (ex_bi_env (local_api ex_local_env)) None ''n'' (Some [7]) ''o'' False
      (Some (file_crc ex_local_env [7])) None
      (ex_bi_state \<lparr>lo_root = True, lo_dirs = [(''n'', [])],
         lo_lru = \<lparr>lru_entries = [], lru_capacity = 32, lru_hits = 0, lru_misses = 0\<rparr>\<rparr>) = (Inr (), s') \<and>
    bi_read (ex_bi_env (local_api ex_local_env)) None ''n'' ''o'' True s' = (Inr [7], s'')"
  by (rule backend_read_after_write)
    (auto simp: local_ok_def mkstemp_ok_def ex_mkstemp_fresh random_ok_def ex_bi_env_def ex_bi_state_def ex_local_env_def
      lo_ok_def lru_ok_def lo_object_def)

end
