(* ===== verification/Scrub_Data.thy ===== *)
theory Scrub_Data
  imports Scrub_Metadata Backend_Interface TLogs "HOL-Library.Product_Lexorder"
begin

text \<open>
  The second half of a scrub: the data. \<^verbatim>\<open>SCOPool\<close> (src/src/volumedriver/SCOPool.cpp) decides which SCOs are
  worth keeping, copies the clusters of the others into new SCOs and writes TLogs of the clusters it left
  alone, of the new locations, and of the relocations; \<^verbatim>\<open>TLogCutter\<close> and \<^verbatim>\<open>TheSonOfTLogCutter\<close> cut a TLog in
  pieces and store them. The files of the \<^verbatim>\<open>FilePool\<close> are a map from names to contents, except for the TLogs
  that the scrubber writes, which are lists of entries as in the theory before.
\<close>

subsection \<open>The order of SCOs\<close>

definition sco_key :: "'a sco_scheme \<Rightarrow> u32 \<times> u8 \<times> u8 \<times> 'a" where
  "sco_key s = (sco_number s, sco_version s, sco_cloneID s, sco.more s)"

lemma sco_key_inj: "sco_key s = sco_key t \<longleftrightarrow> s = t"
  by (auto simp: sco_key_def)

instantiation sco_ext :: (linorder) linorder
begin

definition less_sco_ext :: "'a sco_scheme \<Rightarrow> 'a sco_scheme \<Rightarrow> bool" where
  "less_sco_ext s t \<longleftrightarrow> sco_key s < sco_key t"

definition less_eq_sco_ext :: "'a sco_scheme \<Rightarrow> 'a sco_scheme \<Rightarrow> bool" where
  "less_eq_sco_ext s t \<longleftrightarrow> sco_key s \<le> sco_key t"

instance
proof
  fix x y z :: "'a sco_scheme"
  show "x < y \<longleftrightarrow> x \<le> y \<and> \<not> y \<le> x" unfolding less_sco_ext_def less_eq_sco_ext_def by (rule less_le_not_le)
  show "x \<le> x" unfolding less_eq_sco_ext_def by (rule order_refl)
  show "x \<le> y \<Longrightarrow> y \<le> z \<Longrightarrow> x \<le> z" unfolding less_eq_sco_ext_def by (rule order_trans)
  show "x \<le> y \<Longrightarrow> y \<le> x \<Longrightarrow> x = y" unfolding less_eq_sco_ext_def sco_key_inj [symmetric] by (rule antisym)
  show "x \<le> y \<or> y \<le> x" unfolding less_eq_sco_ext_def by (rule linear)
qed

end

lemma SCO_less_order: "SCO_less s t \<longleftrightarrow> s < (t :: sco)"
  by (auto simp: SCO_less_def less_sco_ext_def sco_key_def less_prod_def less_eq_prod_def)

subsection \<open>Files of the pool\<close>

type_synonym file_pool = "string \<rightharpoonup> u8 list"

definition newFile :: "string \<Rightarrow> (file_pool, unit) sm" where
  "newFile name =
     sbind (sget (\<lambda>f. f name \<noteq> None)) (\<lambda>there.
     if there then sthrow (IOException ''File Exists'') else smod (\<lambda>f. f(name \<mapsto> [])))"

subsection \<open>The state of the pool of SCOs\<close>

text \<open>
  The parameters: the backend, the checksum code, the sizes, and the access data, whose floating point
  numbers \<open>'f\<close> come with the operations that the code uses on them.
\<close>

record ('b, 'f) pool_env =
  po_api :: "'b store_api"
  po_tlog :: tlog_env
  po_cluster_size :: u64
  po_sco_size :: u64
  po_minimum_used_entries :: u16
  po_access_data :: "sco \<Rightarrow> 'f"
  po_zero :: 'f
  po_add :: "'f \<Rightarrow> 'f \<Rightarrow> 'f"
  po_div :: "'f \<Rightarrow> u64 \<Rightarrow> 'f"

text \<open>
  The iterators are indices into \<open>sp_scodata\<close>. \<open>sp_current\<close> is the name of the file behind \<^verbatim>\<open>current_sco_\<close>, if
  it is open; an open file in \<open>sp_sconames\<close> is its content.
\<close>

record ('b, 'f) sco_pool =
  sp_backend :: 'b
  sp_files :: file_pool
  sp_scodata :: "scrub_sco list"
  sp_it :: nat
  sp_reuse :: nat
  sp_sconames :: "(sco \<times> u8 list option) list"
  sp_buffer :: "u8 list"
  sp_current :: "string option"
  sp_offset :: u16
  sp_name :: sco
  sp_usage :: u16
  sp_checksum :: checksum
  sp_nonrewritten :: entry_writer
  sp_rewritten :: entry_writer
  sp_relocations :: entry_writer
  sp_backend_size :: u64
  sp_access :: "(sco \<times> 'f) list"
  sp_new_scos :: "sco list"
  sp_scos_read :: u64
  sp_scos_written :: u64

definition on_backend :: "('b, 'a) sm \<Rightarrow> (('b, 'f) sco_pool, 'a) sm" where
  "on_backend m = szoom sp_backend (\<lambda>b s. s\<lparr>sp_backend := b\<rparr>) m"

definition on_files :: "(file_pool, 'a) sm \<Rightarrow> (('b, 'f) sco_pool, 'a) sm" where
  "on_files m = szoom sp_files (\<lambda>f s. s\<lparr>sp_files := f\<rparr>) m"

text \<open>The constructor keeps the last SCO from being scrubbed.\<close>

fun keep_last_sco :: "sco \<Rightarrow> scrub_sco list \<Rightarrow> scrub_sco list result" where
  "keep_last_sco lastSCOName [] = Inr []"
| "keep_last_sco lastSCOName (d # ds) =
     rbind (verify (sco_number (sd_sconame d) \<le> sco_number lastSCOName) ''it->sconame_.number() <= lastSCOName.number()'') (\<lambda>_.
     rbind (keep_last_sco lastSCOName ds) (\<lambda>ds'.
       Inr ((if sd_sconame d = lastSCOName then d\<lparr>sd_state := NotScrubbed\<rparr> else d) # ds')))"

definition SCOPool_new :: "('b, 'f) pool_env \<Rightarrow> scrub_sco list \<Rightarrow> sco \<Rightarrow> sco list \<Rightarrow> 'b \<Rightarrow> file_pool \<Rightarrow> u16 \<Rightarrow>
    ('b, 'f) sco_pool result" where
  "SCOPool_new env scos lastSCOName new_scos b files usage =
     rbind (keep_last_sco lastSCOName scos) (\<lambda>ds.
       Inr \<lparr>sp_backend = b, sp_files = files, sp_scodata = ds, sp_it = 0, sp_reuse = 0, sp_sconames = [],
            sp_buffer = replicate (unat (po_cluster_size env)) 0, sp_current = None, sp_offset = 0,
            sp_name = SCO_new 0 0 0, sp_usage = usage, sp_checksum = CheckSum_new, sp_nonrewritten = ew_new,
            sp_rewritten = ew_new, sp_relocations = ew_new, sp_backend_size = 0, sp_access = [],
            sp_new_scos = new_scos, sp_scos_read = 0, sp_scos_written = 0\<rparr>)"

subsection \<open>A name for a new SCO\<close>

definition nextVersion :: "u8 \<Rightarrow> u8" where
  "nextVersion v = (if v = 255 then 0 else v + 1)"

fun new_name_loop :: "'b store_api \<Rightarrow> sco \<Rightarrow> nat \<Rightarrow> u8 \<Rightarrow> ('b, sco) sm" where
  "new_name_loop api s 0 version = sthrow (IOException ''Could not create a new SCOName'')"
| "new_name_loop api s (Suc k) version =
     (let version' = nextVersion version; sconame = SCO_new (sco_number s) (sco_cloneID s) version'
      in sbind (sa_exists api (SCO_str sconame)) (\<lambda>there.
         if \<not> there then sret sconame else new_name_loop api s k version'))"

definition makeNewSCOName :: "'b store_api \<Rightarrow> sco \<Rightarrow> ('b, sco) sm" where
  "makeNewSCOName api s = new_name_loop api s 255 (sco_version s)"

subsection \<open>The new SCO\<close>

text \<open>\<^verbatim>\<open>new_sco_access_data[k] op= x\<close>, which makes an entry where there is none.\<close>

definition access_update :: "('b, 'f) pool_env \<Rightarrow> sco \<Rightarrow> ('f \<Rightarrow> 'f) \<Rightarrow> (('b, 'f) sco_pool, unit) sm" where
  "access_update env k f =
     smod (\<lambda>s. s\<lparr>sp_access := std_map_insert k
       (f (case map_of (sp_access s) k of None \<Rightarrow> po_zero env | Some x \<Rightarrow> x)) (sp_access s)\<rparr>)"

text \<open>Storing the SCO that was written so far.\<close>

definition store_current_sco :: "('b, 'f) pool_env \<Rightarrow> u64 \<Rightarrow> string \<Rightarrow> (('b, 'f) sco_pool, unit) sm" where
  "store_current_sco env divisor path =
     sbind (sget sp_name) (\<lambda>name.
     sbind (access_update env name (\<lambda>x. po_div env x divisor)) (\<lambda>_.
     sbind (smod (\<lambda>s. s\<lparr>sp_scos_written := sp_scos_written s + 1\<rparr>)) (\<lambda>_.
     sbind (on_backend (sa_exists (po_api env) (SCO_str name))) (\<lambda>there.
     sbind (sverify (\<not> there) ''not backendinterface_.objectExists(current_sco_name_.str())'') (\<lambda>_.
     sbind (sget (\<lambda>s. (sp_files s path, sp_checksum s))) (\<lambda>(content, checksum).
     sbind (on_backend (sa_write (po_api env) content (SCO_str name) True (Some checksum))) (\<lambda>_.
       smod (\<lambda>s. s\<lparr>sp_new_scos := sp_new_scos s @ [name]\<rparr>))))))))"

text \<open>
  The loop looks at the state of the SCO before it compares the iterator with the end. The number of SCOs
  from the iterator on is given.
\<close>

fun reuse_loop :: "nat \<Rightarrow> (('b, 'f) sco_pool, unit) sm" where
  "reuse_loop 0 = sthrow UndefinedBehaviour"
| "reuse_loop (Suc k) =
     sbind (sget (\<lambda>s. sd_state (sp_scodata s ! sp_reuse s))) (\<lambda>st.
     if st = Scrubbed then sret ()
     else sbind (smod (\<lambda>s. s\<lparr>sp_reuse := sp_reuse s + 1\<rparr>)) (\<lambda>_. reuse_loop k))"

definition set_sco_state :: "nat \<Rightarrow> scrub_state \<Rightarrow> (('b, 'f) sco_pool, unit) sm" where
  "set_sco_state i st =
     smod (\<lambda>s. s\<lparr>sp_scodata := (sp_scodata s)[i := (sp_scodata s ! i)\<lparr>sd_state := st\<rparr>]\<rparr>)"

definition finish_current_sco :: "('b, 'f) pool_env \<Rightarrow> string \<Rightarrow> (('b, 'f) sco_pool, unit) sm" where
  "finish_current_sco env path =
     sbind (smod (\<lambda>s. s\<lparr>sp_current := None\<rparr>)) (\<lambda>_.
     sbind (sverify (po_sco_size env > 0) ''sco_size_ > 0'') (\<lambda>_.
     sbind (store_current_sco env (po_sco_size env) path) (\<lambda>_.
       smod (\<lambda>s. s\<lparr>sp_files := (sp_files s)(SCO_str (sp_name s) := None)\<rparr>))))"

definition start_new_sco :: "('b, 'f) pool_env \<Rightarrow> (('b, 'f) sco_pool, unit) sm" where
  "start_new_sco env =
     sbind (smod (\<lambda>s. s\<lparr>sp_offset := 0\<rparr>)) (\<lambda>_.
     sbind (sget (\<lambda>s. length (sp_scodata s) - sp_reuse s)) (\<lambda>k.
     sbind (reuse_loop k) (\<lambda>_.
     sbind (sget (\<lambda>s. (sp_reuse s, sp_it s, length (sp_scodata s)))) (\<lambda>(reuse, it, n).
     sbind (sverify (reuse \<noteq> n) ''to_be_reused_iterator_ != scodata_.end()'') (\<lambda>_.
     sbind (sverify (reuse \<le> it) ''to_be_reused_iterator_ <= scodata_iterator_'') (\<lambda>_.
     sbind (set_sco_state reuse Reused) (\<lambda>_.
     sbind (sget (\<lambda>s. sd_sconame (sp_scodata s ! reuse))) (\<lambda>old.
     sbind (on_backend (makeNewSCOName (po_api env) old)) (\<lambda>name.
     sbind (smod (\<lambda>s. s\<lparr>sp_name := name\<rparr>)) (\<lambda>_.
     sbind (on_files (newFile (SCO_str name))) (\<lambda>_.
       smod (\<lambda>s. s\<lparr>sp_current := Some (SCO_str name), sp_checksum := CheckSum_new\<rparr>))))))))))))"

definition MaybeUpdateCurrentSCO :: "('b, 'f) pool_env \<Rightarrow> (('b, 'f) sco_pool, unit) sm" where
  "MaybeUpdateCurrentSCO env =
     sbind (sget (\<lambda>s. (sp_current s, sp_offset s))) (\<lambda>(current, offset).
     if current = None \<or> ucast offset \<ge> po_sco_size env
     then sbind (case current of None \<Rightarrow> sret () | Some path \<Rightarrow> finish_current_sco env path) (\<lambda>_. start_new_sco env)
     else sret ())"

subsection \<open>One entry\<close>

text \<open>The loop that moves \<^verbatim>\<open>scodata_iterator_\<close> to the SCO; the number of SCOs from the iterator on is given.\<close>

fun advance_loop :: "sco \<Rightarrow> nat \<Rightarrow> (('b, 'f) sco_pool, unit) sm" where
  "advance_loop sco_name 0 = sret ()"
| "advance_loop sco_name (Suc k) =
     sbind (sget (\<lambda>s. (sp_scodata s ! sp_it s, sp_it s, sp_usage s))) (\<lambda>(d, it, usage).
     if sd_sconame d = sco_name then sret ()
     else
       sbind (if sd_state d = Unknown
              then sbind (sverify (sd_usageCount d = 0) ''scodata_iterator_->usageCount == 0'') (\<lambda>_. set_sco_state it Scrubbed)
              else sverify (usage = 0) ''current_usage_count_ == 0'') (\<lambda>_.
       sbind (smod (\<lambda>s. s\<lparr>sp_it := sp_it s + 1\<rparr>)) (\<lambda>_. advance_loop sco_name k)))"

text \<open>The content of the old SCO, which is fetched from the backend when the last one was another.\<close>

definition fetch_sco :: "('b, 'f) pool_env \<Rightarrow> sco \<Rightarrow> (('b, 'f) sco_pool, u8 list) sm" where
  "fetch_sco env sco_name =
     sbind (sget sp_sconames) (\<lambda>names.
     case map_of names sco_name of
       None \<Rightarrow>
         sbind (if names = [] then sret ()
                else smod (\<lambda>s. s\<lparr>sp_sconames := butlast names @ [(fst (last names), None)],
                                sp_files := (sp_files s)(SCO_str (fst (last names)) := None)\<rparr>)) (\<lambda>_.
         sbind (on_files (newFile (SCO_str sco_name))) (\<lambda>_.
         sbind (on_backend (sa_read (po_api env) (SCO_str sco_name) False)) (\<lambda>content.
         sbind (smod (\<lambda>s. s\<lparr>sp_files := (sp_files s)(SCO_str sco_name \<mapsto> content), sp_scos_read := sp_scos_read s + 1,
                  sp_sconames := std_map_insert sco_name (Some content) (sp_sconames s)\<rparr>)) (\<lambda>_.
           sret content))))
     | Some fd \<Rightarrow>
         sbind (sverify (sco_name = fst (last names)) ''it->first == sconame_map_.rbegin()->first'') (\<lambda>_.
         sbind (sverify (fd \<noteq> None) ''it->second != nullptr'') (\<lambda>_. sret (the fd))))"

text \<open>
  Copying a cluster. A short read of the old SCO leaves the rest of the buffer as it was.
\<close>

definition write_cluster :: "('b, 'f) pool_env \<Rightarrow> entry \<Rightarrow> u64 \<Rightarrow> (('b, 'f) sco_pool, unit) sm" where
  "write_cluster env e ca =
     sbind (sget sp_name) (\<lambda>name.
     sbind (access_update env name (\<lambda>x. po_add env x (po_access_data env (cl_sco (clusterLocation (e_loc e)))))) (\<lambda>_.
     sbind (sget (\<lambda>s. (sp_current s, take (unat (po_cluster_size env)) (sp_buffer s), sp_offset s))) (\<lambda>(current, buffer, offset).
     case current of
       None \<Rightarrow> sthrow UndefinedBehaviour
     | Some path \<Rightarrow>
         sbind (smod (\<lambda>s. s\<lparr>sp_files := (sp_files s)(path := map_option (\<lambda>c. c @ buffer) (sp_files s path)),
            sp_checksum := CheckSum_update (te_hw (po_tlog env)) (te_addr (po_tlog env)) buffer (sp_checksum s)\<rparr>)) (\<lambda>_.
         let loc_and_hash = \<lparr>clusterLocation = \<lparr>cl_offset = offset, cl_sco = name\<rparr>, weed = weed (e_loc e)\<rparr>
         in sbind (szoom sp_rewritten (\<lambda>w s. s\<lparr>sp_rewritten := w\<rparr>) (ew_add ca loc_and_hash)) (\<lambda>_.
            sbind (szoom sp_relocations (\<lambda>w s. s\<lparr>sp_relocations := w\<rparr>) (ew_add ca (e_loc e))) (\<lambda>_.
            sbind (szoom sp_relocations (\<lambda>w s. s\<lparr>sp_relocations := w\<rparr>) (ew_add ca loc_and_hash)) (\<lambda>_.
              smod (\<lambda>s. s\<lparr>sp_offset := sp_offset s + 1\<rparr>))))))))"

definition rewrite_cluster :: "('b, 'f) pool_env \<Rightarrow> entry \<Rightarrow> u64 \<Rightarrow> (('b, 'f) sco_pool, unit) sm" where
  "rewrite_cluster env e ca =
     (let location = clusterLocation (e_loc e)
      in sbind (fetch_sco env (cl_sco location)) (\<lambda>content.
         let sco_offset = ucast (cl_offset location) * po_cluster_size env;
             bytes = fd_pread content (unat (po_cluster_size env)) (unat sco_offset)
         in sbind (smod (\<lambda>s. s\<lparr>sp_buffer := bytes @ drop (length bytes) (sp_buffer s)\<rparr>)) (\<lambda>_.
            sbind (MaybeUpdateCurrentSCO env) (\<lambda>_. write_cluster env e ca))))"

text \<open>The first half of \<^verbatim>\<open>doEntry\<close>: find the SCO in the table and decide what to do with it.\<close>

definition classify_sco :: "('b, 'f) pool_env \<Rightarrow> sco \<Rightarrow> (('b, 'f) sco_pool, scrub_state) sm" where
  "classify_sco env sco_name =
     sbind (sget (\<lambda>s. length (sp_scodata s) - sp_it s)) (\<lambda>k.
     sbind (advance_loop sco_name k) (\<lambda>_.
     sbind (sget (\<lambda>s. (sp_it s, length (sp_scodata s)))) (\<lambda>(it, n).
     sbind (sverify (it \<noteq> n) ''scodata_iterator_ != scodata_.end()'') (\<lambda>_.
     sbind (sget (\<lambda>s. sp_scodata s ! it)) (\<lambda>d.
     sbind (sverify (sd_usageCount d \<noteq> 0) ''scodata_iterator_->usageCount != 0'') (\<lambda>_.
     sbind (if sd_state d = Unknown
            then sbind (set_sco_state it
                   (if sd_usageCount d < po_minimum_used_entries env then Scrubbed else NotScrubbed)) (\<lambda>_.
                 smod (\<lambda>s. s\<lparr>sp_usage := sd_usageCount d\<rparr>))
            else sret ()) (\<lambda>_.
       sget (\<lambda>s. sd_state (sp_scodata s ! it)))))))))"

definition SCOPool_doEntry :: "('b, 'f) pool_env \<Rightarrow> entry \<Rightarrow> (('b, 'f) sco_pool, unit) sm" where
  "SCOPool_doEntry env e =
     sbind (smod (\<lambda>s. s\<lparr>sp_backend_size := sp_backend_size s + po_cluster_size env\<rparr>)) (\<lambda>_.
     sbind (classify_sco env (cl_sco (clusterLocation (e_loc e)))) (\<lambda>st.
     sbind (slift (Entry_clusterAddress e)) (\<lambda>ca.
     sbind (if st = Scrubbed \<or> st = Reused then rewrite_cluster env e ca
            else if st = NotScrubbed
            then szoom sp_nonrewritten (\<lambda>w s. s\<lparr>sp_nonrewritten := w\<rparr>) (ew_add ca (e_loc e))
            else sthrow (AssertFailed ''We should not get here'')) (\<lambda>_.
       smod (\<lambda>s. s\<lparr>sp_usage := sp_usage s - 1\<rparr>)))))"

text \<open>
  \<^verbatim>\<open>operator()\<close> for the entries of the TLog. The three new TLogs start empty; their files are the writers. The
  result is the checksum of the relocations and their number.
\<close>

definition ew_checksum :: "tlog_env \<Rightarrow> entry_writer \<Rightarrow> checksum" where
  "ew_checksum env w = CheckSum_update (te_hw env) (te_addr env) (entries_bytes (te_hash env) (ew_entries w)) CheckSum_new"

definition SCOPool_finish :: "('b, 'f) pool_env \<Rightarrow> (('b, 'f) sco_pool, checksum \<times> u64) sm" where
  "SCOPool_finish env =
     sbind (sget (\<lambda>s. (sp_it s, length (sp_scodata s)))) (\<lambda>(it, n).
     sbind (if it = n then sret () else smod (\<lambda>s. s\<lparr>sp_it := it + 1\<rparr>)) (\<lambda>_.
     sbind (sverify (it = n \<or> it + 1 = n) ''scodata_iterator_ == scodata_.end() or ++scodata_iterator_ == scodata_.end()'') (\<lambda>_.
     sbind (sget (\<lambda>s. (ew_checksum (po_tlog env) (sp_relocations s), of_nat (length (ew_entries (sp_relocations s))) div 2)))
       (\<lambda>result.
     sbind (sget (\<lambda>s. (sp_offset s, sp_current s))) (\<lambda>(offset, current).
     sbind (if offset > 0
            then (case current of
                    None \<Rightarrow> sthrow UndefinedBehaviour
                  | Some path \<Rightarrow> store_current_sco env (ucast offset) path)
            else sret ()) (\<lambda>_.
     sbind (smod (\<lambda>s. s\<lparr>sp_current := None\<rparr>)) (\<lambda>_. sret result)))))))"

definition SCOPool_run :: "('b, 'f) pool_env \<Rightarrow> entry list \<Rightarrow> (('b, 'f) sco_pool, checksum \<times> u64) sm" where
  "SCOPool_run env es =
     sbind (on_files (newFile ''nonrewritten_tlog'')) (\<lambda>_.
     sbind (on_files (newFile ''rewritten_tlog'')) (\<lambda>_.
     sbind (on_files (newFile ''relocations_tlog'')) (\<lambda>_.
     sbind (smod (\<lambda>s. s\<lparr>sp_nonrewritten := ew_new, sp_rewritten := ew_new, sp_relocations := ew_new, sp_it := 0,
              sp_reuse := 0, sp_usage := 0\<rparr>)) (\<lambda>_.
     sbind (sfor (filter isLocation es) (SCOPool_doEntry env)) (\<lambda>_. SCOPool_finish env)))))"

fun getSCONamesToBeDeleted :: "scrub_sco list \<Rightarrow> sco list \<Rightarrow> sco list result" where
  "getSCONamesToBeDeleted [] out = Inr out"
| "getSCONamesToBeDeleted (d # ds) out =
     rbind (verify (sd_state d \<noteq> Unknown) ''it->state != scrubbing::ScrubbingSCOData::State::Unknown'') (\<lambda>_.
       getSCONamesToBeDeleted ds
         (if sd_state d = Scrubbed \<or> sd_state d = Reused then out @ [sd_sconame d] else out))"

end
