(* ===== verification/TLog_Cutters.thy ===== *)
theory TLog_Cutters
  imports Scrub_Data
begin

text \<open>
  Cutting a TLog in pieces that are stored on the backend: \<^verbatim>\<open>TLogCutter\<close> (src/src/volumedriver/TLogCutter.cpp) for
  the scrubbed TLog, which never separates the locations of one SCO, and \<^verbatim>\<open>TheSonOfTLogCutter\<close>
  (TheSonOfTLogCutter.cpp) for the relocations, which never separates a pair. The two classes have the same loop
  over their own \<^verbatim>\<open>makeNewTLog\<close> and \<^verbatim>\<open>writeTLogToBackend\<close>.

  New TLogs get random UUIDs. These and their text are parameters: \<open>cu_uuid\<close> is a function of how many were drawn.
\<close>

subsection \<open>The cutters\<close>

record 'b cut_env =
  cu_api :: "'b store_api"
  cu_tlog :: tlog_env
  cu_uuid :: "nat \<Rightarrow> uuid"
  cu_text :: "uuid \<Rightarrow> string"
  cu_cluster_size :: u64
  cu_max_entries :: u64

record 'b cutter =
  ct_backend :: 'b
  ct_files :: file_pool
  ct_uuids :: nat
  ct_tlogs :: tlogs
  ct_names :: "string list"
  ct_writer :: "entry_writer option"

text \<open>The default of the constructors.\<close>

definition default_max_entries :: u64 where
  "default_max_entries = 4194304"

definition tlog_name :: "'b cut_env \<Rightarrow> uuid \<Rightarrow> string" where
  "tlog_name env tlog_id = ''tlog_'' @ cu_text env tlog_id"

definition ct_new_uuid :: "'b cut_env \<Rightarrow> ('b cutter, uuid) sm" where
  "ct_new_uuid env s = (Inr (cu_uuid env (ct_uuids s)), s\<lparr>ct_uuids := ct_uuids s + 1\<rparr>)"

definition ct_on_files :: "(file_pool, 'a) sm \<Rightarrow> ('b cutter, 'a) sm" where
  "ct_on_files m = szoom ct_files (\<lambda>f s. s\<lparr>ct_files := f\<rparr>) m"

definition ct_on_backend :: "('b, 'a) sm \<Rightarrow> ('b cutter, 'a) sm" where
  "ct_on_backend m = szoom ct_backend (\<lambda>b s. s\<lparr>ct_backend := b\<rparr>) m"

text \<open>Adding an entry to the TLog that is being written.\<close>

definition ct_add :: "entry \<Rightarrow> ('b cutter, unit) sm" where
  "ct_add e =
     sbind (sget ct_writer) (\<lambda>w.
     case w of
       None \<Rightarrow> sthrow UndefinedBehaviour
     | Some w \<Rightarrow> szoom (\<lambda>_. w) (\<lambda>w s. s\<lparr>ct_writer := Some w\<rparr>) (ew_copy e))"

text \<open>
  The loop. \<open>cond\<close> looks at \<^verbatim>\<open>entries_written\<close>, the number of the SCO before and the entry; \<open>next_tlog\<close> stores the TLog
  and starts the next one.
\<close>

fun cut_loop :: "(u64 \<Rightarrow> u32 \<Rightarrow> entry \<Rightarrow> bool) \<Rightarrow> ('s, unit) sm \<Rightarrow> (entry \<Rightarrow> ('s, unit) sm) \<Rightarrow> entry list \<Rightarrow> u64 \<Rightarrow> u32 \<Rightarrow>
    ('s, unit) sm" where
  "cut_loop cond next_tlog add [] entries_written prev_sco_num = sret ()"
| "cut_loop cond next_tlog add (e # es) entries_written prev_sco_num =
     sbind (if cond entries_written prev_sco_num e then sbind next_tlog (\<lambda>_. sret 0) else sret entries_written) (\<lambda>n.
     sbind (add e) (\<lambda>_. cut_loop cond next_tlog add es (n + 1) (sco_number (cl_sco (clusterLocation (e_loc e))))))"

text \<open>\<^verbatim>\<open>TLogCutter\<close>\<close>

definition TLogCutter_makeNewTLog :: "'b cut_env \<Rightarrow> ('b cutter, unit) sm" where
  "TLogCutter_makeNewTLog env =
     sbind (ct_new_uuid env) (\<lambda>tlog_id.
     sbind (ct_on_files (newFile (tlog_name env tlog_id))) (\<lambda>_.
       smod (\<lambda>s. s\<lparr>ct_writer := Some ew_new, ct_tlogs := ct_tlogs s @ [TLog_new tlog_id]\<rparr>)))"

definition TLogCutter_writeTLogToBackend :: "'b cut_env \<Rightarrow> ('b cutter, unit) sm" where
  "TLogCutter_writeTLogToBackend env =
     sbind (sget (\<lambda>s. (ct_writer s, ct_tlogs s))) (\<lambda>(writer, tlogs).
     sbind (sverify (writer \<noteq> None) ''tlog_writer.get()'') (\<lambda>_.
     sbind (sverify (tlogs \<noteq> []) ''!tlogs_.empty()'') (\<lambda>_.
     let name = tlog_name env (tl_id (last tlogs)); w = the writer
     in sbind (ct_on_backend (sa_exists (cu_api env) name)) (\<lambda>there.
        sbind (sverify (\<not> there) ''not bi_.objectExists(tlogs_.back().getName())'') (\<lambda>_.
        sbind (ct_on_backend (sa_write (cu_api env) (Some (entries_bytes (te_hash (cu_tlog env)) (ew_entries w))) name False
                 (Some (ew_checksum (cu_tlog env) w)))) (\<lambda>_.
          smod (\<lambda>s. s\<lparr>ct_tlogs := butlast tlogs @ [(last tlogs)\<lparr>written_to_backend := True\<rparr>]\<rparr>)))))))"

definition TLogCutter_add :: "'b cut_env \<Rightarrow> entry \<Rightarrow> ('b cutter, unit) sm" where
  "TLogCutter_add env e =
     sbind (ct_add e) (\<lambda>_.
       smod (\<lambda>s. s\<lparr>ct_tlogs := butlast (ct_tlogs s) @ [add_to_backend_size (cu_cluster_size env) (last (ct_tlogs s))]\<rparr>))"

definition TLogCutter_cond :: "'b cut_env \<Rightarrow> u64 \<Rightarrow> u32 \<Rightarrow> entry \<Rightarrow> bool" where
  "TLogCutter_cond env entries_written prev_sco_num e \<longleftrightarrow>
     entries_written \<ge> cu_max_entries env \<and> prev_sco_num \<noteq> sco_number (cl_sco (clusterLocation (e_loc e)))"

definition cutter_run :: "(u64 \<Rightarrow> u32 \<Rightarrow> entry \<Rightarrow> bool) \<Rightarrow> ('s, unit) sm \<Rightarrow> ('s, unit) sm \<Rightarrow> (entry \<Rightarrow> ('s, unit) sm) \<Rightarrow>
    entry list \<Rightarrow> ('s, unit) sm" where
  "cutter_run cond make_new put add es =
     sbind make_new (\<lambda>_.
     sbind (cut_loop cond (sbind put (\<lambda>_. make_new)) add (filter isLocation es) 0 0) (\<lambda>_. put))"

definition TLogCutter_run :: "'b cut_env \<Rightarrow> entry list \<Rightarrow> ('b cutter, tlogs) sm" where
  "TLogCutter_run env es =
     sbind (cutter_run (TLogCutter_cond env) (TLogCutter_makeNewTLog env) (TLogCutter_writeTLogToBackend env)
       (TLogCutter_add env) es) (\<lambda>_. sget ct_tlogs)"

text \<open>\<^verbatim>\<open>TheSonOfTLogCutter\<close>\<close>

definition Son_makeNewTLog :: "'b cut_env \<Rightarrow> ('b cutter, unit) sm" where
  "Son_makeNewTLog env =
     sbind (ct_new_uuid env) (\<lambda>new_id.
     sbind (ct_on_files (newFile (tlog_name env new_id))) (\<lambda>_.
       smod (\<lambda>s. s\<lparr>ct_writer := Some ew_new, ct_names := ct_names s @ [''relocation_'' @ tlog_name env new_id]\<rparr>)))"

definition Son_writeTLogToBackend :: "'b cut_env \<Rightarrow> ('b cutter, unit) sm" where
  "Son_writeTLogToBackend env =
     sbind (sget (\<lambda>s. (ct_writer s, ct_names s))) (\<lambda>(writer, names).
     sbind (sverify (writer \<noteq> None) ''tlog_writer.get()'') (\<lambda>_.
     sbind (sverify (names \<noteq> []) ''!tlog_names_.empty()'') (\<lambda>_.
     let name = last names; w = the writer
     in sbind (ct_on_backend (sa_exists (cu_api env) name)) (\<lambda>there.
        sbind (sverify (\<not> there) ''not bi_->objectExists(tlog_names_.back())'') (\<lambda>_.
          ct_on_backend (sa_write (cu_api env) (Some (entries_bytes (te_hash (cu_tlog env)) (ew_entries w))) name True
            (Some (ew_checksum (cu_tlog env) w))))))))"

definition Son_cond :: "'b cut_env \<Rightarrow> u64 \<Rightarrow> u32 \<Rightarrow> entry \<Rightarrow> bool" where
  "Son_cond env entries_written prev_sco_num e \<longleftrightarrow> entries_written \<ge> cu_max_entries env \<and> entries_written mod 2 = 0"

definition TheSonOfTLogCutter_run :: "'b cut_env \<Rightarrow> entry list \<Rightarrow> ('b cutter, unit) sm" where
  "TheSonOfTLogCutter_run env es =
     cutter_run (Son_cond env) (Son_makeNewTLog env) (Son_writeTLogToBackend env) ct_add es"

subsection \<open>The pieces\<close>

text \<open>A list in pieces, where \<open>c\<close> says of the piece so far and the next element whether there is a cut.\<close>

fun cuts :: "('a list \<Rightarrow> 'a \<Rightarrow> bool) \<Rightarrow> 'a list \<Rightarrow> 'a list \<Rightarrow> 'a list list" where
  "cuts c cur [] = [cur]"
| "cuts c cur (x # xs) = (if c cur x then cur # cuts c [x] xs else cuts c (cur @ [x]) xs)"

lemma cuts_nonempty [simp]: "cuts c cur xs \<noteq> []"
  by (induction c cur xs rule: cuts.induct) auto

lemma concat_cuts: "concat (cuts c cur xs) = cur @ xs"
  by (induction c cur xs rule: cuts.induct) auto

lemma length_cuts: "length (cuts c cur xs) \<le> length xs + 1"
  by (induction c cur xs rule: cuts.induct) auto

text \<open>A cut is only where the condition holds, and a piece is empty only when the list is.\<close>

lemma cuts_hd: "cur \<noteq> [] \<Longrightarrow> hd (cuts c cur xs) \<noteq> [] \<and> hd (hd (cuts c cur xs)) = hd cur"
  by (induction c cur xs rule: cuts.induct) auto

lemma cuts_between:
  assumes "cuts c cur xs = us @ p # q # vs" and "cur \<noteq> [] \<or> (\<forall>x. \<not> c [] x)"
  shows "p \<noteq> [] \<and> q \<noteq> [] \<and> c p (hd q)"
  using assms
proof (induction c cur xs arbitrary: us rule: cuts.induct)
  case (2 c cur x xs)
  show ?case
  proof (cases "c cur x")
    case cut: True
    then have cur: "cur \<noteq> []" using "2.prems"(2) by auto
    show ?thesis
    proof (cases us)
      case Nil
      with cut "2.prems"(1) have "p = cur" "cuts c [x] xs = q # vs" by simp_all
      then show ?thesis using cuts_hd [of "[x]" c xs] cut cur by simp
    next
      case (Cons u us')
      with cut "2.prems"(1) have "cuts c [x] xs = us' @ p # q # vs" by simp
      with "2.IH"(1) [OF cut] show ?thesis by simp
    qed
  next
    case False
    with "2.IH"(2) [OF False] "2.prems"(1) show ?thesis by simp
  qed
qed simp

subsection \<open>What a cutter needs of its operations\<close>

text \<open>
  \<open>ready ps\<close>: the pieces \<open>ps\<close> are stored and no TLog is being written. \<open>opened ps cur\<close>: a TLog with the entries \<open>cur\<close>
  is being written after these. There is room for \<open>room\<close> pieces: so many names are free.
\<close>

locale tlog_cutter =
  fixes make_new :: "('s, unit) sm"
    and put :: "('s, unit) sm"
    and add :: "entry \<Rightarrow> ('s, unit) sm"
    and room :: nat
    and ready :: "entry list list \<Rightarrow> 's \<Rightarrow> bool"
    and opened :: "entry list list \<Rightarrow> entry list \<Rightarrow> 's \<Rightarrow> bool"
  assumes make_law: "ready ps s \<Longrightarrow> length ps < room \<Longrightarrow> \<exists>s'. make_new s = (Inr (), s') \<and> opened ps [] s'"
    and write_law: "opened ps xs s \<Longrightarrow> \<exists>s'. put s = (Inr (), s') \<and> ready (ps @ [xs]) s'"
    and add_law: "opened ps xs s \<Longrightarrow> good_entry e \<Longrightarrow> \<exists>s'. add e s = (Inr (), s') \<and> opened ps (xs @ [e]) s'"
begin

lemma cut_loop_ok:
  assumes "opened ps cur s" and "\<forall>e \<in> set es. good_entry e" and "length cur + length es < 2 ^ 64"
    and "prev = (if cur = [] then 0 else sco_number (entry_sco (last cur)))" and "length ps + length (cuts c cur es) \<le> room"
    and "\<And>xs e. c xs e = cond (of_nat (length xs)) (if xs = [] then 0 else sco_number (entry_sco (last xs))) e"
  shows "\<exists>s'. cut_loop cond (sbind put (\<lambda>_. make_new)) add es (of_nat (length cur)) prev s = (Inr (), s') \<and>
    opened (ps @ butlast (cuts c cur es)) (last (cuts c cur es)) s'"
  using assms(1-5)
proof (induction es arbitrary: ps cur s prev)
  case (Cons e es)
  have good: "good_entry e" "\<forall>e \<in> set es. good_entry e" using Cons.prems(2) by simp_all
  have c: "c cur e = cond (of_nat (length cur)) prev e" using assms(6) Cons.prems(4) by simp
  show ?case
  proof (cases "c cur e")
    case True
    from write_law [OF Cons.prems(1)] obtain s1 where s1: "put s = (Inr (), s1)" "ready (ps @ [cur]) s1" by blast
    have room: "length (ps @ [cur]) + length (cuts c [e] es) \<le> room" using Cons.prems(5) True by simp
    moreover have "0 < length (cuts c [e] es)" by simp
    ultimately have "length (ps @ [cur]) < room" by linarith
    from make_law [OF s1(2) this] obtain s2 where s2: "make_new s1 = (Inr (), s2)" "opened (ps @ [cur]) [] s2" by blast
    from add_law [OF s2(2) good(1)] obtain s3 where s3: "add e s2 = (Inr (), s3)" "opened (ps @ [cur]) [e] s3" by auto
    from Cons.IH [OF s3(2) good(2) _ _ room] Cons.prems(3) obtain s' where
      "cut_loop cond (sbind put (\<lambda>_. make_new)) add es (of_nat (length [e])) (sco_number (entry_sco e)) s3 = (Inr (), s')"
      "opened ((ps @ [cur]) @ butlast (cuts c [e] es)) (last (cuts c [e] es)) s'" by auto
    with True c s1 s2 s3 show ?thesis by (auto simp: sbind_run sret_def)
  next
    case False
    from add_law [OF Cons.prems(1) good(1)] obtain s3 where s3: "add e s = (Inr (), s3)" "opened ps (cur @ [e]) s3" by auto
    from Cons.IH [OF s3(2) good(2)] Cons.prems(3,5) False obtain s' where
      "cut_loop cond (sbind put (\<lambda>_. make_new)) add es (of_nat (length (cur @ [e]))) (sco_number (entry_sco e)) s3 = (Inr (), s')"
      "opened (ps @ butlast (cuts c (cur @ [e]) es)) (last (cuts c (cur @ [e]) es)) s'" by auto
    with False c s3 show ?thesis by (auto simp: sbind_run sret_def add.commute)
  qed
qed (simp add: sret_def)

lemma cutter_run_ok:
  assumes "ready [] s" and "\<forall>e \<in> set es. good_entry e" and "length es < 2 ^ 64" and "length es < room"
    and "\<And>xs e. c xs e = cond (of_nat (length xs)) (if xs = [] then 0 else sco_number (entry_sco (last xs))) e"
  shows "\<exists>s'. cutter_run cond make_new put add es s = (Inr (), s') \<and> ready (cuts c [] es) s'"
proof -
  from make_law [OF assms(1)] assms(4) obtain s1 where s1: "make_new s = (Inr (), s1)" "opened [] [] s1" by auto
  have room: "length ([] :: entry list list) + length (cuts c [] es) \<le> room" using length_cuts [of c "[]" es] assms(4) by simp
  from cut_loop_ok [where c = c and cond = cond, OF s1(2) assms(2) _ _ room assms(5), of 0] assms(3) obtain s2 where
    s2: "cut_loop cond (sbind put (\<lambda>_. make_new)) add es 0 0 s1 = (Inr (), s2)"
      "opened (butlast (cuts c [] es)) (last (cuts c [] es)) s2" by auto
  from write_law [OF s2(2)] obtain s' where "put s2 = (Inr (), s')" "ready (cuts c [] es) s'" by auto
  then show ?thesis using s1(1) s2(1) good_locations [OF assms(2)] by (simp add: cutter_run_def sbind_def)
qed

end

subsection \<open>Both cutters keep this contract\<close>

text \<open>The objects \<open>V\<close> and the stored pieces, which have the names \<open>nm k\<close> from \<open>k = n\<close> on.\<close>

definition put_pieces :: "bool \<Rightarrow> (nat \<Rightarrow> string) \<Rightarrow> (string \<Rightarrow> u8 list option) \<Rightarrow> nat \<Rightarrow> entry list list \<Rightarrow> string \<Rightarrow> u8 list option" where
  "put_pieces hash nm V n ps = foldl (\<lambda>v (k, p). v(nm k \<mapsto> entries_bytes hash p)) V (enumerate n ps)"

lemma put_pieces_Nil [simp]: "put_pieces hash nm V n [] = V"
  by (simp add: put_pieces_def)

lemma put_pieces_snoc: "put_pieces hash nm V n (ps @ [p]) = (put_pieces hash nm V n ps)(nm (n + length ps) \<mapsto> entries_bytes hash p)"
  by (simp add: put_pieces_def enumerate_append_eq)

lemma put_pieces_other: "\<forall>k. n \<le> k \<and> k < n + length ps \<longrightarrow> x \<noteq> nm k \<Longrightarrow> put_pieces hash nm V n ps x = V x"
  by (induction ps rule: rev_induct) (simp_all add: put_pieces_snoc)

lemma put_pieces_nth:
  assumes "inj_on nm {n ..< n + length ps}" and "i < length ps"
  shows "put_pieces hash nm V n ps (nm (n + i)) = Some (entries_bytes hash (ps ! i))"
  using assms
proof (induction ps rule: rev_induct)
  case (snoc p ps)
  have "inj_on nm {n ..< n + length ps}" by (rule inj_on_subset [OF snoc.prems(1)]) auto
  then show ?case
    using snoc inj_onD [OF snoc.prems(1), of "n + i" "n + length ps"] by (auto simp: put_pieces_snoc nth_append less_Suc_eq)
qed simp

definition tname :: "'b cut_env \<Rightarrow> nat \<Rightarrow> string" where
  "tname env k = tlog_name env (cu_uuid env k)"

text \<open>The names of new TLogs, from the UUIDs \<open>n\<close> to \<open>m\<close>, are different and not in use.\<close>

definition cut_fresh :: "'b cut_env \<Rightarrow> string \<Rightarrow> (string \<Rightarrow> u8 list option) \<Rightarrow> file_pool \<Rightarrow> nat \<Rightarrow> nat \<Rightarrow> bool" where
  "cut_fresh env pre V F n m \<longleftrightarrow> inj_on (tname env) {n ..< m} \<and>
     (\<forall>k \<in> {n ..< m}. V (pre @ tname env k) = None \<and> F (tname env k) = None)"

definition cut_store :: "'b cut_env \<Rightarrow> ('b \<Rightarrow> string \<Rightarrow> u8 list option) \<Rightarrow> ('b \<Rightarrow> bool) \<Rightarrow> (u8 list \<Rightarrow> checksum) \<Rightarrow> string \<Rightarrow>
    (string \<Rightarrow> u8 list option) \<Rightarrow> file_pool \<Rightarrow> nat \<Rightarrow> nat \<Rightarrow> nat \<Rightarrow> entry list list \<Rightarrow> 'b cutter \<Rightarrow> bool" where
  "cut_store env view I crc pre V F n0 m n ps s \<longleftrightarrow>
     object_store (cu_api env) view I crc \<and> cut_fresh env pre V F n0 m \<and>
     (\<forall>c. crc c = CheckSum_update (te_hw (cu_tlog env)) (te_addr (cu_tlog env)) c CheckSum_new) \<and>
     I (ct_backend s) \<and> view (ct_backend s) = put_pieces (te_hash (cu_tlog env)) (\<lambda>k. pre @ tname env k) V n0 ps \<and>
     ct_uuids s = n \<and> n \<le> m \<and> dom (ct_files s) \<subseteq> dom F \<union> tname env ` {n0 ..< n}"

lemma cut_store_new_file:
  assumes "cut_store env view I crc pre V F n0 m n ps s" and "n0 \<le> n" and "n < m"
  shows "\<exists>f. ct_on_files (newFile (tname env n)) (s\<lparr>ct_uuids := n + 1\<rparr>) = (Inr (), s\<lparr>ct_uuids := n + 1, ct_files := f\<rparr>) \<and>
    cut_store env view I crc pre V F n0 m (n + 1) ps (s\<lparr>ct_uuids := n + 1, ct_files := f\<rparr>)"
proof -
  have "tname env n \<notin> dom F \<union> tname env ` {n0 ..< n}"
    using assms by (auto simp: cut_store_def cut_fresh_def dest: inj_onD)
  then have "ct_files s (tname env n) = None" using assms(1) by (auto simp: cut_store_def)
  then show ?thesis
    using assms
    by (intro exI [of _ "(ct_files s)(tname env n \<mapsto> [])"])
      (auto simp: ct_on_files_def szoom_def newFile_def sbind_def sget_def smod_def cut_store_def)
qed

lemma cut_store_write:
  assumes "cut_store env view I crc pre V F n0 m n ps s" and "pre @ tname env (n0 + length ps) = name" and "ew_entries w = xs" and "n0 + length ps < n"
  shows "\<exists>b1 b2. sa_exists (cu_api env) name (ct_backend s) = (Inr False, b1) \<and>
    sa_write (cu_api env) (Some (entries_bytes (te_hash (cu_tlog env)) xs)) name ov (Some (ew_checksum (cu_tlog env) w)) b1 = (Inr (), b2) \<and>
    cut_store env view I crc pre V F n0 m n (ps @ [xs]) (s\<lparr>ct_backend := b2\<rparr>)"
proof -
  have os: "object_store (cu_api env) view I crc" and fr: "cut_fresh env pre V F n0 m" and I: "I (ct_backend s)"
    and v: "view (ct_backend s) = put_pieces (te_hash (cu_tlog env)) (\<lambda>k. pre @ tname env k) V n0 ps"
    and crc: "\<forall>c. crc c = CheckSum_update (te_hw (cu_tlog env)) (te_addr (cu_tlog env)) c CheckSum_new"
    using assms(1) by (simp_all add: cut_store_def)
  have m: "n0 + length ps < m" using assms(1,4) by (simp add: cut_store_def)
  have "put_pieces (te_hash (cu_tlog env)) (\<lambda>k. pre @ tname env k) V n0 ps name = V name"
    using fr assms(2) m by (intro put_pieces_other) (auto simp: cut_fresh_def dest: inj_onD)
  then have none: "view (ct_backend s) name = None" using fr v assms(2) m by (auto simp: cut_fresh_def)
  have ne: "name \<noteq> []" using assms(2) by (auto simp: tname_def tlog_name_def)
  from object_store.exists_law [OF os I ne] none obtain b1 where
    b1: "sa_exists (cu_api env) name (ct_backend s) = (Inr False, b1)" "I b1" "view b1 = view (ct_backend s)" by auto
  have "Some (ew_checksum (cu_tlog env) w) = Some (crc (entries_bytes (te_hash (cu_tlog env)) xs))"
    using crc assms(3) by (simp add: ew_checksum_def)
  with object_store.write_law [OF os b1(2) ne, of ov "Some (ew_checksum (cu_tlog env) w)" "entries_bytes (te_hash (cu_tlog env)) xs"] none b1(3)
  obtain b2 where b2: "sa_write (cu_api env) (Some (entries_bytes (te_hash (cu_tlog env)) xs)) name ov
      (Some (ew_checksum (cu_tlog env) w)) b1 = (Inr (), b2)" "I b2"
    "view b2 = (view b1)(name \<mapsto> entries_bytes (te_hash (cu_tlog env)) xs)" by auto
  show ?thesis using b1 b2 assms(1,2) v by (auto simp: cut_store_def put_pieces_snoc)
qed

definition cut_tlogs :: "'b cut_env \<Rightarrow> nat \<Rightarrow> entry list list \<Rightarrow> tlogs" where
  "cut_tlogs env n ps = map (\<lambda>(k, p). \<lparr>tl_id = cu_uuid env k, written_to_backend = True,
     tl_size = of_nat (length p) * cu_cluster_size env\<rparr>) (enumerate n ps)"

definition tc_ready :: "'b cut_env \<Rightarrow> ('b \<Rightarrow> string \<Rightarrow> u8 list option) \<Rightarrow> ('b \<Rightarrow> bool) \<Rightarrow> (u8 list \<Rightarrow> checksum) \<Rightarrow>
    (string \<Rightarrow> u8 list option) \<Rightarrow> file_pool \<Rightarrow> nat \<Rightarrow> nat \<Rightarrow> entry list list \<Rightarrow> 'b cutter \<Rightarrow> bool" where
  "tc_ready env view I crc V F n0 m ps s \<longleftrightarrow>
     cut_store env view I crc [] V F n0 m (n0 + length ps) ps s \<and> ct_tlogs s = cut_tlogs env n0 ps"

definition tc_opened :: "'b cut_env \<Rightarrow> ('b \<Rightarrow> string \<Rightarrow> u8 list option) \<Rightarrow> ('b \<Rightarrow> bool) \<Rightarrow> (u8 list \<Rightarrow> checksum) \<Rightarrow>
    (string \<Rightarrow> u8 list option) \<Rightarrow> file_pool \<Rightarrow> nat \<Rightarrow> nat \<Rightarrow> entry list list \<Rightarrow> entry list \<Rightarrow> 'b cutter \<Rightarrow> bool" where
  "tc_opened env view I crc V F n0 m ps xs s \<longleftrightarrow>
     cut_store env view I crc [] V F n0 m (n0 + length ps + 1) ps s \<and>
     ct_tlogs s = cut_tlogs env n0 ps @ [\<lparr>tl_id = cu_uuid env (n0 + length ps), written_to_backend = False,
       tl_size = of_nat (length xs) * cu_cluster_size env\<rparr>] \<and>
     (\<exists>w. ct_writer s = Some w \<and> ew_entries w = xs)"

lemma ct_add_good:
  "good_entry e \<Longrightarrow> ct_writer s = Some w \<Longrightarrow> ct_add e s =
     (Inr (), s\<lparr>ct_writer := Some (w\<lparr>ew_entries := ew_entries w @ [e], ew_last := clusterLocation (e_loc e)\<rparr>)\<rparr>)"
  by (simp add: ct_add_def sbind_sget szoom_def ew_copy_good)

lemma tc_make:
  assumes "tc_ready env view I crc V F n0 m ps s" and "length ps < m - n0"
  shows "\<exists>s'. TLogCutter_makeNewTLog env s = (Inr (), s') \<and> tc_opened env view I crc V F n0 m ps [] s'"
proof -
  have st: "cut_store env view I crc [] V F n0 m (n0 + length ps) ps s" using assms(1) by (simp add: tc_ready_def)
  then have u: "ct_uuids s = n0 + length ps" by (simp add: cut_store_def)
  have "n0 + length ps < m" using assms(2) by linarith
  from cut_store_new_file [OF st le_add1 this] obtain f where
    f: "ct_on_files (newFile (tname env (n0 + length ps))) (s\<lparr>ct_uuids := n0 + length ps + 1\<rparr>) =
        (Inr (), s\<lparr>ct_uuids := n0 + length ps + 1, ct_files := f\<rparr>)"
      "cut_store env view I crc [] V F n0 m (n0 + length ps + 1) ps (s\<lparr>ct_uuids := n0 + length ps + 1, ct_files := f\<rparr>)" by auto
  let ?s' = "s\<lparr>ct_uuids := n0 + length ps + 1, ct_files := f, ct_writer := Some ew_new,
    ct_tlogs := ct_tlogs s @ [TLog_new (cu_uuid env (n0 + length ps))]\<rparr>"
  have "TLogCutter_makeNewTLog env s = (Inr (), ?s')"
    using f(1) u by (simp add: TLogCutter_makeNewTLog_def ct_new_uuid_def sbind_def smod_def tname_def)
  moreover have "tc_opened env view I crc V F n0 m ps [] ?s'"
    using f(2) assms(1) by (simp add: tc_opened_def tc_ready_def cut_store_def ew_new_def TLog_new_def)
  ultimately show ?thesis by blast
qed

lemma tc_write:
  assumes "tc_opened env view I crc V F n0 m ps xs s"
  shows "\<exists>s'. TLogCutter_writeTLogToBackend env s = (Inr (), s') \<and> tc_ready env view I crc V F n0 m (ps @ [xs]) s'"
proof -
  let ?n = "n0 + length ps"
  have st: "cut_store env view I crc [] V F n0 m (?n + 1) ps s"
    and tl: "ct_tlogs s = cut_tlogs env n0 ps @ [\<lparr>tl_id = cu_uuid env ?n, written_to_backend = False,
       tl_size = of_nat (length xs) * cu_cluster_size env\<rparr>]" using assms by (simp_all add: tc_opened_def)
  obtain w where w: "ct_writer s = Some w" "ew_entries w = xs" using assms by (auto simp: tc_opened_def)
  from cut_store_write [OF st refl w(2) less_add_one, of False] obtain b1 b2 where
    b: "sa_exists (cu_api env) (tname env ?n) (ct_backend s) = (Inr False, b1)"
      "sa_write (cu_api env) (Some (entries_bytes (te_hash (cu_tlog env)) xs)) (tname env ?n) False
         (Some (ew_checksum (cu_tlog env) w)) b1 = (Inr (), b2)"
      "cut_store env view I crc [] V F n0 m (?n + 1) (ps @ [xs]) (s\<lparr>ct_backend := b2\<rparr>)" by auto
  let ?s' = "s\<lparr>ct_backend := b2, ct_tlogs := cut_tlogs env n0 (ps @ [xs])\<rparr>"
  have "TLogCutter_writeTLogToBackend env s = (Inr (), ?s')"
    using b(1,2) w tl
    by (simp add: TLogCutter_writeTLogToBackend_def sbind_def sget_def sverify_def verify_def ct_on_backend_def szoom_def
        smod_def Let_def tname_def cut_tlogs_def enumerate_append_eq)
  moreover have "tc_ready env view I crc V F n0 m (ps @ [xs]) ?s'" using b(3) by (simp add: tc_ready_def cut_store_def)
  ultimately show ?thesis by blast
qed

lemma tc_add:
  assumes "tc_opened env view I crc V F n0 m ps xs s" and "good_entry e"
  shows "\<exists>s'. TLogCutter_add env e s = (Inr (), s') \<and> tc_opened env view I crc V F n0 m ps (xs @ [e]) s'"
proof -
  obtain w where w: "ct_writer s = Some w" "ew_entries w = xs" using assms(1) by (auto simp: tc_opened_def)
  from assms(1) show ?thesis
    by (simp add: TLogCutter_add_def ct_add_good [OF assms(2) w(1)] sbind_def smod_def)
       (auto simp: tc_opened_def cut_store_def w add_to_backend_size_def algebra_simps)
qed

interpretation tc: tlog_cutter "TLogCutter_makeNewTLog env" "TLogCutter_writeTLogToBackend env" "TLogCutter_add env"
  "m - n0" "tc_ready env view I crc V F n0 m" "tc_opened env view I crc V F n0 m" for env view I crc V F n0 m
  by unfold_locales (rule tc_make tc_write tc_add; assumption)+

definition son_names :: "'b cut_env \<Rightarrow> nat \<Rightarrow> nat \<Rightarrow> string list" where
  "son_names env n k = map (\<lambda>i. ''relocation_'' @ tname env i) [n ..< n + k]"

definition son_ready :: "'b cut_env \<Rightarrow> ('b \<Rightarrow> string \<Rightarrow> u8 list option) \<Rightarrow> ('b \<Rightarrow> bool) \<Rightarrow> (u8 list \<Rightarrow> checksum) \<Rightarrow>
    (string \<Rightarrow> u8 list option) \<Rightarrow> file_pool \<Rightarrow> nat \<Rightarrow> nat \<Rightarrow> entry list list \<Rightarrow> 'b cutter \<Rightarrow> bool" where
  "son_ready env view I crc V F n0 m ps s \<longleftrightarrow>
     cut_store env view I crc ''relocation_'' V F n0 m (n0 + length ps) ps s \<and> ct_names s = son_names env n0 (length ps)"

definition son_opened :: "'b cut_env \<Rightarrow> ('b \<Rightarrow> string \<Rightarrow> u8 list option) \<Rightarrow> ('b \<Rightarrow> bool) \<Rightarrow> (u8 list \<Rightarrow> checksum) \<Rightarrow>
    (string \<Rightarrow> u8 list option) \<Rightarrow> file_pool \<Rightarrow> nat \<Rightarrow> nat \<Rightarrow> entry list list \<Rightarrow> entry list \<Rightarrow> 'b cutter \<Rightarrow> bool" where
  "son_opened env view I crc V F n0 m ps xs s \<longleftrightarrow>
     cut_store env view I crc ''relocation_'' V F n0 m (n0 + length ps + 1) ps s \<and>
     ct_names s = son_names env n0 (length ps + 1) \<and> (\<exists>w. ct_writer s = Some w \<and> ew_entries w = xs)"

lemma son_make:
  assumes "son_ready env view I crc V F n0 m ps s" and "length ps < m - n0"
  shows "\<exists>s'. Son_makeNewTLog env s = (Inr (), s') \<and> son_opened env view I crc V F n0 m ps [] s'"
proof -
  have st: "cut_store env view I crc ''relocation_'' V F n0 m (n0 + length ps) ps s" using assms(1) by (simp add: son_ready_def)
  then have u: "ct_uuids s = n0 + length ps" by (simp add: cut_store_def)
  have "n0 + length ps < m" using assms(2) by linarith
  from cut_store_new_file [OF st le_add1 this] obtain f where
    f: "ct_on_files (newFile (tname env (n0 + length ps))) (s\<lparr>ct_uuids := n0 + length ps + 1\<rparr>) =
        (Inr (), s\<lparr>ct_uuids := n0 + length ps + 1, ct_files := f\<rparr>)"
      "cut_store env view I crc ''relocation_'' V F n0 m (n0 + length ps + 1) ps (s\<lparr>ct_uuids := n0 + length ps + 1, ct_files := f\<rparr>)" by auto
  let ?s' = "s\<lparr>ct_uuids := n0 + length ps + 1, ct_files := f, ct_writer := Some ew_new,
    ct_names := ct_names s @ [''relocation_'' @ tname env (n0 + length ps)]\<rparr>"
  have "Son_makeNewTLog env s = (Inr (), ?s')"
    using f(1) u by (simp add: Son_makeNewTLog_def ct_new_uuid_def sbind_def smod_def tname_def)
  moreover have "son_opened env view I crc V F n0 m ps [] ?s'"
    using f(2) assms(1) by (simp add: son_opened_def son_ready_def cut_store_def ew_new_def son_names_def)
  ultimately show ?thesis by blast
qed

lemma son_write:
  assumes "son_opened env view I crc V F n0 m ps xs s"
  shows "\<exists>s'. Son_writeTLogToBackend env s = (Inr (), s') \<and> son_ready env view I crc V F n0 m (ps @ [xs]) s'"
proof -
  let ?n = "n0 + length ps" let ?nm = "''relocation_'' @ tname env ?n"
  have st: "cut_store env view I crc ''relocation_'' V F n0 m (?n + 1) ps s"
    and nm: "ct_names s = son_names env n0 (length ps) @ [?nm]" using assms by (simp_all add: son_opened_def son_names_def)
  obtain w where w: "ct_writer s = Some w" "ew_entries w = xs" using assms by (auto simp: son_opened_def)
  from cut_store_write [OF st refl w(2) less_add_one, of True] obtain b1 b2 where
    b: "sa_exists (cu_api env) ?nm (ct_backend s) = (Inr False, b1)"
      "sa_write (cu_api env) (Some (entries_bytes (te_hash (cu_tlog env)) xs)) ?nm True
         (Some (ew_checksum (cu_tlog env) w)) b1 = (Inr (), b2)"
      "cut_store env view I crc ''relocation_'' V F n0 m (?n + 1) (ps @ [xs]) (s\<lparr>ct_backend := b2\<rparr>)" by auto
  have "Son_writeTLogToBackend env s = (Inr (), s\<lparr>ct_backend := b2\<rparr>)"
    using b(1,2) w nm
    by (simp add: Son_writeTLogToBackend_def sbind_def sget_def sverify_def verify_def ct_on_backend_def szoom_def Let_def)
  moreover have "son_ready env view I crc V F n0 m (ps @ [xs]) (s\<lparr>ct_backend := b2\<rparr>)"
    using b(3) nm by (simp add: son_ready_def son_names_def)
  ultimately show ?thesis by blast
qed

lemma son_add:
  assumes "son_opened env view I crc V F n0 m ps xs s" and "good_entry e"
  shows "\<exists>s'. ct_add e s = (Inr (), s') \<and> son_opened env view I crc V F n0 m ps (xs @ [e]) s'"
proof -
  obtain w where w: "ct_writer s = Some w" "ew_entries w = xs" using assms(1) by (auto simp: son_opened_def)
  from assms(1) show ?thesis
    by (simp add: ct_add_good [OF assms(2) w(1)]) (auto simp: son_opened_def cut_store_def w)
qed

interpretation son: tlog_cutter "Son_makeNewTLog env" "Son_writeTLogToBackend env" ct_add
  "m - n0" "son_ready env view I crc V F n0 m" "son_opened env view I crc V F n0 m" for env view I crc V F n0 m
  by unfold_locales (rule son_make son_write son_add; assumption)+

subsection \<open>What the cutters promise\<close>

definition tc_cut :: "'b cut_env \<Rightarrow> entry list \<Rightarrow> entry \<Rightarrow> bool" where
  "tc_cut env xs e = TLogCutter_cond env (of_nat (length xs)) (if xs = [] then 0 else sco_number (entry_sco (last xs))) e"

definition son_cut :: "'b cut_env \<Rightarrow> entry list \<Rightarrow> entry \<Rightarrow> bool" where
  "son_cut env xs e = Son_cond env (of_nat (length xs)) (if xs = [] then 0 else sco_number (entry_sco (last xs))) e"

lemma TLogCutter_run_ok:
  assumes "tc_ready env view I crc V F n0 m [] s" and "\<forall>e \<in> set es. good_entry e" and "length es < 2 ^ 64" and "length es < m - n0"
  shows "\<exists>s'. TLogCutter_run env es s = (Inr (cut_tlogs env n0 (cuts (tc_cut env) [] es)), s') \<and>
    tc_ready env view I crc V F n0 m (cuts (tc_cut env) [] es) s'"
proof -
  from tc.cutter_run_ok [where c = "tc_cut env" and cond = "TLogCutter_cond env", OF assms tc_cut_def] obtain s' where
    "cutter_run (TLogCutter_cond env) (TLogCutter_makeNewTLog env) (TLogCutter_writeTLogToBackend env) (TLogCutter_add env) es s = (Inr (), s')"
    "tc_ready env view I crc V F n0 m (cuts (tc_cut env) [] es) s'" by blast
  then show ?thesis by (simp add: TLogCutter_run_def sbind_run sget_def) (simp add: tc_ready_def)
qed

lemma Son_run_ok:
  assumes "son_ready env view I crc V F n0 m [] s" and "\<forall>e \<in> set es. good_entry e" and "length es < 2 ^ 64" and "length es < m - n0"
  shows "\<exists>s'. TheSonOfTLogCutter_run env es s = (Inr (), s') \<and>
    son_ready env view I crc V F n0 m (cuts (son_cut env) [] es) s'"
  unfolding TheSonOfTLogCutter_run_def by (rule son.cutter_run_ok [where c = "son_cut env" and cond = "Son_cond env", OF assms son_cut_def])

end
