(* ===== verification/Scrub_Pool.thy ===== *)
theory Scrub_Pool
  imports Scrub_Data
begin

text \<open>
  Correctness of the pool of SCOs: which SCOs it scrubs, that the clusters it moves keep their data, that there
  is always an old SCO whose number a new one can take, and that none of its assertions fires.
\<close>

subsection \<open>What the pool is given\<close>

abbreviation cluster_size :: "('b, 'f) pool_env \<Rightarrow> nat" where
  "cluster_size env \<equiv> unat (po_cluster_size env)"

abbreviation sco_size :: "('b, 'f) pool_env \<Rightarrow> nat" where
  "sco_size env \<equiv> unat (po_sco_size env)"

abbreviation entry_offset :: "entry \<Rightarrow> nat" where
  "entry_offset e \<equiv> unat (cl_offset (clusterLocation (e_loc e)))"

definition sco_index :: "scrub_sco list \<Rightarrow> sco \<Rightarrow> nat" where
  "sco_index ds s = length (takeWhile (\<lambda>d. sd_sconame d \<noteq> s) ds)"

text \<open>
  The entries \<open>ents\<close> of the TLog, in the order of their locations, the table \<open>ds\<close> of the SCOs as the constructor
  leaves it, and the name of the last SCO.
\<close>

definition pool_table :: "entry list \<Rightarrow> scrub_sco list \<Rightarrow> sco \<Rightarrow> bool" where
  "pool_table ents ds lastS \<longleftrightarrow>
     (\<forall>e \<in> set ents. good_entry e) \<and> loc_sorted ents \<and> num_sorted ds \<and>
     (\<forall>e \<in> set ents. entry_sco e \<in> sd_sconame ` set ds) \<and> (\<forall>d \<in> set ds. sco_number (sd_sconame d) \<noteq> 0) \<and>
     (\<forall>d \<in> set ds. unat (sd_usageCount d) = usage_of ents (sd_sconame d)) \<and>
     (\<forall>d \<in> set ds. sd_state d = (if sd_sconame d = lastS then NotScrubbed else Unknown)) \<and>
     (if ents = [] then ds = [] else lastS = entry_sco (last ents) \<and> ds \<noteq> [] \<and> lastS = sd_sconame (last ds))"

definition pool_sizes :: "('b, 'f) pool_env \<Rightarrow> bool" where
  "pool_sizes env \<longleftrightarrow> 0 < cluster_size env \<and> 0 < sco_size env \<and> sco_size env < 2 ^ 16 \<and>
     unat (po_minimum_used_entries env) \<le> sco_size env \<and> 2 ^ 16 * cluster_size env \<le> 2 ^ 64"

text \<open>
  The SCOs of the entries are on the backend with the clusters that the entries name, and each SCO of the table
  has a version that is not taken.
\<close>

definition pool_objects :: "('b, 'f) pool_env \<Rightarrow> (string \<Rightarrow> u8 list option) \<Rightarrow> entry list \<Rightarrow> scrub_sco list \<Rightarrow> bool" where
  "pool_objects env V ents ds \<longleftrightarrow>
     (\<forall>e \<in> set ents. \<exists>c. V (SCO_str (entry_sco e)) = Some c \<and> (entry_offset e + 1) * cluster_size env \<le> length c) \<and>
     (\<forall>d \<in> set ds. \<exists>v. v \<noteq> sco_version (sd_sconame d) \<and> V (SCO_str ((sd_sconame d)\<lparr>sco_version := v\<rparr>)) = None)"

text \<open>Which SCOs are scrubbed, and which entries are rewritten therefore.\<close>

definition scrubs :: "('b, 'f) pool_env \<Rightarrow> sco \<Rightarrow> scrub_sco \<Rightarrow> bool" where
  "scrubs env lastS d \<longleftrightarrow> sd_sconame d \<noteq> lastS \<and> (sd_usageCount d = 0 \<or> sd_usageCount d < po_minimum_used_entries env)"

definition rewritten :: "('b, 'f) pool_env \<Rightarrow> entry list \<Rightarrow> sco \<Rightarrow> entry \<Rightarrow> bool" where
  "rewritten env ents lastS e \<longleftrightarrow>
     entry_sco e \<noteq> lastS \<and> usage_of ents (entry_sco e) < unat (po_minimum_used_entries env)"

text \<open>The table when the first \<open>cl\<close> SCOs are classified and of these the scrubbed ones below \<open>ru\<close> are reused.\<close>

definition sco_state_at :: "('b, 'f) pool_env \<Rightarrow> sco \<Rightarrow> scrub_sco \<Rightarrow> nat \<Rightarrow> nat \<Rightarrow> nat \<Rightarrow> scrub_state" where
  "sco_state_at env lastS d i cl ru =
     (if sd_sconame d = lastS then NotScrubbed
      else if cl \<le> i then Unknown
      else if scrubs env lastS d then (if i < ru then Reused else Scrubbed)
      else NotScrubbed)"

definition scodata_at :: "('b, 'f) pool_env \<Rightarrow> sco \<Rightarrow> scrub_sco list \<Rightarrow> nat \<Rightarrow> nat \<Rightarrow> scrub_sco list" where
  "scodata_at env lastS ds cl ru = map (\<lambda>i. (ds ! i)\<lparr>sd_state := sco_state_at env lastS (ds ! i) i cl ru\<rparr>) [0 ..< length ds]"

lemma scodata_at_length [simp]: "length (scodata_at env lastS ds cl ru) = length ds"
  by (simp add: scodata_at_def)

lemma scodata_at_nth [simp]:
  "i < length ds \<Longrightarrow> scodata_at env lastS ds cl ru ! i = (ds ! i)\<lparr>sd_state := sco_state_at env lastS (ds ! i) i cl ru\<rparr>"
  by (simp add: scodata_at_def)

lemma scodata_at_start:
  assumes "pool_table ents ds lastS"
  shows "scodata_at env lastS ds 0 0 = ds"
proof (rule nth_equalityI)
  fix i assume "i < length (scodata_at env lastS ds 0 0)"
  then have i: "i < length ds" by simp
  then have "sd_state (ds ! i) = (if sd_sconame (ds ! i) = lastS then NotScrubbed else Unknown)"
    using assms by (simp add: pool_table_def)
  with i show "scodata_at env lastS ds 0 0 ! i = ds ! i" by (simp add: sco_state_at_def)
qed simp

subsection \<open>Where an entry's SCO is in the table\<close>

lemma sco_index_nth:
  assumes "s \<in> sd_sconame ` set ds"
  shows "sco_index ds s < length ds \<and> sd_sconame (ds ! sco_index ds s) = s"
  using assms by (induction ds) (auto simp: sco_index_def)

lemma sco_index_eq:
  assumes "num_sorted ds" and "i < length ds" and "sd_sconame (ds ! i) = s"
  shows "sco_index ds s = i"
  using sco_index_nth [of s ds] assms num_sorted_inj [OF assms(1), of "sco_index ds s" i] by auto

lemma table_entry:
  assumes "pool_table ents ds lastS" and "e \<in> set ents"
  shows "sco_index ds (entry_sco e) < length ds" and "sd_sconame (ds ! sco_index ds (entry_sco e)) = entry_sco e"
  using assms sco_index_nth [of "entry_sco e" ds] by (auto simp: pool_table_def)

lemma index_mono:
  assumes "pool_table ents ds lastS" and "ents = xs @ x # ys" and "y \<in> set ys"
  shows "sco_index ds (entry_sco x) \<le> sco_index ds (entry_sco y)"
proof -
  have "sorted (map (\<lambda>e. sco_num (entry_sco e)) ents)" using loc_sorted_nums assms(1) by (simp add: pool_table_def)
  then have "sco_num (entry_sco x) \<le> sco_num (entry_sco y)" using assms(2,3) by (auto simp: sorted_append)
  moreover have m: "x \<in> set ents" "y \<in> set ents" using assms(2,3) by auto
  ultimately show ?thesis
    using num_sorted_nth [of ds "sco_index ds (entry_sco y)" "sco_index ds (entry_sco x)"]
      table_entry [OF assms(1) m(1)] table_entry [OF assms(1) m(2)] assms(1)
    by (auto simp: pool_table_def linorder_not_less [symmetric])
qed

lemma usage_index:
  assumes "pool_table ents ds lastS" and "i < length ds"
  shows "unat (sd_usageCount (ds ! i)) = length (filter (\<lambda>e. sco_index ds (entry_sco e) = i) ents)"
proof -
  have ns: "num_sorted ds" using assms(1) by (simp add: pool_table_def)
  have "unat (sd_usageCount (ds ! i)) = usage_of ents (sd_sconame (ds ! i))" using assms by (simp add: pool_table_def)
  also have "\<dots> = length (filter (\<lambda>e. sco_index ds (entry_sco e) = i) ents)"
    unfolding usage_of_def
  proof (intro arg_cong [where f = length] filter_cong refl)
    fix e assume "e \<in> set ents"
    from table_entry(2) [OF assms(1) this] sco_index_eq [OF ns assms(2)]
    show "entry_sco e = sd_sconame (ds ! i) \<longleftrightarrow> sco_index ds (entry_sco e) = i" by auto
  qed
  finally show ?thesis .
qed

text \<open>The SCOs between that of one entry and that of the next are not used, and an SCO that is left is done.\<close>

lemma between_unused:
  assumes "pool_table ents ds lastS" and "ents = pre @ e # post" and "i < sco_index ds (entry_sco e)"
    and "pre \<noteq> [] \<Longrightarrow> sco_index ds (entry_sco (last pre)) < i"
  shows "sd_usageCount (ds ! i) = 0" and "sd_sconame (ds ! i) \<noteq> lastS" and "i < length ds"
proof -
  have e: "e \<in> set ents" using assms(2) by simp
  show i: "i < length ds" using assms(3) table_entry(1) [OF assms(1) e] by simp
  have no: "sco_index ds (entry_sco x) \<noteq> i" if x: "x \<in> set ents" for x
  proof -
    consider "x \<in> set pre" | "x = e" | "x \<in> set post" using x assms(2) by auto
    then show ?thesis
    proof cases
      case 1
      then obtain pre' l where pre: "pre = pre' @ [l]" by (metis append_butlast_last_id empty_iff empty_set)
      then have "sco_index ds (entry_sco x) \<le> sco_index ds (entry_sco l)"
      proof (cases "x = l")
        case False
        with 1 pre obtain a b where "pre' = a @ x # b" by (auto simp: in_set_conv_decomp)
        with pre assms(2) show ?thesis by (intro index_mono [OF assms(1), of a x "b @ l # e # post"]) auto
      qed simp
      with assms(4) pre show ?thesis by simp
    next
      case 2
      with assms(3) show ?thesis by simp
    next
      case 3
      from index_mono [OF assms(1,2) this] assms(3) show ?thesis by simp
    qed
  qed
  then have "unat (sd_usageCount (ds ! i)) = 0" using usage_index [OF assms(1) i] by (simp add: filter_empty_conv)
  then show "sd_usageCount (ds ! i) = 0" by (simp add: unat_eq_zero)
  have "lastS = entry_sco (last ents)" "last ents \<in> set ents" using assms(1,2) by (auto simp: pool_table_def)
  moreover have "num_sorted ds" using assms(1) by (simp add: pool_table_def)
  ultimately show "sd_sconame (ds ! i) \<noteq> lastS"
    using sco_index_eq [of ds i lastS] i no by auto
qed

subsection \<open>Moving to the SCO of an entry\<close>

lemma scodata_at_step:
  assumes "i < length ds" and "ru \<le> i" and "sd_sconame (ds ! i) \<noteq> lastS" and "scrubs env lastS (ds ! i)"
  shows "(scodata_at env lastS ds i ru)[i := (scodata_at env lastS ds i ru ! i)\<lparr>sd_state := Scrubbed\<rparr>] =
    scodata_at env lastS ds (Suc i) ru"
proof (rule nth_equalityI)
  fix j assume "j < length ((scodata_at env lastS ds i ru)[i := (scodata_at env lastS ds i ru ! i)\<lparr>sd_state := Scrubbed\<rparr>])"
  then have j: "j < length ds" by simp
  with assms show "(scodata_at env lastS ds i ru)[i := (scodata_at env lastS ds i ru ! i)\<lparr>sd_state := Scrubbed\<rparr>] ! j =
      scodata_at env lastS ds (Suc i) ru ! j"
    by (cases "i = j") (auto simp: sco_state_at_def)
qed simp

lemma it_scodata_swap: "s\<lparr>sp_it := i, sp_scodata := d\<rparr> = s\<lparr>sp_scodata := d, sp_it := i\<rparr>"
  by simp

lemma advance_loop_ok:
  assumes "num_sorted ds" and "t < length ds" and "sd_sconame (ds ! t) = name" and "ru \<le> cl"
    and "it \<le> t" and "sp_it s = it" and "sp_scodata s = scodata_at env lastS ds cl ru" and "cl = it \<or> cl = Suc it"
    and "\<forall>i. cl \<le> i \<and> i < t \<longrightarrow> sd_usageCount (ds ! i) = 0 \<and> sd_sconame (ds ! i) \<noteq> lastS"
    and "cl = Suc it \<and> it < t \<longrightarrow> sp_usage s = 0" and "k = length ds - it"
  shows "advance_loop name k s = (Inr (), s\<lparr>sp_it := t, sp_scodata := scodata_at env lastS ds (max cl t) ru\<rparr>)"
  using assms(4-)
proof (induction k arbitrary: s it cl)
  case 0
  with assms(2) show ?case by simp
next
  case (Suc k)
  have it: "it < length ds" using Suc.prems(2) assms(2) by simp
  show ?case
  proof (cases "it = t")
    case True
    moreover have "max cl t = cl" using Suc.prems(5) True by auto
    ultimately show ?thesis using Suc.prems(3,4) assms(2,3) by (simp add: sbind_def sget_def sret_def)
  next
    case False
    with Suc.prems(2) have less: "it < t" by simp
    have ne: "sd_sconame (ds ! it) \<noteq> name" using num_sorted_inj [OF assms(1) it assms(2)] assms(3) False by auto
    let ?cl = "Suc it"
    let ?s = "s\<lparr>sp_it := Suc it, sp_scodata := scodata_at env lastS ds ?cl ru\<rparr>"
    have step: "advance_loop name (Suc k) s = advance_loop name k ?s"
    proof (cases "cl = it")
      case True
      have u: "sd_usageCount (ds ! it) = 0" "sd_sconame (ds ! it) \<noteq> lastS" using Suc.prems(6) True less by simp_all
      then have "scrubs env lastS (ds ! it)" by (simp add: scrubs_def)
      note st = scodata_at_step [OF it _ u(2) this, of ru]
      have "sd_state (sp_scodata s ! it) = Unknown" using Suc.prems(4) True it u(2) by (simp add: sco_state_at_def)
      then show ?thesis
        using st Suc.prems(1,3,4) True it ne u
        by (simp add: sbind_def sget_def sverify_def verify_def set_sco_state_def smod_def it_scodata_swap)
    next
      case False
      then have cl: "cl = Suc it" using Suc.prems(5) by simp
      have "sd_state (sp_scodata s ! it) \<noteq> Unknown" using Suc.prems(4) it cl by (simp add: sco_state_at_def)
      have same: "?s = s\<lparr>sp_it := Suc it\<rparr>" using Suc.prems(4) cl by (cases s) simp
      show ?thesis
        unfolding same using \<open>sd_state (sp_scodata s ! it) \<noteq> Unknown\<close> Suc.prems(3,4,7) cl it ne less
        by (simp add: sbind_def sget_def sverify_def verify_def smod_def)
    qed
    have rest: "\<forall>i. ?cl \<le> i \<and> i < t \<longrightarrow> sd_usageCount (ds ! i) = 0 \<and> sd_sconame (ds ! i) \<noteq> lastS"
      using Suc.prems(5,6) by (metis Suc_leD)
    have "advance_loop name k ?s =
        (Inr (), ?s\<lparr>sp_it := t, sp_scodata := scodata_at env lastS ds (max ?cl t) ru\<rparr>)"
      by (rule Suc.IH [OF _ _ _ _ _ rest]) (use Suc.prems less in auto)
    moreover have "max ?cl t = max cl t" using Suc.prems(5) less by auto
    ultimately show ?thesis unfolding step by simp
  qed
qed

lemma scodata_at_classify:
  assumes "i < length ds" and "ru \<le> i" and "sd_sconame (ds ! i) \<noteq> lastS" and "sd_usageCount (ds ! i) \<noteq> 0"
  shows "(scodata_at env lastS ds i ru)[i := (ds ! i)\<lparr>sd_state :=
      (if sd_usageCount (ds ! i) < po_minimum_used_entries env then Scrubbed else NotScrubbed)\<rparr>] =
    scodata_at env lastS ds (Suc i) ru"
  by (rule nth_equalityI) (use assms in \<open>auto simp: nth_list_update sco_state_at_def scrubs_def less_Suc_eq\<close>)

lemma scodata_at_last:
  assumes "sd_sconame (ds ! i) = lastS" and "Suc i = length ds"
  shows "scodata_at env lastS ds (Suc i) ru = scodata_at env lastS ds i ru"
proof (rule nth_equalityI)
  fix j assume "j < length (scodata_at env lastS ds (Suc i) ru)"
  with assms show "scodata_at env lastS ds (Suc i) ru ! j = scodata_at env lastS ds i ru ! j"
    by (cases "j = i") (auto simp: sco_state_at_def)
qed simp

text \<open>
  The part of the state that says where the pool is in the table, after the entries \<open>pre\<close>. In the last SCO the
  count of entries that are left is not kept.
\<close>

definition at_table :: "('b, 'f) pool_env \<Rightarrow> entry list \<Rightarrow> scrub_sco list \<Rightarrow> sco \<Rightarrow> entry list \<Rightarrow> nat \<Rightarrow> ('b, 'f) sco_pool \<Rightarrow> bool" where
  "at_table env ents ds lastS pre ru s \<longleftrightarrow>
     (let it = (if pre = [] then 0 else sco_index ds (entry_sco (last pre))); cl = (if pre = [] then 0 else Suc it)
      in sp_it s = it \<and> sp_scodata s = scodata_at env lastS ds cl ru \<and> ru \<le> cl \<and>
         (pre = [] \<longrightarrow> sp_usage s = 0) \<and>
         (pre \<noteq> [] \<longrightarrow> entry_sco (last pre) \<noteq> lastS \<longrightarrow>
            unat (sp_usage s) = usage_of ents (entry_sco (last pre)) - usage_of pre (entry_sco (last pre))))"

lemma last_index:
  assumes "pool_table ents ds lastS" and "i < length ds" and "sd_sconame (ds ! i) = lastS"
  shows "Suc i = length ds"
proof -
  have ds: "ds \<noteq> []" using assms(2) by auto
  then have "lastS = sd_sconame (last ds)" "num_sorted ds" using assms(1) by (auto simp: pool_table_def split: if_splits)
  with num_sorted_inj [of ds i "length ds - 1"] assms(2,3) ds show ?thesis by (simp add: last_conv_nth)
qed

text \<open>When the pool comes to another SCO, all entries of the SCO it leaves are done.\<close>

lemma left_sco_done:
  assumes "pool_table ents ds lastS" and "ents = pre @ e # post" and "pre \<noteq> []"
    and "sco_index ds (entry_sco (last pre)) < sco_index ds (entry_sco e)"
  shows "usage_of ents (entry_sco (last pre)) = usage_of pre (entry_sco (last pre))"
    and "entry_sco (last pre) \<noteq> lastS"
proof -
  have "entry_sco x \<noteq> entry_sco (last pre)" if "x \<in> set (e # post)" for x
    using that assms(4) index_mono [OF assms(1,2), of x] by auto
  then show "usage_of ents (entry_sco (last pre)) = usage_of pre (entry_sco (last pre))"
    by (auto simp: assms(2) usage_of_def filter_empty_conv)
  have m: "last pre \<in> set ents" "e \<in> set ents" using assms(2,3) by auto
  show "entry_sco (last pre) \<noteq> lastS"
    using last_index [OF assms(1) table_entry(1) [OF assms(1) m(1)]] table_entry [OF assms(1) m(1)]
      table_entry(1) [OF assms(1) m(2)] assms(4) by auto
qed

lemma entry_usage:
  assumes "pool_table ents ds lastS" and "e \<in> set ents"
  shows "unat (sd_usageCount (ds ! sco_index ds (entry_sco e))) = usage_of ents (entry_sco e)"
    and "0 < usage_of ents (entry_sco e)"
proof -
  show "unat (sd_usageCount (ds ! sco_index ds (entry_sco e))) = usage_of ents (entry_sco e)"
    using table_entry [OF assms] assms(1) by (auto simp: pool_table_def)
  show "0 < usage_of ents (entry_sco e)" using assms(2) by (auto simp: usage_of_def filter_empty_conv)
qed

lemma advance_to_entry:
  assumes "pool_table ents ds lastS" and "ents = pre @ e # post" and "at_table env ents ds lastS pre ru s"
    and "t = sco_index ds (entry_sco e)"
  shows "advance_loop (entry_sco e) (length ds - sp_it s) s =
    (Inr (), s\<lparr>sp_it := t, sp_scodata := scodata_at env lastS ds
       (if pre \<noteq> [] \<and> sco_index ds (entry_sco (last pre)) = t then Suc t else t) ru\<rparr>)"
proof -
  let ?it = "if pre = [] then 0 else sco_index ds (entry_sco (last pre))"
  let ?cl = "if pre = [] then 0 else Suc ?it"
  have e: "e \<in> set ents" using assms(2) by simp
  note te = table_entry [OF assms(1) e]
  have le: "?it \<le> t"
  proof (cases "pre = []")
    case False
    then obtain pre' l where p: "pre = pre' @ [l]" by (metis append_butlast_last_id)
    then show ?thesis using index_mono [OF assms(1), of pre' l "e # post" e] assms(2,4) by simp
  qed simp
  have "advance_loop (entry_sco e) (length ds - sp_it s) s =
      (Inr (), s\<lparr>sp_it := t, sp_scodata := scodata_at env lastS ds (max ?cl t) ru\<rparr>)"
  proof (rule advance_loop_ok [where it = ?it and cl = ?cl and ds = ds])
    show "num_sorted ds" using assms(1) by (simp add: pool_table_def)
    show "\<forall>i. ?cl \<le> i \<and> i < t \<longrightarrow> sd_usageCount (ds ! i) = 0 \<and> sd_sconame (ds ! i) \<noteq> lastS"
      using between_unused [OF assms(1,2)] assms(4) by (auto split: if_splits)
    show "?cl = Suc ?it \<and> ?it < t \<longrightarrow> sp_usage s = 0"
      using left_sco_done [OF assms(1,2)] assms(3,4)
      by (auto simp: at_table_def Let_def unat_eq_zero split: if_splits)
  qed (use te le assms(3,4) in \<open>auto simp: at_table_def Let_def\<close>)
  moreover have "max ?cl t = (if pre \<noteq> [] \<and> sco_index ds (entry_sco (last pre)) = t then Suc t else t)"
    using le by auto
  ultimately show ?thesis by simp
qed

lemma usage_new_sco:
  assumes "pool_table ents ds lastS" and "ents = pre @ e # post"
    and "\<not> (pre \<noteq> [] \<and> sco_index ds (entry_sco (last pre)) = sco_index ds (entry_sco e))"
  shows "usage_of pre (entry_sco e) = 0"
proof -
  have "entry_sco x \<noteq> entry_sco e" if x: "x \<in> set pre" for x
  proof
    assume eq: "entry_sco x = entry_sco e"
    from x obtain pre' l where p: "pre = pre' @ [l]" by (metis append_butlast_last_id empty_iff empty_set)
    have "sco_index ds (entry_sco x) \<le> sco_index ds (entry_sco l)"
    proof (cases "x = l")
      case False
      with x p obtain a b where "pre' = a @ x # b" by (auto simp: in_set_conv_decomp)
      with p assms(2) show ?thesis by (intro index_mono [OF assms(1), of a x "b @ l # e # post"]) auto
    qed simp
    moreover have "sco_index ds (entry_sco l) \<le> sco_index ds (entry_sco e)"
      using index_mono [OF assms(1), of pre' l "e # post" e] assms(2) p by simp
    ultimately show False using eq assms(3) p by simp
  qed
  then show ?thesis by (simp add: usage_of_def filter_empty_conv)
qed

lemma classify_sco_ok:
  assumes "pool_table ents ds lastS" and "ents = pre @ e # post" and "at_table env ents ds lastS pre ru s"
    and "t = sco_index ds (entry_sco e)"
  shows "\<exists>u. classify_sco env (entry_sco e) s =
      (Inr (sco_state_at env lastS (ds ! t) t (Suc t) ru),
       s\<lparr>sp_it := t, sp_scodata := scodata_at env lastS ds (Suc t) ru, sp_usage := u\<rparr>) \<and>
    (entry_sco e \<noteq> lastS \<longrightarrow> unat u = usage_of ents (entry_sco e) - usage_of pre (entry_sco e))"
proof -
  have e: "e \<in> set ents" using assms(2) by simp
  note te = table_entry [OF assms(1) e, folded assms(4)]
  note us = entry_usage [OF assms(1) e, folded assms(4)]
  note adv = advance_to_entry [OF assms]
  have len: "length (sp_scodata s) = length ds" using assms(3) by (auto simp: at_table_def Let_def)
  have nz: "sd_usageCount (ds ! t) \<noteq> 0" using us by (metis less_nat_zero_code unat_0)
  note run = classify_sco_def sbind_def sget_def sverify_def verify_def set_sco_state_def smod_def sret_def
  show ?thesis
  proof (cases "pre \<noteq> [] \<and> sco_index ds (entry_sco (last pre)) = t")
    case True
    then have same: "entry_sco (last pre) = entry_sco e"
      using table_entry(2) [OF assms(1), of "last pre"] te(2) assms(2) by auto
    have "s\<lparr>sp_it := t, sp_scodata := scodata_at env lastS ds (Suc t) ru\<rparr> =
        s\<lparr>sp_it := t, sp_scodata := scodata_at env lastS ds (Suc t) ru, sp_usage := sp_usage s\<rparr>" by simp
    moreover have "classify_sco env (entry_sco e) s = (Inr (sco_state_at env lastS (ds ! t) t (Suc t) ru),
        s\<lparr>sp_it := t, sp_scodata := scodata_at env lastS ds (Suc t) ru\<rparr>)"
      using adv True te nz len by (simp add: run sco_state_at_def)
    moreover have "entry_sco e \<noteq> lastS \<longrightarrow> unat (sp_usage s) = usage_of ents (entry_sco e) - usage_of pre (entry_sco e)"
      using assms(3) True same by (auto simp: at_table_def Let_def)
    ultimately show ?thesis by metis
  next
    case False
    have u0: "usage_of pre (entry_sco e) = 0" using usage_new_sco [OF assms(1,2)] False assms(4) by blast
    have ru: "ru \<le> t"
    proof (cases "pre = []")
      case False' : False
      then obtain pre' l where p: "pre = pre' @ [l]" by (metis append_butlast_last_id)
      then have "sco_index ds (entry_sco l) \<le> t" using index_mono [OF assms(1), of pre' l "e # post" e] assms(2,4) by simp
      with False p assms(3) show ?thesis by (auto simp: at_table_def Let_def)
    qed (use assms(3) in \<open>simp add: at_table_def Let_def\<close>)
    show ?thesis
    proof (cases "entry_sco e = lastS")
      case True
      have "Suc t = length ds" using last_index [OF assms(1) te(1)] te(2) True by simp
      from scodata_at_last [OF _ this, of lastS env ru] True te(2)
      have "scodata_at env lastS ds (Suc t) ru = scodata_at env lastS ds t ru" by simp
      moreover have "classify_sco env (entry_sco e) s = (Inr (sco_state_at env lastS (ds ! t) t (Suc t) ru),
          s\<lparr>sp_it := t, sp_scodata := scodata_at env lastS ds t ru\<rparr>)"
        using adv False te nz len True by (simp add: run sco_state_at_def)
      ultimately show ?thesis using True by (intro exI [of _ "sp_usage s"]) simp
    next
      case False'': False
      have "sd_sconame (ds ! t) \<noteq> lastS" using te(2) False'' by simp
      note cs = scodata_at_classify [OF te(1) ru this nz, of env]
      have "classify_sco env (entry_sco e) s = (Inr (sco_state_at env lastS (ds ! t) t (Suc t) ru),
          s\<lparr>sp_it := t, sp_scodata := scodata_at env lastS ds (Suc t) ru, sp_usage := sd_usageCount (ds ! t)\<rparr>)"
        using adv False te nz len False'' ru cs by (simp add: run sco_state_at_def scrubs_def)
      then show ?thesis using us(1) u0 by auto
    qed
  qed
qed

subsection \<open>Old SCOs\<close>

lemma SCO_str_inj: "SCO_str s = SCO_str t \<longleftrightarrow> s = t"
  by (metis SCO_parse_str sum.inject(2))

lemma SCO_str_nonempty [simp]: "SCO_str s \<noteq> []"
  using length_SCO_str [of s] by auto

lemma std_map_insert_last: "\<forall>k' \<in> fst ` set q. k' < k \<Longrightarrow> std_map_insert k v q = q @ [(k, v)]"
  by (induction k v q rule: std_map_insert.induct) auto

lemma std_map_insert_nonempty [simp]: "std_map_insert k v q \<noteq> []"
  by (cases "(k, v, q)" rule: std_map_insert.cases) (auto split: if_splits)

text \<open>The open old SCO is that of the last rewritten entry.\<close>

definition names_ok :: "(string \<Rightarrow> u8 list option) \<Rightarrow> entry list \<Rightarrow> (sco \<times> u8 list option) list \<Rightarrow> bool" where
  "names_ok V R q \<longleftrightarrow> std_map_inv q \<and> fst ` set q = entry_sco ` set R \<and>
     (R \<noteq> [] \<longrightarrow> last q = (entry_sco (last R), V (SCO_str (entry_sco (last R)))))"

definition files_ok :: "string set \<Rightarrow> (sco \<times> u8 list option) list \<Rightarrow> string option \<Rightarrow> file_pool \<Rightarrow> bool" where
  "files_ok base q current f \<longleftrightarrow> dom f \<subseteq> base \<union> (if q = [] then {} else {SCO_str (fst (last q))}) \<union> set_option current"

lemma names_ok_new:
  assumes "names_ok V R q" and "entry_sco e \<notin> entry_sco ` set R" and "\<forall>x \<in> set R. entry_sco x < entry_sco e"
    and "V (SCO_str (entry_sco e)) = Some c" and "q' = (if q = [] then [] else butlast q @ [(fst (last q), None)])"
  shows "names_ok V (R @ [e]) (std_map_insert (entry_sco e) (Some c) q')" and "map fst q' = map fst q"
    and "last (std_map_insert (entry_sco e) (Some c) q') = (entry_sco e, Some c)"
proof -
  show m: "map fst q' = map fst q"
    using assms(5) by (cases q rule: rev_cases) auto
  then have k: "fst ` set q' = entry_sco ` set R" using assms(1) by (metis list.set_map names_ok_def)
  have "\<forall>k' \<in> fst ` set q'. k' < entry_sco e" unfolding k using assms(3) by blast
  from std_map_insert_last [OF this] have ins: "std_map_insert (entry_sco e) (Some c) q' = q' @ [(entry_sco e, Some c)]" .
  have "std_map_inv q'" using assms(1) m by (simp add: names_ok_def std_map_inv_def)
  then have "std_map_inv (std_map_insert (entry_sco e) (Some c) q')" by (rule std_map_insert_inv)
  then show "names_ok V (R @ [e]) (std_map_insert (entry_sco e) (Some c) q')"
    using k assms(4) by (simp add: names_ok_def ins)
  show "last (std_map_insert (entry_sco e) (Some c) q') = (entry_sco e, Some c)" by (simp add: ins)
qed

context object_store
begin

lemma fetch_old_sco:
  assumes "names_ok V R (sp_sconames s)" and "R \<noteq> []" and "entry_sco e = entry_sco (last R)"
    and "V (SCO_str (entry_sco e)) = Some c"
  shows "fetch_sco env (entry_sco e) s = (Inr c, s)" and "names_ok V (R @ [e]) (sp_sconames s)"
proof -
  let ?q = "sp_sconames s"
  have q: "?q \<noteq> []" using assms(1,2) by (auto simp: names_ok_def)
  have l: "last ?q = (entry_sco e, Some c)" using assms by (simp add: names_ok_def)
  have "distinct (map fst ?q)" using assms(1) std_map_distinct by (auto simp: names_ok_def)
  moreover have "(entry_sco e, Some c) \<in> set ?q" using q l by (metis last_in_set)
  ultimately have "map_of ?q (entry_sco e) = Some (Some c)" by simp
  then show "fetch_sco env (entry_sco e) s = (Inr c, s)"
    using l by (simp add: fetch_sco_def sbind_def sget_def sverify_def verify_def sret_def)
  have "entry_sco e \<in> entry_sco ` set R" using assms(2,3) by simp
  then show "names_ok V (R @ [e]) ?q" using assms by (auto simp: names_ok_def)
qed

lemma fetch_new_sco:
  assumes "po_api env = api" and "inv (sp_backend s)" and "view (sp_backend s) (SCO_str (entry_sco e)) = Some c"
    and "names_ok V R (sp_sconames s)" and "files_ok base (sp_sconames s) (sp_current s) (sp_files s)"
    and "entry_sco e \<notin> entry_sco ` set R" and "\<forall>x \<in> set R. entry_sco x < entry_sco e"
    and "V (SCO_str (entry_sco e)) = Some c" and "SCO_str (entry_sco e) \<notin> base" and "sp_current s \<noteq> Some (SCO_str (entry_sco e))"
    and "\<forall>x \<in> set R. sp_current s \<noteq> Some (SCO_str (entry_sco x))"
  shows "\<exists>b f q n. fetch_sco env (entry_sco e) s =
      (Inr c, s\<lparr>sp_backend := b, sp_files := f, sp_sconames := q, sp_scos_read := n\<rparr>) \<and> inv b \<and>
    view b = view (sp_backend s) \<and> names_ok V (R @ [e]) q \<and> files_ok base q (sp_current s) f \<and>
    (\<forall>p. sp_current s = Some p \<longrightarrow> f p = sp_files s p)"
proof -
  let ?q = "sp_sconames s" and ?n = "SCO_str (entry_sco e)"
  define q' where "q' = (if ?q = [] then [] else butlast ?q @ [(fst (last ?q), None :: u8 list option)])"
  define f' where "f' = (if ?q = [] then sp_files s else (sp_files s)(SCO_str (fst (last ?q)) := None))"
  note nn = names_ok_new [OF assms(4,6-8) q'_def]
  have key: "\<exists>x \<in> set R. entry_sco x = fst (last ?q)" if "?q \<noteq> []"
  proof -
    have "fst (last ?q) \<in> entry_sco ` set R" using that assms(4) by (metis image_eqI last_in_set names_ok_def)
    then show ?thesis by auto
  qed
  then have cur: "sp_current s \<noteq> Some (SCO_str (fst (last ?q)))" if "?q \<noteq> []"
    using that assms(11) by metis
  have nf: "f' ?n = None" and dom: "dom f' \<subseteq> base \<union> set_option (sp_current s)"
    using assms(5,9,10) by (auto simp: f'_def files_ok_def domIff split: if_splits)
  from read_law [OF assms(2) _ assms(3), of False] obtain b where
    b: "sa_read api ?n False (sp_backend s) = (Inr c, b)" "inv b" "view b = view (sp_backend s)" by auto
  have none: "map_of ?q (entry_sco e) = None"
    using assms(4,6) by (simp add: names_ok_def map_of_eq_None_iff)
  let ?s1 = "s\<lparr>sp_sconames := q', sp_files := f'\<rparr>"
  have s1: "(if ?q = [] then sret () else smod (\<lambda>s. s\<lparr>sp_sconames := butlast ?q @ [(fst (last ?q), None)],
      sp_files := (sp_files s)(SCO_str (fst (last ?q)) := None)\<rparr>)) s = (Inr (), ?s1)"
    by (auto simp: q'_def f'_def sret_def smod_def)
  have "fetch_sco env (entry_sco e) s = (Inr c, ?s1\<lparr>sp_files := (f'(?n \<mapsto> []))(?n \<mapsto> c), sp_backend := b,
      sp_scos_read := sp_scos_read s + 1, sp_sconames := std_map_insert (entry_sco e) (Some c) q'\<rparr>)"
    unfolding fetch_sco_def using none s1 nf b assms(1)
    by (simp add: sbind_def [of _ _ s] sbind_def [of _ _ ?s1] sget_def)
       (simp add: sbind_def on_files_def szoom_def newFile_def sget_def smod_def on_backend_def sret_def)
  moreover have "files_ok base (std_map_insert (entry_sco e) (Some c) q') (sp_current s) ((f'(?n \<mapsto> []))(?n \<mapsto> c))"
    using dom nn(3) by (auto simp: files_ok_def)
  moreover have "\<forall>p. sp_current s = Some p \<longrightarrow> ((f'(?n \<mapsto> []))(?n \<mapsto> c)) p = sp_files s p"
    using assms(10) cur by (auto simp: f'_def)
  ultimately show ?thesis using b nn(1)
    by (intro exI [of _ b] exI [of _ "(f'(?n \<mapsto> []))(?n \<mapsto> c)"] exI [of _ "std_map_insert (entry_sco e) (Some c) q'"]
        exI [of _ "sp_scos_read s + 1"]) simp
qed

end

subsection \<open>New SCOs\<close>

lemma nextVersion_eq: "nextVersion v = v + 1"
  by (simp add: nextVersion_def)

lemma reuse_loop_ok:
  assumes "sp_reuse s \<le> i" and "i < length (sp_scodata s)" and "sd_state (sp_scodata s ! i) = Scrubbed"
    and "\<forall>j. sp_reuse s \<le> j \<and> j < i \<longrightarrow> sd_state (sp_scodata s ! j) \<noteq> Scrubbed" and "k = length (sp_scodata s) - sp_reuse s"
  shows "reuse_loop k s = (Inr (), s\<lparr>sp_reuse := i\<rparr>)"
  using assms
proof (induction k arbitrary: s)
  case (Suc k)
  show ?case
  proof (cases "sp_reuse s = i")
    case True
    then have "s\<lparr>sp_reuse := i\<rparr> = s" by (cases s) simp
    then show ?thesis using True Suc.prems(3) by (simp add: sbind_def sget_def sret_def)
  next
    case False
    then have "reuse_loop (Suc k) s = reuse_loop k (s\<lparr>sp_reuse := sp_reuse s + 1\<rparr>)"
      using Suc.prems(1,4) by (simp add: sbind_def sget_def smod_def)
    also have "\<dots> = (Inr (), s\<lparr>sp_reuse := sp_reuse s + 1\<rparr>\<lparr>sp_reuse := i\<rparr>)"
      by (rule Suc.IH) (use Suc.prems False in auto)
    finally show ?thesis by simp
  qed
qed simp

context object_store
begin

lemma new_name_loop_ok:
  assumes "inv b" and "1 \<le> q" and "q \<le> k" and "view b (SCO_str (SCO_new (sco_number s) (sco_cloneID s) (v + of_nat q))) = None"
  shows "\<exists>nm b'. new_name_loop api s k v b = (Inr nm, b') \<and> inv b' \<and> view b' = view b \<and> view b (SCO_str nm) = None \<and>
    sco_number nm = sco_number s \<and> sco_cloneID nm = sco_cloneID s"
  using assms
proof (induction k arbitrary: v q b)
  case (Suc k)
  let ?nm = "SCO_new (sco_number s) (sco_cloneID s) (v + 1)"
  from exists_law [OF Suc.prems(1), of "SCO_str ?nm"] obtain b1 where
    b1: "sa_exists api (SCO_str ?nm) b = (Inr (view b (SCO_str ?nm) \<noteq> None), b1)" "inv b1" "view b1 = view b" by auto
  show ?case
  proof (cases "view b (SCO_str ?nm) = None")
    case True
    with b1 show ?thesis by (auto simp: nextVersion_eq Let_def sbind_def sret_def SCO_new_def)
  next
    case False
    then have "q \<noteq> 1" using Suc.prems(4) by auto
    then have q: "1 \<le> q - 1" "q - 1 \<le> k" "v + of_nat q = (v + 1) + of_nat (q - 1)" using Suc.prems(2,3) by (auto simp: of_nat_diff)
    have "view b1 (SCO_str (SCO_new (sco_number s) (sco_cloneID s) (v + 1 + of_nat (q - 1)))) = None"
      using Suc.prems(4) b1(3) q(3) by simp
    from Suc.IH [OF b1(2) q(1,2) this] b1 False show ?thesis
      by (auto simp: nextVersion_eq Let_def sbind_def)
  qed
qed simp

lemma makeNewSCOName_ok:
  assumes "inv b" and "v \<noteq> sco_version s" and "view b (SCO_str (s\<lparr>sco_version := v\<rparr>)) = None"
  shows "\<exists>nm b'. makeNewSCOName api s b = (Inr nm, b') \<and> inv b' \<and> view b' = view b \<and> view b (SCO_str nm) = None \<and>
    sco_number nm = sco_number s \<and> sco_cloneID nm = sco_cloneID s"
proof -
  let ?q = "unat (v - sco_version s)"
  have "?q < 2 ^ 8" using unat_bound [of "v - sco_version s"] by simp
  moreover have "v - sco_version s \<noteq> 0" using assms(2) by simp
  then have "?q \<noteq> 0" by (simp add: unat_eq_zero)
  moreover have "SCO_new (sco_number s) (sco_cloneID s) (sco_version s + of_nat ?q) = s\<lparr>sco_version := v\<rparr>"
    by (cases s) (simp add: SCO_new_def)
  ultimately show ?thesis
    unfolding makeNewSCOName_def using new_name_loop_ok [OF assms(1), of ?q 255 s "sco_version s"] assms(3) by simp
qed

lemma store_current_sco_ok:
  assumes "po_api env = api" and "inv (sp_backend s)" and "view (sp_backend s) (SCO_str (sp_name s)) = None"
    and "sp_files s path = Some c" and "sp_checksum s = crc c"
  shows "\<exists>b a n. store_current_sco env d path s =
      (Inr (), s\<lparr>sp_access := a, sp_scos_written := n, sp_backend := b, sp_new_scos := sp_new_scos s @ [sp_name s]\<rparr>) \<and>
    inv b \<and> view b = (view (sp_backend s))(SCO_str (sp_name s) \<mapsto> c)"
proof -
  let ?n = "SCO_str (sp_name s)"
  from exists_law [OF assms(2), of ?n] assms(3) obtain b1 where
    b1: "sa_exists api ?n (sp_backend s) = (Inr False, b1)" "inv b1" "view b1 = view (sp_backend s)" by auto
  from write_law [OF b1(2), of ?n True "Some (crc c)" c] obtain b2 where
    b2: "sa_write api (Some c) ?n True (Some (crc c)) b1 = (Inr (), b2)" "inv b2" "view b2 = (view b1)(?n \<mapsto> c)" by auto
  show ?thesis
    using b1 b2 assms(1,4,5)
    by (auto simp: store_current_sco_def access_update_def on_backend_def szoom_def sbind_def sget_def smod_def
        sverify_def verify_def)
qed

end

subsection \<open>What is in the new SCOs\<close>

definition cluster_bytes :: "('b, 'f) pool_env \<Rightarrow> (string \<Rightarrow> u8 list option) \<Rightarrow> entry \<Rightarrow> u8 list" where
  "cluster_bytes env V e =
     take (cluster_size env) (drop (entry_offset e * cluster_size env) (the (V (SCO_str (entry_sco e)))))"

definition chunk :: "nat \<Rightarrow> 'a list \<Rightarrow> nat \<Rightarrow> 'a list" where
  "chunk n xs j = take n (drop (j * n) xs)"

definition new_content :: "('b, 'f) pool_env \<Rightarrow> (string \<Rightarrow> u8 list option) \<Rightarrow> entry list \<Rightarrow> nat \<Rightarrow> u8 list" where
  "new_content env V R j = concat (map (cluster_bytes env V) (chunk (sco_size env) R j))"

text \<open>The objects \<open>V\<close> and the first \<open>k\<close> new SCOs.\<close>

definition stored :: "('b, 'f) pool_env \<Rightarrow> (string \<Rightarrow> u8 list option) \<Rightarrow> sco list \<Rightarrow> entry list \<Rightarrow> nat \<Rightarrow> string \<Rightarrow> u8 list option" where
  "stored env V nms R k = V ++ map_of (map (\<lambda>j. (SCO_str (nms ! j), new_content env V R j)) [0 ..< k])"

lemma chunk_full: "Suc j * n \<le> length xs \<Longrightarrow> chunk n (xs @ ys) j = chunk n xs j"
  by (simp add: chunk_def)

lemma chunk_last: "j * n \<le> length xs \<Longrightarrow> length xs < Suc j * n \<Longrightarrow> chunk n (xs @ [y]) j = chunk n xs j @ [y]"
  by (simp add: chunk_def)

lemma chunk_empty [simp]: "length xs \<le> j * n \<Longrightarrow> chunk n xs j = []"
  by (simp add: chunk_def)

lemma stored_append:
  assumes "k * sco_size env \<le> length R" and "k \<le> length nms"
  shows "stored env V (nms @ nms') (R @ R') k = stored env V nms R k"
proof -
  have "new_content env V (R @ R') j = new_content env V R j \<and> (nms @ nms') ! j = nms ! j" if "j < k" for j
  proof -
    have "Suc j * sco_size env \<le> length R" using mult_le_mono1 [of "Suc j" k "sco_size env"] that assms(1) by simp
    then show ?thesis using that assms(2) by (simp add: new_content_def chunk_full nth_append)
  qed
  then have "map (\<lambda>j. (SCO_str ((nms @ nms') ! j), new_content env V (R @ R') j)) [0 ..< k] =
      map (\<lambda>j. (SCO_str (nms ! j), new_content env V R j)) [0 ..< k]" by simp
  then show ?thesis by (simp only: stored_def)
qed

lemma stored_Suc:
  assumes "distinct nms" and "k < length nms"
  shows "(stored env V nms R k)(SCO_str (nms ! k) \<mapsto> new_content env V R k) = stored env V nms R (Suc k)"
proof -
  let ?f = "\<lambda>j. (SCO_str (nms ! j), new_content env V R j)"
  have "SCO_str (nms ! k) \<notin> fst ` set (map ?f [0 ..< k])"
    using assms by (auto simp: SCO_str_inj nth_eq_iff_index_eq)
  then have "map_of (map ?f [0 ..< k]) (SCO_str (nms ! k)) = None" by (simp only: map_of_eq_None_iff not_False_eq_True)
  then have "map_of (map ?f [0 ..< Suc k]) = (map_of (map ?f [0 ..< k]))(SCO_str (nms ! k) \<mapsto> new_content env V R k)"
    by (auto simp: fun_eq_iff map_add_def split: option.splits)
  then show ?thesis by (simp add: stored_def)
qed

lemma stored_other:
  assumes "\<forall>j < k. n \<noteq> SCO_str (nms ! j)"
  shows "stored env V nms R k n = V n"
proof -
  have "map_of (map (\<lambda>j. (SCO_str (nms ! j), new_content env V R j)) [0 ..< k]) n = None"
    using assms by (auto simp: map_of_eq_None_iff)
  then show ?thesis by (simp add: stored_def map_add_def)
qed

lemma stored_old: "V n = Some v \<Longrightarrow> \<forall>j < k. V (SCO_str (nms ! j)) = None \<Longrightarrow> stored env V nms R k n = Some v"
  using stored_other [of k n nms env V R] by fastforce

text \<open>The SCOs that were reused and the names that were made from theirs.\<close>

definition reused :: "('b, 'f) pool_env \<Rightarrow> sco \<Rightarrow> scrub_sco list \<Rightarrow> nat \<Rightarrow> nat list" where
  "reused env lastS ds ru = filter (\<lambda>i. scrubs env lastS (ds ! i)) [0 ..< ru]"

definition new_name_ok :: "(string \<Rightarrow> u8 list option) \<Rightarrow> scrub_sco list \<Rightarrow> nat \<Rightarrow> sco \<Rightarrow> bool" where
  "new_name_ok V ds i nm \<longleftrightarrow> i < length ds \<and> sco_number nm = sco_number (sd_sconame (ds ! i)) \<and>
     sco_cloneID nm = sco_cloneID (sd_sconame (ds ! i)) \<and> V (SCO_str nm) = None"

lemma new_names_sorted:
  assumes "num_sorted ds" and "list_all2 (new_name_ok V ds) (reused env lastS ds ru) nms"
  shows "sorted_wrt (\<lambda>a b. sco_num a < sco_num b) nms" and "distinct nms"
proof -
  let ?is = "reused env lastS ds ru"
  have "sorted_wrt (<) ?is" by (simp add: reused_def sorted_wrt_filter)
  then show s: "sorted_wrt (\<lambda>a b. sco_num a < sco_num b) nms"
    using assms(2) num_sorted_nth [OF assms(1)]
    by (auto simp: sorted_wrt_iff_nth_less list_all2_conv_all_nth new_name_ok_def sco_num_def)
  then show "distinct nms" by (auto simp: sorted_wrt_iff_nth_less distinct_conv_nth) (metis linorder_neqE_nat less_irrefl)
qed

lemma reused_next:
  assumes "ru \<le> i" and "scrubs env lastS (ds ! i)" and "\<forall>j. ru \<le> j \<and> j < i \<longrightarrow> \<not> scrubs env lastS (ds ! j)"
  shows "reused env lastS ds (Suc i) = reused env lastS ds ru @ [i]"
proof -
  have "[0 ..< Suc i] = [0 ..< ru] @ [ru ..< i] @ [i]" using assms(1) by (metis le_add_diff_inverse upt_add_eq_append upt_Suc_append zero_le append_assoc)
  moreover have "filter (\<lambda>i. scrubs env lastS (ds ! i)) [ru ..< i] = []" using assms(3) by (auto simp: filter_empty_conv)
  ultimately show ?thesis using assms(2) by (simp add: reused_def)
qed

lemma reused_exists:
  assumes "length (reused env lastS ds ru) < length (reused env lastS ds cl)"
  shows "\<exists>i. ru \<le> i \<and> i < cl \<and> scrubs env lastS (ds ! i) \<and> (\<forall>j. ru \<le> j \<and> j < i \<longrightarrow> \<not> scrubs env lastS (ds ! j))"
proof -
  have "\<exists>i. ru \<le> i \<and> i < cl \<and> scrubs env lastS (ds ! i)"
  proof (rule ccontr)
    assume none: "\<not> ?thesis"
    have "set (reused env lastS ds cl) \<subseteq> set (reused env lastS ds ru)" using none by (force simp: reused_def)
    moreover have "distinct (reused env lastS ds k)" for k by (simp add: reused_def)
    ultimately have "length (reused env lastS ds cl) \<le> length (reused env lastS ds ru)"
      by (metis card_mono distinct_card finite_set)
    with assms show False by simp
  qed
  then obtain i where i: "ru \<le> i \<and> i < cl \<and> scrubs env lastS (ds ! i)" by blast
  define m where "m = (LEAST i. ru \<le> i \<and> i < cl \<and> scrubs env lastS (ds ! i))"
  have m: "ru \<le> m \<and> m < cl \<and> scrubs env lastS (ds ! m)" unfolding m_def
    using LeastI [where P = "\<lambda>i. ru \<le> i \<and> i < cl \<and> scrubs env lastS (ds ! i)"] i by blast
  have "\<not> scrubs env lastS (ds ! j)" if "ru \<le> j \<and> j < m" for j
    using not_less_Least [of j "\<lambda>i. ru \<le> i \<and> i < cl \<and> scrubs env lastS (ds ! i)"] that m by (auto simp flip: m_def)
  with m show ?thesis by blast
qed

lemma scodata_at_reuse:
  assumes "i < cl" and "cl \<le> length ds" and "ru \<le> i" and "scrubs env lastS (ds ! i)"
    and "\<forall>j. ru \<le> j \<and> j < i \<longrightarrow> \<not> scrubs env lastS (ds ! j)"
  shows "(scodata_at env lastS ds cl ru)[i := (scodata_at env lastS ds cl ru ! i)\<lparr>sd_state := Reused\<rparr>] =
    scodata_at env lastS ds cl (Suc i)"
proof (rule nth_equalityI)
  fix j assume "j < length ((scodata_at env lastS ds cl ru)[i := (scodata_at env lastS ds cl ru ! i)\<lparr>sd_state := Reused\<rparr>])"
  then have j: "j < length ds" by simp
  consider "j < ru" | "ru \<le> j" "j < i" | "j = i" | "i < j" by linarith
  then show "(scodata_at env lastS ds cl ru)[i := (scodata_at env lastS ds cl ru ! i)\<lparr>sd_state := Reused\<rparr>] ! j =
      scodata_at env lastS ds cl (Suc i) ! j"
    using assms j by cases (auto simp: sco_state_at_def scrubs_def)
qed simp

text \<open>
  Everything the data part of the state must satisfy after the rewritten entries \<open>R\<close>, when the new SCOs have the
  names \<open>nms\<close>. In \<open>sco_open\<close> the last of these is being written; \<open>current_ok\<close> adds that it is not empty.
\<close>

definition sco_open :: "('b, 'f) pool_env \<Rightarrow> (u8 list \<Rightarrow> checksum) \<Rightarrow> (string \<Rightarrow> u8 list option) \<Rightarrow> entry list \<Rightarrow> sco list \<Rightarrow>
    ('b, 'f) sco_pool \<Rightarrow> bool" where
  "sco_open env crc V R nms s \<longleftrightarrow>
     (let j = length nms - 1; c = new_content env V R j
      in nms \<noteq> [] \<and> sp_current s = Some (SCO_str (last nms)) \<and> sp_name s = last nms \<and>
         sp_files s (SCO_str (last nms)) = Some c \<and> j * sco_size env + unat (sp_offset s) = length R \<and>
         unat (sp_offset s) \<le> sco_size env \<and> sp_checksum s = crc c)"

definition current_ok :: "('b, 'f) pool_env \<Rightarrow> (u8 list \<Rightarrow> checksum) \<Rightarrow> (string \<Rightarrow> u8 list option) \<Rightarrow> entry list \<Rightarrow> sco list \<Rightarrow>
    ('b, 'f) sco_pool \<Rightarrow> bool" where
  "current_ok env crc V R nms s \<longleftrightarrow>
     (if nms = [] then R = [] \<and> sp_current s = None \<and> sp_offset s = 0
      else sco_open env crc V R nms s \<and> 0 < sp_offset s)"

text \<open>The part that concerns the names of the new SCOs and the table.\<close>

definition reuse_ok :: "('b, 'f) pool_env \<Rightarrow> (string \<Rightarrow> u8 list option) \<Rightarrow> scrub_sco list \<Rightarrow> sco \<Rightarrow> sco list \<Rightarrow> nat \<Rightarrow> nat \<Rightarrow> nat \<Rightarrow> bool" where
  "reuse_ok env V ds lastS nms cl ru reuse \<longleftrightarrow>
     list_all2 (new_name_ok V ds) (reused env lastS ds ru) nms \<and>
     ru = (if nms = [] then 0 else Suc reuse) \<and> (nms = [] \<longrightarrow> reuse = 0) \<and> ru \<le> cl \<and> cl \<le> length ds"

definition crc_law :: "('b, 'f) pool_env \<Rightarrow> (u8 list \<Rightarrow> checksum) \<Rightarrow> bool" where
  "crc_law env crc \<longleftrightarrow> (\<forall>c. crc c = CheckSum_update (te_hw (po_tlog env)) (te_addr (po_tlog env)) c CheckSum_new)"

context object_store
begin

lemma start_new_sco_ok:
  assumes "po_api env = api" and "inv (sp_backend s)" and "num_sorted ds" and "crc_law env crc"
    and "\<forall>n v. V n = Some v \<longrightarrow> view (sp_backend s) n = Some v" and "pool_objects env V ents ds"
    and "\<forall>i < length ds. scrubs env lastS (ds ! i) \<and> i \<ge> ru \<longrightarrow>
      (\<forall>v. V (SCO_str ((sd_sconame (ds ! i))\<lparr>sco_version := v\<rparr>)) = None \<longrightarrow>
         view (sp_backend s) (SCO_str ((sd_sconame (ds ! i))\<lparr>sco_version := v\<rparr>)) = None)"
    and "reuse_ok env V ds lastS nms cl ru (sp_reuse s)" and "cl = Suc (sp_it s)"
    and "sp_scodata s = scodata_at env lastS ds cl ru" and "length nms < length (reused env lastS ds cl)"
    and "sp_current s = None" and "files_ok base (sp_sconames s) None (sp_files s)" and "\<forall>n \<in> base. \<not> isSCOString n"
    and "sp_sconames s \<noteq> [] \<longrightarrow> V (SCO_str (fst (last (sp_sconames s)))) \<noteq> None"
  shows "\<exists>nm i b. start_new_sco env s = (Inr (), s\<lparr>sp_offset := 0, sp_reuse := i, sp_scodata := scodata_at env lastS ds cl (Suc i),
      sp_backend := b, sp_name := nm, sp_files := (sp_files s)(SCO_str nm \<mapsto> []), sp_current := Some (SCO_str nm),
      sp_checksum := CheckSum_new\<rparr>) \<and> inv b \<and> view b = view (sp_backend s) \<and> view b (SCO_str nm) = None \<and>
    reuse_ok env V ds lastS (nms @ [nm]) cl (Suc i) i"
proof -
  have ro: "list_all2 (new_name_ok V ds) (reused env lastS ds ru) nms" "ru = (if nms = [] then 0 else Suc (sp_reuse s))"
    "nms = [] \<longrightarrow> sp_reuse s = 0" "ru \<le> cl" "cl \<le> length ds" using assms(8) unfolding reuse_ok_def by blast+
  have "length (reused env lastS ds ru) < length (reused env lastS ds cl)"
    using ro(1) assms(11) by (simp add: list_all2_lengthD)
  from reused_exists [OF this] obtain i where i: "ru \<le> i" "i < cl" "scrubs env lastS (ds ! i)"
    "\<forall>j. ru \<le> j \<and> j < i \<longrightarrow> \<not> scrubs env lastS (ds ! j)" by blast
  have il: "i < length ds" using i(2) ro(5) by simp
  have st: "sd_state (scodata_at env lastS ds cl ru ! j) = Scrubbed \<longleftrightarrow> ru \<le> j \<and> j < cl \<and> scrubs env lastS (ds ! j)"
    if "j < length ds" for j
    using that by (auto simp: sco_state_at_def scrubs_def)
  let ?s0 = "s\<lparr>sp_offset := 0\<rparr>" let ?s1 = "?s0\<lparr>sp_reuse := i\<rparr>"
  have rl: "reuse_loop (length ds - sp_reuse s) ?s0 = (Inr (), ?s1)"
  proof (rule reuse_loop_ok)
    show "sp_reuse ?s0 \<le> i" using i(1) ro(2,3) by (auto split: if_splits)
    show "\<forall>j. sp_reuse ?s0 \<le> j \<and> j < i \<longrightarrow> sd_state (sp_scodata ?s0 ! j) \<noteq> Scrubbed"
      using st i(4) il assms(10) by auto
  qed (use assms(10) il st i in simp_all)
  note sc = scodata_at_reuse [OF i(2) ro(5) i(1,3,4)]
  obtain v where v: "v \<noteq> sco_version (sd_sconame (ds ! i))" "V (SCO_str ((sd_sconame (ds ! i))\<lparr>sco_version := v\<rparr>)) = None"
    using assms(6) nth_mem [OF il] unfolding pool_objects_def by blast
  have "view (sp_backend s) (SCO_str ((sd_sconame (ds ! i))\<lparr>sco_version := v\<rparr>)) = None"
    using assms(7) il i(1,3) v(2) by blast
  from makeNewSCOName_ok [OF assms(2) v(1) this] obtain nm b where
    b: "makeNewSCOName api (sd_sconame (ds ! i)) (sp_backend s) = (Inr nm, b)" "inv b" "view b = view (sp_backend s)"
      "view (sp_backend s) (SCO_str nm) = None" "sco_number nm = sco_number (sd_sconame (ds ! i))"
      "sco_cloneID nm = sco_cloneID (sd_sconame (ds ! i))" by blast
  have vn: "V (SCO_str nm) = None" using b(4) assms(5) by (metis not_None_eq)
  have nf: "sp_files s (SCO_str nm) = None"
  proof (rule ccontr)
    assume "sp_files s (SCO_str nm) \<noteq> None"
    then have "SCO_str nm \<in> dom (sp_files s)" by auto
    then have "SCO_str nm \<in> base \<or> sp_sconames s \<noteq> [] \<and> SCO_str nm = SCO_str (fst (last (sp_sconames s)))"
      using assms(13) by (auto simp: files_ok_def split: if_splits)
    then show False using assms(14,15) vn isSCOString_str [of nm] by (metis SCO_str_inj)
  qed
  have run: "start_new_sco env s = (Inr (), s\<lparr>sp_offset := 0, sp_reuse := i, sp_scodata := scodata_at env lastS ds cl (Suc i),
      sp_backend := b, sp_name := nm, sp_files := (sp_files s)(SCO_str nm \<mapsto> []), sp_current := Some (SCO_str nm),
      sp_checksum := CheckSum_new\<rparr>)"
    using rl assms(1,9,10) il i(2) sc b(1) nf
    by (simp add: start_new_sco_def sbind_def sget_def smod_def sverify_def verify_def set_sco_state_def on_backend_def
        on_files_def szoom_def newFile_def)
  have "reuse_ok env V ds lastS (nms @ [nm]) cl (Suc i) i"
    using ro(1,5) b(5,6) vn il i(2) by (simp add: reuse_ok_def reused_next [OF i(1,3,4)] list_all2_appendI new_name_ok_def)
  with run b show ?thesis by metis
qed

end

lemma reuse_ok_names:
  assumes "reuse_ok env V ds lastS nms cl ru reuse" and "nm \<in> set nms"
  shows "V (SCO_str nm) = None" and "\<exists>i < ru. i < length ds \<and> sco_number nm = sco_number (sd_sconame (ds ! i)) \<and> scrubs env lastS (ds ! i)"
proof -
  from assms(2) obtain k where k: "k < length nms" "nm = nms ! k" by (auto simp: in_set_conv_nth)
  have l: "list_all2 (new_name_ok V ds) (reused env lastS ds ru) nms" using assms(1) unfolding reuse_ok_def by blast
  then have n: "new_name_ok V ds (reused env lastS ds ru ! k) nm" and kl: "k < length (reused env lastS ds ru)"
    using k by (auto simp: list_all2_conv_all_nth)
  from n show "V (SCO_str nm) = None" by (simp add: new_name_ok_def)
  have "reused env lastS ds ru ! k \<in> set (reused env lastS ds ru)" using kl by simp
  with n show "\<exists>i < ru. i < length ds \<and> sco_number nm = sco_number (sd_sconame (ds ! i)) \<and> scrubs env lastS (ds ! i)"
    by (auto simp: reused_def new_name_ok_def)
qed

text \<open>A version of a SCO that was not reused yet is none of the new SCOs.\<close>

lemma stored_unused:
  assumes "reuse_ok env V ds lastS nms cl ru reuse" and "num_sorted ds" and "k \<le> length nms" and "i < length ds" and "ru \<le> i"
  shows "stored env V nms R k (SCO_str ((sd_sconame (ds ! i))\<lparr>sco_version := v\<rparr>)) =
    V (SCO_str ((sd_sconame (ds ! i))\<lparr>sco_version := v\<rparr>))"
proof (rule stored_other, intro allI impI notI)
  fix j assume j: "j < k" and eq: "SCO_str ((sd_sconame (ds ! i))\<lparr>sco_version := v\<rparr>) = SCO_str (nms ! j)"
  then have "nms ! j \<in> set nms" "sco_number (nms ! j) = sco_number (sd_sconame (ds ! i))"
    using assms(3) by (auto simp: SCO_str_inj) (metis sco.simps(2) sco.surjective sco.update_convs(1))
  with reuse_ok_names(2) [OF assms(1)] obtain i' where i': "i' < ru" "i' < length ds"
      "sco_number (sd_sconame (ds ! i)) = sco_number (sd_sconame (ds ! i'))" by metis
  with num_sorted_nth [OF assms(2) i'(2) assms(4)] assms(5) show False by (simp add: sco_num_def)
qed

text \<open>The new SCO is open and has room, and the rest of the state is as before.\<close>

definition ready :: "('b, 'f) pool_env \<Rightarrow> ('b \<Rightarrow> bool) \<Rightarrow> ('b \<Rightarrow> string \<Rightarrow> u8 list option) \<Rightarrow> (u8 list \<Rightarrow> checksum) \<Rightarrow>
    (string \<Rightarrow> u8 list option) \<Rightarrow> string set \<Rightarrow> scrub_sco list \<Rightarrow> sco \<Rightarrow> nat \<Rightarrow> entry list \<Rightarrow> sco list \<Rightarrow> nat \<Rightarrow>
    ('b, 'f) sco_pool \<Rightarrow> bool" where
  "ready env I view crc V base ds lastS cl R nms ru s \<longleftrightarrow>
     sco_open env crc V R nms s \<and> unat (sp_offset s) < sco_size env \<and> I (sp_backend s) \<and>
     view (sp_backend s) = stored env V nms R (length nms - 1) \<and>
     reuse_ok env V ds lastS nms cl ru (sp_reuse s) \<and> sp_scodata s = scodata_at env lastS ds cl ru \<and>
     files_ok base (sp_sconames s) (sp_current s) (sp_files s)"

definition same_rest :: "('b, 'f) sco_pool \<Rightarrow> ('b, 'f) sco_pool \<Rightarrow> bool" where
  "same_rest s s' \<longleftrightarrow> sp_it s' = sp_it s \<and> sp_sconames s' = sp_sconames s \<and> sp_buffer s' = sp_buffer s \<and>
     sp_usage s' = sp_usage s \<and> sp_nonrewritten s' = sp_nonrewritten s \<and> sp_rewritten s' = sp_rewritten s \<and>
     sp_relocations s' = sp_relocations s"

lemma crc_start: "crc_law env crc \<Longrightarrow> crc [] = CheckSum_new"
  by (simp add: crc_law_def)

lemma offset_full:
  fixes offset :: u16
  shows "ucast offset \<ge> po_sco_size env \<longleftrightarrow> sco_size env \<le> unat offset"
proof -
  have "unat (ucast offset :: u64) = unat offset"
    using unat_bound [of offset] by (simp add: unsigned_ucast_eq take_bit_nat_eq_self)
  then show ?thesis by (simp add: word_le_nat_alt)
qed

context object_store
begin

lemma finish_current_sco_ok:
  assumes "po_api env = api" and "inv (sp_backend s)" and "0 < sco_size env" and "sco_open env crc V R nms s"
    and "view (sp_backend s) = stored env V nms R (length nms - 1)" and "distinct nms" and "V (SCO_str (last nms)) = None"
  shows "\<exists>b a n. finish_current_sco env (SCO_str (last nms)) s = (Inr (), s\<lparr>sp_current := None, sp_access := a,
      sp_scos_written := n, sp_backend := b, sp_new_scos := sp_new_scos s @ [last nms],
      sp_files := (sp_files s)(SCO_str (last nms) := None)\<rparr>) \<and>
    inv b \<and> view b = stored env V nms R (length nms)"
proof -
  let ?j = "length nms - 1" let ?c = "new_content env V R ?j"
  have o: "nms \<noteq> []" "sp_name s = last nms" "sp_files s (SCO_str (last nms)) = Some ?c" "sp_checksum s = crc ?c"
    using assms(4) by (simp_all add: sco_open_def Let_def)
  have ln: "last nms = nms ! ?j" "?j < length nms" "Suc ?j = length nms" using o(1) by (simp_all add: last_conv_nth)
  have "stored env V nms R ?j (SCO_str (last nms)) = V (SCO_str (last nms))"
    using assms(6) ln by (intro stored_other) (auto simp: SCO_str_inj nth_eq_iff_index_eq)
  then have none: "view (sp_backend s) (SCO_str (last nms)) = None" using assms(5,7) by simp
  let ?s = "s\<lparr>sp_current := None\<rparr>"
  from store_current_sco_ok [of env ?s "SCO_str (last nms)" ?c "po_sco_size env"] assms(1,2) none o obtain b a n where
    st: "store_current_sco env (po_sco_size env) (SCO_str (last nms)) ?s =
        (Inr (), ?s\<lparr>sp_access := a, sp_scos_written := n, sp_backend := b, sp_new_scos := sp_new_scos s @ [last nms]\<rparr>)"
      "inv b" "view b = (view (sp_backend s))(SCO_str (last nms) \<mapsto> ?c)" by auto
  have "view b = stored env V nms R (length nms)"
    using st(3) assms(5) stored_Suc [OF assms(6) ln(2), of env V R, unfolded ln(3)] by (simp add: ln(1))
  moreover have "po_sco_size env > 0" using assms(3) by (simp add: word_less_nat_alt)
  ultimately show ?thesis
    using st(1,2) o(2)
    by (intro exI [of _ b] exI [of _ a] exI [of _ n]) (simp add: finish_current_sco_def sbind_def smod_def sverify_def verify_def)
qed

lemma start_ready:
  assumes env: "po_api env = api" "pool_sizes env" "crc_law env crc"
    and tab: "num_sorted ds" "pool_objects env V ents ds"
    and st: "inv (sp_backend s)" "view (sp_backend s) = stored env V nms R (length nms)" "sp_current s = None"
    and ru: "reuse_ok env V ds lastS nms cl ru (sp_reuse s)" "cl = Suc (sp_it s)" "sp_scodata s = scodata_at env lastS ds cl ru"
    and full: "length R = length nms * sco_size env" "length nms < length (reused env lastS ds cl)"
    and fl: "files_ok base (sp_sconames s) None (sp_files s)" "\<forall>n \<in> base. \<not> isSCOString n"
      "sp_sconames s \<noteq> [] \<longrightarrow> V (SCO_str (fst (last (sp_sconames s)))) \<noteq> None"
  shows "\<exists>nms' ru' s'. start_new_sco env s = (Inr (), s') \<and> (\<exists>x. nms' = nms @ x) \<and>
    ready env inv view crc V base ds lastS cl R nms' ru' s' \<and> same_rest s s'"
proof -
  have S: "0 < sco_size env" using env(2) by (simp add: pool_sizes_def)
  have "\<exists>nm i b. start_new_sco env s = (Inr (), s\<lparr>sp_offset := 0, sp_reuse := i, sp_scodata := scodata_at env lastS ds cl (Suc i),
      sp_backend := b, sp_name := nm, sp_files := (sp_files s)(SCO_str nm \<mapsto> []), sp_current := Some (SCO_str nm),
      sp_checksum := CheckSum_new\<rparr>) \<and> inv b \<and> view b = view (sp_backend s) \<and> view b (SCO_str nm) = None \<and>
    reuse_ok env V ds lastS (nms @ [nm]) cl (Suc i) i"
  proof (rule start_new_sco_ok [OF env(1) st(1) tab(1) env(3) _ tab(2)])
    show "\<forall>n v. V n = Some v \<longrightarrow> view (sp_backend s) n = Some v"
      using stored_old reuse_ok_names(1) [OF ru(1)] st(2) by (metis nth_mem)
    show "\<forall>i < length ds. scrubs env lastS (ds ! i) \<and> i \<ge> ru \<longrightarrow>
      (\<forall>v. V (SCO_str ((sd_sconame (ds ! i))\<lparr>sco_version := v\<rparr>)) = None \<longrightarrow>
         view (sp_backend s) (SCO_str ((sd_sconame (ds ! i))\<lparr>sco_version := v\<rparr>)) = None)"
      using stored_unused [OF ru(1) tab(1) order_refl] st(2) by simp
  qed (use ru st full fl in simp_all)
  then obtain nm i b where
    run: "start_new_sco env s = (Inr (), s\<lparr>sp_offset := 0, sp_reuse := i, sp_scodata := scodata_at env lastS ds cl (Suc i),
      sp_backend := b, sp_name := nm, sp_files := (sp_files s)(SCO_str nm \<mapsto> []), sp_current := Some (SCO_str nm),
      sp_checksum := CheckSum_new\<rparr>)" (is "_ = (_, ?s')") and b: "inv b" "view b = view (sp_backend s)"
    and ru': "reuse_ok env V ds lastS (nms @ [nm]) cl (Suc i) i" by (elim exE conjE) (rule that)
  have "new_content env V R (length nms) = []" using full by (simp add: new_content_def)
  moreover have "stored env V (nms @ [nm]) R (length nms) = stored env V nms R (length nms)"
    using stored_append [of "length nms" env R nms V "[nm]" "[]"] full by simp
  moreover have "files_ok base (sp_sconames s) (Some (SCO_str nm)) ((sp_files s)(SCO_str nm \<mapsto> []))"
    using fl(1) by (auto simp: files_ok_def)
  ultimately have "ready env inv view crc V base ds lastS cl R (nms @ [nm]) (Suc i) ?s'"
    using b ru' st(2) full S crc_start [OF env(3)] by (simp add: ready_def sco_open_def Let_def)
  moreover have "same_rest s ?s'" by (simp add: same_rest_def)
  ultimately show ?thesis using run by blast
qed

lemma maybe_update_ok:
  assumes env: "po_api env = api" "pool_sizes env" "crc_law env crc"
    and tab: "num_sorted ds" "pool_objects env V ents ds"
    and st: "inv (sp_backend s)" "view (sp_backend s) = stored env V nms R (length nms - 1)" "current_ok env crc V R nms s"
    and ru: "reuse_ok env V ds lastS nms cl ru (sp_reuse s)" "cl = Suc (sp_it s)" "sp_scodata s = scodata_at env lastS ds cl ru"
    and enough: "length R = length nms * sco_size env \<Longrightarrow> length nms < length (reused env lastS ds cl)"
    and fl: "files_ok base (sp_sconames s) (sp_current s) (sp_files s)" "\<forall>n \<in> base. \<not> isSCOString n"
      "sp_sconames s \<noteq> [] \<longrightarrow> V (SCO_str (fst (last (sp_sconames s)))) \<noteq> None"
  shows "\<exists>nms' ru' s'. MaybeUpdateCurrentSCO env s = (Inr (), s') \<and> (\<exists>x. nms' = nms @ x) \<and>
    ready env inv view crc V base ds lastS cl R nms' ru' s' \<and> same_rest s s'"
proof (cases "nms = []")
  case True
  then have c: "R = []" "sp_current s = None" using st(3) by (simp_all add: current_ok_def)
  then have "MaybeUpdateCurrentSCO env s = start_new_sco env s"
    by (simp add: MaybeUpdateCurrentSCO_def sbind_def [of _ _ s] sget_def sret_def)
  with start_ready [OF env tab st(1) _ c(2) ru _ _ _ fl(2,3)] st(2) enough fl(1) c True show ?thesis by simp
next
  case ne: False
  then have op: "sco_open env crc V R nms s" using st(3) by (simp add: current_ok_def)
  then have cur: "sp_current s = Some (SCO_str (last nms))" by (simp add: sco_open_def Let_def)
  show ?thesis
  proof (cases "unat (sp_offset s) < sco_size env")
    case True
    then have "MaybeUpdateCurrentSCO env s = (Inr (), s)"
      using cur by (simp add: MaybeUpdateCurrentSCO_def sbind_def sget_def sret_def offset_full linorder_not_le)
    moreover have "ready env inv view crc V base ds lastS cl R nms ru s" using True op st ru fl(1) by (simp add: ready_def)
    moreover have "same_rest s s" by (simp add: same_rest_def)
    ultimately show ?thesis by (intro exI [of _ nms] exI [of _ ru] exI [of _ s]) simp
  next
    case False
    have S: "0 < sco_size env" using env(2) by (simp add: pool_sizes_def)
    have dist: "distinct nms" using ru(1) new_names_sorted(2) [OF tab(1)] unfolding reuse_ok_def by blast
    have vn: "V (SCO_str (last nms)) = None" using reuse_ok_names(1) [OF ru(1)] ne by simp
    from finish_current_sco_ok [OF env(1) st(1) S op st(2) dist vn] obtain b a n where
      f: "finish_current_sco env (SCO_str (last nms)) s = (Inr (), s\<lparr>sp_current := None, sp_access := a,
        sp_scos_written := n, sp_backend := b, sp_new_scos := sp_new_scos s @ [last nms],
        sp_files := (sp_files s)(SCO_str (last nms) := None)\<rparr>)" (is "_ = (_, ?s1)")
        "inv b" "view b = stored env V nms R (length nms)" by (elim exE conjE) (rule that)
    have run: "MaybeUpdateCurrentSCO env s = start_new_sco env ?s1"
      using cur False f(1) by (simp add: MaybeUpdateCurrentSCO_def sbind_def sget_def offset_full)
    have full: "length R = length nms * sco_size env"
      using op False ne by (simp add: sco_open_def Let_def) (metis (no_types, lifting) Suc_pred add.commute le_antisym length_greater_0_conv linorder_not_less mult_Suc)
    have fo: "files_ok base (sp_sconames ?s1) None (sp_files ?s1)" using fl(1) cur by (auto simp: files_ok_def)
    have "\<exists>nms' ru' s'. start_new_sco env ?s1 = (Inr (), s') \<and> (\<exists>x. nms' = nms @ x) \<and>
        ready env inv view crc V base ds lastS cl R nms' ru' s' \<and> same_rest ?s1 s'"
      by (rule start_ready [OF env tab _ _ _ _ _ _ full enough [OF full] fo fl(2)]) (use f(2,3) ru fl(3) in simp_all)
    moreover have "same_rest ?s1 s' \<Longrightarrow> same_rest s s'" for s' by (simp add: same_rest_def)
    ultimately show ?thesis unfolding run by blast
  qed
qed

end

end
