(* ===== verification/Scrub_Rewrite.thy ===== *)
theory Scrub_Rewrite
  imports Scrub_Pool
begin

text \<open>
  The run of the pool of SCOs over the entries of the scrubbed TLog: the invariant that \<^verbatim>\<open>doEntry\<close> keeps
  (src/src/volumedriver/SCOPool.cpp), and what is on the backend and in the three new TLogs at the end.
\<close>

subsection \<open>Rewriting a cluster\<close>

text \<open>The location that the entry \<open>k\<close> of the rewritten ones gets, and what goes into the TLogs.\<close>

definition relocate :: "('b, 'f) pool_env \<Rightarrow> sco list \<Rightarrow> nat \<Rightarrow> entry \<Rightarrow> entry" where
  "relocate env nms k e = e\<lparr>e_loc := (e_loc e)\<lparr>clusterLocation :=
     \<lparr>cl_offset = of_nat (k mod sco_size env), cl_sco = nms ! (k div sco_size env)\<rparr>\<rparr>\<rparr>"

definition relocated :: "('b, 'f) pool_env \<Rightarrow> sco list \<Rightarrow> entry list \<Rightarrow> entry list" where
  "relocated env nms R = map (\<lambda>(k, e). relocate env nms k e) (enumerate 0 R)"

definition reloc_pairs :: "('b, 'f) pool_env \<Rightarrow> sco list \<Rightarrow> entry list \<Rightarrow> entry list" where
  "reloc_pairs env nms R = concat (map (\<lambda>(k, e). [e, relocate env nms k e]) (enumerate 0 R))"

lemma relocated_snoc:
  "relocated env nms (R @ [e]) = relocated env nms R @ [relocate env nms (length R) e]"
  "reloc_pairs env nms (R @ [e]) = reloc_pairs env nms R @ [e, relocate env nms (length R) e]"
  by (simp_all add: relocated_def reloc_pairs_def enumerate_append_eq)

lemma relocated_names:
  assumes "length R \<le> length nms * sco_size env"
  shows "relocated env (nms @ x) R = relocated env nms R" and "reloc_pairs env (nms @ x) R = reloc_pairs env nms R"
proof -
  have "relocate env (nms @ x) k e = relocate env nms k e" if "(k, e) \<in> set (enumerate 0 R)" for k e
  proof -
    have "k < length nms * sco_size env" using that assms by (auto simp: in_set_enumerate_eq)
    then have "k div sco_size env < length nms" by (metis less_mult_imp_div_less)
    then show ?thesis by (simp add: relocate_def nth_append)
  qed
  then show "relocated env (nms @ x) R = relocated env nms R" "reloc_pairs env (nms @ x) R = reloc_pairs env nms R"
    unfolding relocated_def reloc_pairs_def by (auto intro!: map_cong arg_cong [where f = concat])
qed

definition data_ok :: "('b, 'f) pool_env \<Rightarrow> ('b \<Rightarrow> bool) \<Rightarrow> ('b \<Rightarrow> string \<Rightarrow> u8 list option) \<Rightarrow> (u8 list \<Rightarrow> checksum) \<Rightarrow>
    (string \<Rightarrow> u8 list option) \<Rightarrow> string set \<Rightarrow> scrub_sco list \<Rightarrow> sco \<Rightarrow> nat \<Rightarrow> entry list \<Rightarrow> sco list \<Rightarrow> nat \<Rightarrow>
    ('b, 'f) sco_pool \<Rightarrow> bool" where
  "data_ok env I view crc V base ds lastS cl R nms ru s \<longleftrightarrow>
     I (sp_backend s) \<and> view (sp_backend s) = stored env V nms R (length nms - 1) \<and> current_ok env crc V R nms s \<and>
     reuse_ok env V ds lastS nms cl ru (sp_reuse s) \<and> names_ok V R (sp_sconames s) \<and>
     files_ok base (sp_sconames s) (sp_current s) (sp_files s) \<and> length (sp_buffer s) = cluster_size env \<and>
     ew_entries (sp_rewritten s) = relocated env nms R \<and> ew_entries (sp_relocations s) = reloc_pairs env nms R"

text \<open>What a step may change apart from \<open>data_ok\<close> and the table.\<close>

definition same_place :: "('b, 'f) sco_pool \<Rightarrow> ('b, 'f) sco_pool \<Rightarrow> bool" where
  "same_place s s' \<longleftrightarrow> sp_it s' = sp_it s \<and> sp_usage s' = sp_usage s \<and> sp_nonrewritten s' = sp_nonrewritten s"

context object_store
begin

lemma fetch_sco_ok:
  assumes "po_api env = api" and ok: "data_ok env inv view crc V base ds lastS cl R nms ru s"
    and obj: "V (SCO_str (entry_sco e)) = Some c" "\<forall>x \<in> set R. V (SCO_str (entry_sco x)) \<noteq> None"
    and order: "R \<noteq> [] \<and> entry_sco e = entry_sco (last R) \<or>
      entry_sco e \<notin> entry_sco ` set R \<and> (\<forall>x \<in> set R. entry_sco x < entry_sco e)"
    and base: "\<forall>n \<in> base. \<not> isSCOString n"
  shows "\<exists>b f q n. fetch_sco env (entry_sco e) s =
      (Inr c, s\<lparr>sp_backend := b, sp_files := f, sp_sconames := q, sp_scos_read := n\<rparr>) \<and> inv b \<and>
    view b = view (sp_backend s) \<and> names_ok V (R @ [e]) q \<and> files_ok base q (sp_current s) f \<and>
    (\<forall>p. sp_current s = Some p \<longrightarrow> f p = sp_files s p)"
  using order
proof
  assume "R \<noteq> [] \<and> entry_sco e = entry_sco (last R)"
  then have f: "fetch_sco env (entry_sco e) s = (Inr c, s)" "names_ok V (R @ [e]) (sp_sconames s)"
    using fetch_old_sco [of V R s e c] ok obj(1) by (auto simp: data_ok_def)
  have same: "s\<lparr>sp_backend := sp_backend s, sp_files := sp_files s, sp_sconames := sp_sconames s, sp_scos_read := sp_scos_read s\<rparr> = s"
    by (cases s) simp
  show ?thesis
    by (intro exI [of _ "sp_backend s"] exI [of _ "sp_files s"] exI [of _ "sp_sconames s"] exI [of _ "sp_scos_read s"])
      (unfold same, use f ok in \<open>simp add: data_ok_def\<close>)
next
  assume new: "entry_sco e \<notin> entry_sco ` set R \<and> (\<forall>x \<in> set R. entry_sco x < entry_sco e)"
  have ru: "reuse_ok env V ds lastS nms cl ru (sp_reuse s)" using ok by (simp add: data_ok_def)
  have nm: "V (SCO_str nm) = None" if "nm \<in> set nms" for nm by (rule reuse_ok_names(1) [OF ru that])
  have cur: "V p = None" if "sp_current s = Some p" for p
    using ok that nm by (auto simp: data_ok_def current_ok_def sco_open_def Let_def split: if_splits)
  have "\<forall>j < length nms - 1. V (SCO_str (nms ! j)) = None" using nm by simp
  then have "view (sp_backend s) (SCO_str (entry_sco e)) = Some c"
    using stored_old [of V, OF obj(1)] ok by (simp add: data_ok_def)
  moreover have "SCO_str (entry_sco e) \<notin> base" using base isSCOString_str by blast
  moreover have "sp_current s \<noteq> Some (SCO_str (entry_sco e))" using cur obj(1) by fastforce
  moreover have "\<forall>x \<in> set R. sp_current s \<noteq> Some (SCO_str (entry_sco x))" using cur obj(2) by blast
  moreover have "inv (sp_backend s)" "names_ok V R (sp_sconames s)" "files_ok base (sp_sconames s) (sp_current s) (sp_files s)"
    using ok by (simp_all add: data_ok_def)
  ultimately show ?thesis using new obj(1) by (intro fetch_new_sco [OF assms(1)]) blast+
qed

lemma ew_add_good:
  assumes "\<not> isNull (clusterLocation loc)" and "ca \<le> max_valid_cluster_address"
  shows "ew_add ca loc w = (Inr (), w\<lparr>ew_entries := ew_entries w @ [\<lparr>e_clusteraddress = ca, e_loc = loc\<rparr>],
    ew_last := clusterLocation loc\<rparr>)"
  using assms by (simp add: ew_add_def Entry_loc_def verify_def sbind_def smod_def slift_def)

lemma relocate_next:
  assumes "sco_open env crc V R nms s" and "unat (sp_offset s) < sco_size env"
  shows "relocate env nms (length R) e = e\<lparr>e_loc := (e_loc e)\<lparr>clusterLocation := \<lparr>cl_offset = sp_offset s, cl_sco = last nms\<rparr>\<rparr>\<rparr>"
proof -
  have "nms \<noteq> []" "length R = unat (sp_offset s) + (length nms - 1) * sco_size env"
    using assms(1) by (simp_all add: sco_open_def Let_def)
  with assms(2) show ?thesis by (simp add: relocate_def last_conv_nth)
qed

lemma new_content_next:
  assumes "sco_open env crc V R nms s" and "unat (sp_offset s) < sco_size env"
  shows "new_content env V (R @ [e]) (length nms - 1) = new_content env V R (length nms - 1) @ cluster_bytes env V e"
proof -
  have "length R = (length nms - 1) * sco_size env + unat (sp_offset s)" using assms(1) by (simp add: sco_open_def Let_def)
  with chunk_last [of "length nms - 1" "sco_size env" R e] assms(2) show ?thesis by (simp add: new_content_def)
qed

lemma write_cluster_ok:
  assumes r: "ready env inv view crc V base ds lastS cl R nms ru s" and n: "names_ok V (R @ [e]) (sp_sconames s)"
    and buf: "sp_buffer s = cluster_bytes env V e" "length (cluster_bytes env V e) = cluster_size env"
    and wr: "ew_entries (sp_rewritten s) = relocated env nms R" "ew_entries (sp_relocations s) = reloc_pairs env nms R"
    and e: "good_entry e" and env: "pool_sizes env" "crc_law env crc" and num: "sco_number (last nms) \<noteq> 0"
  shows "\<exists>s'. write_cluster env e (e_clusteraddress e) s = (Inr (), s') \<and>
    data_ok env inv view crc V base ds lastS cl (R @ [e]) nms ru s' \<and> same_place s s' \<and> sp_scodata s' = sp_scodata s"
proof -
  let ?n = "SCO_str (last nms)" and ?B = "cluster_bytes env V e" and ?j = "length nms - 1"
  let ?new = "relocate env nms (length R) e"
  have op: "sco_open env crc V R nms s" and off: "unat (sp_offset s) < sco_size env" using r by (simp_all add: ready_def)
  then have cur: "nms \<noteq> []" "sp_current s = Some ?n" "sp_name s = last nms" "sp_files s ?n = Some (new_content env V R ?j)"
    "?j * sco_size env + unat (sp_offset s) = length R" "sp_checksum s = crc (new_content env V R ?j)"
    by (simp_all add: sco_open_def Let_def)
  note rn = relocate_next [OF op off] and cn = new_content_next [OF op off]
  have good: "\<not> isNull (clusterLocation (e_loc e))" "e_clusteraddress e \<le> max_valid_cluster_address"
    "\<not> isNull \<lparr>cl_offset = sp_offset s, cl_sco = last nms\<rparr>" using e num by (simp_all add: good_entry_def isNull_def)
  have off1: "unat (sp_offset s + 1) = Suc (unat (sp_offset s))"
    using off env(1) by (simp add: pool_sizes_def unat_word_ariths)
  have eq: "\<lparr>e_clusteraddress = e_clusteraddress e, e_loc = \<lparr>clusterLocation = \<lparr>cl_offset = sp_offset s, cl_sco = last nms\<rparr>,
      weed = weed (e_loc e)\<rparr>\<rparr> = ?new" unfolding rn by (cases e; cases "e_loc e") simp
  let ?w = "\<lambda>w es. w\<lparr>ew_entries := ew_entries w @ es, ew_last := \<lparr>cl_offset = sp_offset s, cl_sco = last nms\<rparr>\<rparr>"
  define a where "a = std_map_insert (last nms) (po_add env (case map_of (sp_access s) (last nms) of None \<Rightarrow> po_zero env
     | Some x \<Rightarrow> x) (po_access_data env (entry_sco e))) (sp_access s)"
  have run: "write_cluster env e (e_clusteraddress e) s = (Inr (), s\<lparr>sp_access := a,
      sp_files := (sp_files s)(?n \<mapsto> new_content env V R ?j @ ?B),
      sp_checksum := CheckSum_update (te_hw (po_tlog env)) (te_addr (po_tlog env)) ?B (sp_checksum s),
      sp_rewritten := ?w (sp_rewritten s) [?new], sp_relocations := ?w (sp_relocations s) [e, ?new],
      sp_offset := sp_offset s + 1\<rparr>)" (is "_ = (_, ?s')")
    using cur buf good
    by (simp add: write_cluster_def access_update_def sbind_def sget_def smod_def szoom_def Let_def eq ew_add_good a_def)
  have "sco_open env crc V (R @ [e]) nms ?s'"
    using cur cn off1 off env(2) by (simp add: sco_open_def Let_def crc_law_def update_append)
  moreover have "stored env V nms (R @ [e]) ?j = stored env V nms R ?j"
    using stored_append [of ?j env R nms V "[]" "[e]"] cur(5) by simp
  moreover have "0 < sp_offset s + 1" using off1 by (simp add: word_less_nat_alt)
  ultimately have "data_ok env inv view crc V base ds lastS cl (R @ [e]) nms ru ?s'"
    using r n buf wr cur by (auto simp: data_ok_def ready_def current_ok_def relocated_snoc files_ok_def)
  moreover have "same_place s ?s'" by (simp add: same_place_def)
  ultimately show ?thesis using run by (intro exI [of _ ?s']) simp
qed

text \<open>The bytes that the read of the old SCO gives are those of the cluster.\<close>

lemma read_cluster:
  assumes "pool_sizes env" and "V (SCO_str (entry_sco e)) = Some c" and "(entry_offset e + 1) * cluster_size env \<le> length c"
  shows "fd_pread c (cluster_size env) (unat (ucast (cl_offset (clusterLocation (e_loc e))) * po_cluster_size env)) =
    cluster_bytes env V e" and "length (cluster_bytes env V e) = cluster_size env"
proof -
  let ?o = "cl_offset (clusterLocation (e_loc e))"
  have b: "unat ?o < 2 ^ 16" using unat_bound [of ?o] by simp
  have u: "unat (ucast ?o :: u64) = unat ?o" using b by (simp add: unsigned_ucast_eq take_bit_nat_eq_self)
  have "unat ?o * cluster_size env < 2 ^ 16 * cluster_size env" using b assms(1) by (simp add: pool_sizes_def)
  also have "\<dots> \<le> 2 ^ 64" using assms(1) by (simp add: pool_sizes_def)
  finally have "unat (ucast ?o * po_cluster_size env) = entry_offset e * cluster_size env"
    by (simp add: unat_word_ariths u)
  then show "fd_pread c (cluster_size env) (unat (ucast ?o * po_cluster_size env)) = cluster_bytes env V e"
    by (simp add: fd_pread_def cluster_bytes_def assms(2))
  show "length (cluster_bytes env V e) = cluster_size env" using assms(2,3) by (simp add: cluster_bytes_def)
qed

lemma current_ok_length: "current_ok env crc V R nms s \<Longrightarrow> length R \<le> length nms * sco_size env"
  by (cases nms) (auto simp: current_ok_def sco_open_def Let_def)

lemma new_name_number:
  assumes "reuse_ok env V ds lastS nms cl ru reuse" and "\<forall>d \<in> set ds. sco_number (sd_sconame d) \<noteq> 0" and "nm \<in> set nms"
  shows "sco_number nm \<noteq> 0"
  using reuse_ok_names(2) [OF assms(1,3)] assms(2) by force

lemma rewrite_cluster_ok:
  assumes env: "po_api env = api" "pool_sizes env" "crc_law env crc"
    and tab: "num_sorted ds" "pool_objects env V ents ds" "\<forall>d \<in> set ds. sco_number (sd_sconame d) \<noteq> 0"
    and ok: "data_ok env inv view crc V base ds lastS cl R nms ru s" "cl = Suc (sp_it s)" "sp_scodata s = scodata_at env lastS ds cl ru"
    and e: "good_entry e" "e \<in> set ents" "set R \<subseteq> set ents"
      "R \<noteq> [] \<and> entry_sco e = entry_sco (last R) \<or> entry_sco e \<notin> entry_sco ` set R \<and> (\<forall>x \<in> set R. entry_sco x < entry_sco e)"
    and enough: "length R = length nms * sco_size env \<Longrightarrow> length nms < length (reused env lastS ds cl)"
    and base: "\<forall>n \<in> base. \<not> isSCOString n"
  shows "\<exists>nms' ru' s'. rewrite_cluster env e (e_clusteraddress e) s = (Inr (), s') \<and>
    data_ok env inv view crc V base ds lastS cl (R @ [e]) nms' ru' s' \<and> same_place s s' \<and>
    sp_scodata s' = scodata_at env lastS ds cl ru'"
proof -
  have objs: "\<forall>x \<in> set ents. \<exists>c. V (SCO_str (entry_sco x)) = Some c \<and> (entry_offset x + 1) * cluster_size env \<le> length c"
    using tab(2) by (simp add: pool_objects_def)
  then obtain c where c: "V (SCO_str (entry_sco e)) = Some c" "(entry_offset e + 1) * cluster_size env \<le> length c"
    using e(2) by blast
  have VR: "\<forall>x \<in> set R. V (SCO_str (entry_sco x)) \<noteq> None" using objs e(3) by blast
  from fetch_sco_ok [OF env(1) ok(1) c(1) VR e(4) base] obtain b f q n where
    f: "fetch_sco env (entry_sco e) s = (Inr c, s\<lparr>sp_backend := b, sp_files := f, sp_sconames := q, sp_scos_read := n\<rparr>)"
      "inv b" "view b = view (sp_backend s)" "names_ok V (R @ [e]) q" "files_ok base q (sp_current s) f"
      "\<forall>p. sp_current s = Some p \<longrightarrow> f p = sp_files s p" by (elim exE conjE) (rule that)
  note rd = read_cluster [of env V e c, OF env(2) c]
  have buf: "length (sp_buffer s) = cluster_size env" using ok(1) by (simp add: data_ok_def)
  let ?s1 = "s\<lparr>sp_backend := b, sp_files := f, sp_sconames := q, sp_scos_read := n, sp_buffer := cluster_bytes env V e\<rparr>"
  have run: "rewrite_cluster env e (e_clusteraddress e) s =
      sbind (MaybeUpdateCurrentSCO env) (\<lambda>_. write_cluster env e (e_clusteraddress e)) ?s1"
    using f(1) rd buf by (simp add: rewrite_cluster_def Let_def sbind_def [of _ _ s] sbind_def [of "smod _"] smod_def)
  have cur: "current_ok env crc V R nms ?s1"
    using ok(1) f(6) by (auto simp: data_ok_def current_ok_def sco_open_def Let_def)
  have "\<exists>nms' ru' s'. MaybeUpdateCurrentSCO env ?s1 = (Inr (), s') \<and> (\<exists>x. nms' = nms @ x) \<and>
      ready env inv view crc V base ds lastS cl R nms' ru' s' \<and> same_rest ?s1 s'"
  proof (rule maybe_update_ok [OF env tab(1,2) _ _ cur _ _ _ enough _ base])
    show "sp_sconames ?s1 \<noteq> [] \<longrightarrow> V (SCO_str (fst (last (sp_sconames ?s1)))) \<noteq> None"
      using f(4) c(1) by (simp add: names_ok_def)
  qed (use ok f in \<open>simp_all add: data_ok_def\<close>)
  then obtain nms' ru' s2 x where m: "MaybeUpdateCurrentSCO env ?s1 = (Inr (), s2)" "nms' = nms @ x"
    "ready env inv view crc V base ds lastS cl R nms' ru' s2" "same_rest ?s1 s2" by (elim exE conjE) (rule that)
  have ro: "reuse_ok env V ds lastS nms' cl ru' (sp_reuse s2)" "nms' \<noteq> []"
    using m(3) by (simp_all add: ready_def sco_open_def Let_def)
  note rl = relocated_names [OF current_ok_length [OF cur], of x, folded m(2)]
  have "\<exists>s'. write_cluster env e (e_clusteraddress e) s2 = (Inr (), s') \<and>
    data_ok env inv view crc V base ds lastS cl (R @ [e]) nms' ru' s' \<and> same_place s2 s' \<and> sp_scodata s' = sp_scodata s2"
  proof (rule write_cluster_ok [OF m(3) _ _ rd(2) _ _ e(1) env(2,3)])
    show "sco_number (last nms') \<noteq> 0" using new_name_number [OF ro(1) tab(3)] ro(2) by simp
  qed (use m(4) f(4) rl ok(1) in \<open>simp_all add: same_rest_def data_ok_def\<close>)
  then obtain s' where w: "write_cluster env e (e_clusteraddress e) s2 = (Inr (), s')"
    "data_ok env inv view crc V base ds lastS cl (R @ [e]) nms' ru' s'" "same_place s2 s'" "sp_scodata s' = sp_scodata s2" by blast
  have "rewrite_cluster env e (e_clusteraddress e) s = (Inr (), s')" unfolding run using m(1) w(1) by (simp add: sbind_def)
  moreover have "same_place s s'" using w(3) m(4) by (simp add: same_place_def same_rest_def)
  moreover have "sp_scodata s' = scodata_at env lastS ds cl ru'" using w(4) m(3) by (simp add: ready_def)
  ultimately show ?thesis using w(2) by blast
qed

end

subsection \<open>There are enough SCOs to reuse\<close>

lemma length_fibres:
  assumes "finite J" and "\<forall>x \<in> set xs. f x \<in> J" and "\<forall>j \<in> J. length (filter (\<lambda>x. f x = j) xs) \<le> B"
  shows "length xs \<le> card J * B"
proof -
  have "length xs = (\<Sum>j\<in>J. length (filter (\<lambda>x. f x = j) xs))"
    using assms(2)
  proof (induction xs)
    case (Cons x xs)
    have "(\<Sum>j\<in>J. length (filter (\<lambda>y. f y = j) (x # xs))) =
        (\<Sum>j\<in>J. (if f x = j then 1 else 0) + length (filter (\<lambda>y. f y = j) xs))"
      by (intro sum.cong) auto
    also have "\<dots> = 1 + (\<Sum>j\<in>J. length (filter (\<lambda>y. f y = j) xs))"
      using Cons.prems assms(1) by (simp add: sum.distrib)
    finally show ?case using Cons by simp
  qed simp
  also have "\<dots> \<le> card J * B" using sum_bounded_above [of J "\<lambda>j. length (filter (\<lambda>x. f x = j) xs)" B] assms(3) by simp
  finally show ?thesis .
qed

lemma rewritten_scrubs:
  assumes "pool_table ents ds lastS" and "e \<in> set ents"
  shows "rewritten env ents lastS e \<longleftrightarrow> scrubs env lastS (ds ! sco_index ds (entry_sco e))"
  using entry_usage [OF assms] table_entry(2) [OF assms]
  by (auto simp: rewritten_def scrubs_def word_less_nat_alt unat_eq_zero [symmetric])

lemma scrubbed_usage:
  assumes "pool_sizes env" and "scrubs env lastS d"
  shows "unat (sd_usageCount d) \<le> sco_size env"
  using assms by (auto simp: scrubs_def pool_sizes_def word_less_nat_alt)

lemma set_reused: "i \<in> set (reused env lastS ds k) \<longleftrightarrow> i < k \<and> scrubs env lastS (ds ! i)"
  by (auto simp: reused_def)

lemma length_filter_part: "length (filter Q (filter P (pre @ [e]))) \<le> length (filter Q (pre @ e # post))"
proof -
  have c: "filter Q (filter P xs) = filter P (filter Q xs)" for xs by (induction xs) auto
  have "length (filter Q (filter P (pre @ [e]))) \<le> length (filter Q (pre @ [e]))" unfolding c by (rule length_filter_le)
  also have "\<dots> \<le> length (filter Q (pre @ e # post))" by simp
  finally show ?thesis .
qed

lemma enough_scos:
  assumes "pool_table ents ds lastS" and "ents = pre @ e # post" and "rewritten env ents lastS e" and "pool_sizes env"
    and "length (filter (rewritten env ents lastS) pre) = n * sco_size env"
  shows "n < length (reused env lastS ds (Suc (sco_index ds (entry_sco e))))"
proof -
  let ?t = "sco_index ds (entry_sco e)"
  let ?xs = "filter (rewritten env ents lastS) (pre @ [e])" and ?J = "set (reused env lastS ds (Suc ?t))"
  have le: "sco_index ds (entry_sco x) \<le> ?t" if x: "x \<in> set (pre @ [e])" for x
  proof (cases "x = e")
    case False
    with x obtain a b where "pre = a @ x # b" by (auto simp: in_set_conv_decomp)
    with assms(2) show ?thesis by (intro index_mono [OF assms(1), of a x "b @ e # post"]) auto
  qed simp
  have "length ?xs \<le> card ?J * sco_size env"
  proof (rule length_fibres)
    show "\<forall>x \<in> set ?xs. sco_index ds (entry_sco x) \<in> ?J"
      using le rewritten_scrubs [OF assms(1)] assms(2) by (auto simp: set_reused less_Suc_eq_le)
    show "\<forall>i \<in> ?J. length (filter (\<lambda>x. sco_index ds (entry_sco x) = i) ?xs) \<le> sco_size env"
    proof
      fix i assume i: "i \<in> ?J"
      have "?t < length ds" using table_entry(1) [OF assms(1)] assms(2) by simp
      with i have il: "i < length ds" "scrubs env lastS (ds ! i)" by (auto simp: set_reused)
      have "length (filter (\<lambda>x. sco_index ds (entry_sco x) = i) ?xs) \<le> length (filter (\<lambda>x. sco_index ds (entry_sco x) = i) ents)"
        unfolding assms(2) by (rule length_filter_part)
      also have "\<dots> \<le> sco_size env"
        using usage_index [OF assms(1) il(1)] scrubbed_usage [OF assms(4) il(2)] by simp
      finally show "length (filter (\<lambda>x. sco_index ds (entry_sco x) = i) ?xs) \<le> sco_size env" .
    qed
  qed simp
  moreover have "length ?xs = n * sco_size env + 1" using assms(3,5) by simp
  moreover have "card ?J = length (reused env lastS ds (Suc ?t))" by (rule distinct_card) (simp add: reused_def)
  ultimately have "n * sco_size env < length (reused env lastS ds (Suc ?t)) * sco_size env"
    by (metis Suc_eq_plus1 Suc_le_eq)
  then show ?thesis by (simp only: mult_less_cancel2)
qed

text \<open>The old SCO of the next entry is the open one, or it comes after all old SCOs so far.\<close>

lemma table_num_inj:
  assumes "pool_table ents ds lastS" and "x \<in> set ents" and "y \<in> set ents" and "sco_num (entry_sco x) = sco_num (entry_sco y)"
  shows "entry_sco x = entry_sco y"
proof -
  have "num_sorted ds" using assms(1) by (simp add: pool_table_def)
  note n = num_sorted_nth [OF this table_entry(1) [OF assms(1,2)] table_entry(1) [OF assms(1,3)]]
    num_sorted_nth [OF this table_entry(1) [OF assms(1,3)] table_entry(1) [OF assms(1,2)]]
  show ?thesis using n assms(4) table_entry(2) [OF assms(1,2)] table_entry(2) [OF assms(1,3)]
    by (metis less_irrefl linorder_neqE_nat)
qed

lemma rewrite_order:
  assumes "pool_table ents ds lastS" and "ents = pre @ e # post" and "R = filter P pre"
  shows "R \<noteq> [] \<and> entry_sco e = entry_sco (last R) \<or>
    entry_sco e \<notin> entry_sco ` set R \<and> (\<forall>x \<in> set R. entry_sco x < entry_sco e)"
proof -
  have sorted: "sorted (map (\<lambda>e. sco_num (entry_sco e)) ents)" using loc_sorted_nums assms(1) by (simp add: pool_table_def)
  have sub: "set R \<subseteq> set ents" "e \<in> set ents" using assms(2,3) by auto
  have le: "sco_num (entry_sco x) \<le> sco_num (entry_sco e)" if "x \<in> set R" for x
    using that sorted assms(2,3) by (auto simp: sorted_append)
  have "entry_sco e = entry_sco (last R)" if x: "x \<in> set R" "entry_sco e = entry_sco x" for x
  proof -
    have "sorted (map (\<lambda>e. sco_num (entry_sco e)) pre)" using sorted assms(2) by (simp add: sorted_append)
    then have "sorted (map (\<lambda>e. sco_num (entry_sco e)) R)" unfolding assms(3) by (rule sorted_filter)
    moreover obtain R' where R: "R = R' @ [last R]" using x(1) by (metis append_butlast_last_id empty_iff empty_set)
    ultimately have "sorted (map (\<lambda>e. sco_num (entry_sco e)) (R' @ [last R]))" "x \<in> set (R' @ [last R])" using x(1) by simp_all
    then have "sco_num (entry_sco x) \<le> sco_num (entry_sco (last R))" by (auto simp: sorted_append)
    moreover have l: "last R \<in> set R" using x(1) by (metis empty_iff empty_set last_in_set)
    ultimately have "sco_num (entry_sco e) = sco_num (entry_sco (last R))" using le [OF l] x(2) by simp
    then show ?thesis using table_num_inj [OF assms(1) sub(2)] sub(1) l by blast
  qed
  moreover have "entry_sco x < entry_sco e" if "x \<in> set R" "entry_sco e \<notin> entry_sco ` set R" for x
  proof -
    have "sco_num (entry_sco x) \<noteq> sco_num (entry_sco e)"
      using table_num_inj [OF assms(1) _ sub(2), of x] sub(1) that by (metis imageI subsetD)
    with le [OF that(1)] have "sco_number (entry_sco x) < sco_number (entry_sco e)"
      by (simp add: sco_num_def word_less_nat_alt)
    then show ?thesis by (simp add: less_sco_ext_def sco_key_def less_prod_def)
  qed
  ultimately show ?thesis by (cases "entry_sco e \<in> entry_sco ` set R") auto
qed

subsection \<open>One entry\<close>

definition table_pos :: "scrub_sco list \<Rightarrow> entry list \<Rightarrow> nat" where
  "table_pos ds pre = (if pre = [] then 0 else Suc (sco_index ds (entry_sco (last pre))))"

definition pool_inv :: "('b, 'f) pool_env \<Rightarrow> ('b \<Rightarrow> bool) \<Rightarrow> ('b \<Rightarrow> string \<Rightarrow> u8 list option) \<Rightarrow> (u8 list \<Rightarrow> checksum) \<Rightarrow>
    (string \<Rightarrow> u8 list option) \<Rightarrow> string set \<Rightarrow> entry list \<Rightarrow> scrub_sco list \<Rightarrow> sco \<Rightarrow> entry list \<Rightarrow> sco list \<Rightarrow> nat \<Rightarrow>
    ('b, 'f) sco_pool \<Rightarrow> bool" where
  "pool_inv env I view crc V base ents ds lastS pre nms ru s \<longleftrightarrow>
     at_table env ents ds lastS pre ru s \<and>
     data_ok env I view crc V base ds lastS (table_pos ds pre) (filter (rewritten env ents lastS) pre) nms ru s \<and>
     ew_entries (sp_nonrewritten s) = filter (\<lambda>e. \<not> rewritten env ents lastS e) pre"

lemma at_table_next:
  assumes "ents = pre @ e # post" and "t = sco_index ds (entry_sco e)" and "ru \<le> Suc t"
    and "sp_it s = t" and "sp_scodata s = scodata_at env lastS ds (Suc t) ru" and "sp_usage s = u - 1"
    and "entry_sco e \<noteq> lastS \<longrightarrow> unat u = usage_of ents (entry_sco e) - usage_of pre (entry_sco e)"
  shows "at_table env ents ds lastS (pre @ [e]) ru s"
proof -
  have "unat (u - 1) = usage_of ents (entry_sco e) - usage_of (pre @ [e]) (entry_sco e)" if "entry_sco e \<noteq> lastS"
  proof -
    have u: "unat u = Suc (usage_of post (entry_sco e))" using assms(1,7) that by simp
    then have "u \<noteq> 0" by auto
    then have "unat (u - 1) = unat u - 1" by (rule unat_minus_one)
    then show ?thesis using u assms(1) by simp
  qed
  then show ?thesis using assms(2-6) by (simp add: at_table_def Let_def)
qed

lemma table_pos_mono:
  assumes "pool_table ents ds lastS" and "ents = pre @ e # post"
  shows "table_pos ds pre \<le> Suc (sco_index ds (entry_sco e))"
proof (cases pre rule: rev_cases)
  case (snoc pre' l)
  then show ?thesis using index_mono [OF assms(1), of pre' l "e # post" e] assms(2) by (simp add: table_pos_def)
qed (simp add: table_pos_def)

lemma data_ok_move:
  assumes "data_ok env I view crc V base ds lastS cl R nms ru s" and "cl \<le> cl'" and "cl' \<le> length ds"
  shows "data_ok env I view crc V base ds lastS cl' R nms ru
    (s\<lparr>sp_backend_size := z, sp_it := t, sp_scodata := d, sp_usage := u\<rparr>)"
  using assms by (auto simp: data_ok_def reuse_ok_def current_ok_def sco_open_def Let_def)

lemma data_ok_usage:
  "data_ok env I view crc V base ds lastS cl R nms ru (s\<lparr>sp_usage := u\<rparr>) \<longleftrightarrow> data_ok env I view crc V base ds lastS cl R nms ru s"
  "data_ok env I view crc V base ds lastS cl R nms ru (s\<lparr>sp_nonrewritten := w\<rparr>) \<longleftrightarrow> data_ok env I view crc V base ds lastS cl R nms ru s"
  by (simp_all add: data_ok_def current_ok_def sco_open_def)

context object_store
begin

lemma doEntry_ok:
  assumes env: "po_api env = api" "pool_sizes env" "crc_law env crc"
    and tab: "pool_table ents ds lastS" "pool_objects env V ents ds" and base: "\<forall>n \<in> base. \<not> isSCOString n"
    and pre: "ents = pre @ e # post" and ok: "pool_inv env inv view crc V base ents ds lastS pre nms ru s"
  shows "\<exists>nms' ru' s'. SCOPool_doEntry env e s = (Inr (), s') \<and>
    pool_inv env inv view crc V base ents ds lastS (pre @ [e]) nms' ru' s'"
proof -
  let ?t = "sco_index ds (entry_sco e)" and ?R = "filter (rewritten env ents lastS) pre"
  let ?s0 = "s\<lparr>sp_backend_size := sp_backend_size s + po_cluster_size env\<rparr>"
  have e: "e \<in> set ents" and ge: "good_entry e" using pre tab(1) by (simp_all add: pool_table_def)
  have len: "?t < length ds" by (rule table_entry(1) [OF tab(1) e])
  have "at_table env ents ds lastS pre ru ?s0" using ok by (simp add: pool_inv_def at_table_def Let_def)
  from classify_sco_ok [OF tab(1) pre this refl] obtain u where
    cl: "classify_sco env (entry_sco e) ?s0 = (Inr (sco_state_at env lastS (ds ! ?t) ?t (Suc ?t) ru),
       ?s0\<lparr>sp_it := ?t, sp_scodata := scodata_at env lastS ds (Suc ?t) ru, sp_usage := u\<rparr>)" (is "_ = (_, ?s1)")
    and u: "entry_sco e \<noteq> lastS \<longrightarrow> unat u = usage_of ents (entry_sco e) - usage_of pre (entry_sco e)" by blast
  have d1: "data_ok env inv view crc V base ds lastS (Suc ?t) ?R nms ru ?s1"
    by (rule data_ok_move [OF _ table_pos_mono [OF tab(1) pre]]) (use len ok in \<open>simp_all add: pool_inv_def\<close>)
  have st: "sco_state_at env lastS (ds ! ?t) ?t (Suc ?t) ru \<in> (if rewritten env ents lastS e then {Scrubbed, Reused} else {NotScrubbed})"
    unfolding rewritten_scrubs [OF tab(1) e] by (auto simp: sco_state_at_def scrubs_def)
  have run: "SCOPool_doEntry env e s = sbind
      (if rewritten env ents lastS e then rewrite_cluster env e (e_clusteraddress e)
       else szoom sp_nonrewritten (\<lambda>w s. s\<lparr>sp_nonrewritten := w\<rparr>) (ew_add (e_clusteraddress e) (e_loc e)))
      (\<lambda>_. smod (\<lambda>s. s\<lparr>sp_usage := sp_usage s - 1\<rparr>)) ?s1"
    using cl st good_address [OF ge] by (auto simp: SCOPool_doEntry_def sbind_def smod_def slift_def split: if_splits)
  note next_inv = at_table_next [OF pre refl _ _ _ _ u]
  have pos: "table_pos ds (pre @ [e]) = Suc ?t" by (simp add: table_pos_def)
  show ?thesis
  proof (cases "rewritten env ents lastS e")
    case True
    have "\<exists>nms' ru' s'. rewrite_cluster env e (e_clusteraddress e) ?s1 = (Inr (), s') \<and>
      data_ok env inv view crc V base ds lastS (Suc ?t) (?R @ [e]) nms' ru' s' \<and> same_place ?s1 s' \<and>
      sp_scodata s' = scodata_at env lastS ds (Suc ?t) ru'"
    proof (rule rewrite_cluster_ok [OF env _ tab(2) _ d1 _ _ ge e _ rewrite_order [OF tab(1) pre refl] _ base])
      show "length nms < length (reused env lastS ds (Suc ?t))" if "length ?R = length nms * sco_size env"
        by (rule enough_scos [OF tab(1) pre True env(2) that])
    qed (use tab(1) pre in \<open>auto simp: pool_table_def\<close>)
    then obtain nms' ru' s' where r: "rewrite_cluster env e (e_clusteraddress e) ?s1 = (Inr (), s')"
      "data_ok env inv view crc V base ds lastS (Suc ?t) (?R @ [e]) nms' ru' s'" "same_place ?s1 s'"
      "sp_scodata s' = scodata_at env lastS ds (Suc ?t) ru'" by blast
    have "ru' \<le> Suc ?t" using r(2) by (simp add: data_ok_def reuse_ok_def)
    then have "at_table env ents ds lastS (pre @ [e]) ru' (s'\<lparr>sp_usage := sp_usage s' - 1\<rparr>)"
      using r(3,4) by (intro next_inv) (simp_all add: same_place_def)
    moreover have "SCOPool_doEntry env e s = (Inr (), s'\<lparr>sp_usage := sp_usage s' - 1\<rparr>)"
      unfolding run using True r(1) by (simp add: sbind_def smod_def)
    ultimately show ?thesis using r(2,3) True ok pos
      by (intro exI [of _ nms'] exI [of _ ru'] exI [of _ "s'\<lparr>sp_usage := sp_usage s' - 1\<rparr>"])
        (simp add: pool_inv_def data_ok_usage same_place_def)
  next
    case False
    let ?w = "(sp_nonrewritten s)\<lparr>ew_entries := ew_entries (sp_nonrewritten s) @ [e], ew_last := clusterLocation (e_loc e)\<rparr>"
    let ?s2 = "?s1\<lparr>sp_nonrewritten := ?w, sp_usage := u - 1\<rparr>"
    have "SCOPool_doEntry env e s = (Inr (), ?s2)"
      unfolding run using False ge by (simp add: sbind_def smod_def szoom_def ew_add_good good_entry_def)
    moreover have "at_table env ents ds lastS (pre @ [e]) ru ?s2"
      using d1 by (intro next_inv) (simp_all add: data_ok_def reuse_ok_def)
    moreover have "data_ok env inv view crc V base ds lastS (Suc ?t) ?R nms ru ?s2" using d1 by (simp only: data_ok_usage)
    ultimately show ?thesis using ok False pos
      by (intro exI [of _ nms] exI [of _ ru] exI [of _ ?s2]) (simp add: pool_inv_def)
  qed
qed

end

end
