(* ===== verification/Scrub_Run.thy ===== *)
theory Scrub_Run
  imports Scrub_Rewrite
begin

text \<open>
  The whole run of the pool of SCOs (\<^verbatim>\<open>SCOPool::operator()\<close>): it always ends without an exception, every
  rewritten cluster is in a new SCO at the place that the new TLogs name, and the objects that were there are
  still there.
\<close>

subsection \<open>The loop over the entries\<close>

context object_store
begin

lemma doEntry_loop:
  assumes env: "po_api env = api" "pool_sizes env" "crc_law env crc"
    and tab: "pool_table ents ds lastS" "pool_objects env V ents ds" and base: "\<forall>n \<in> base. \<not> isSCOString n"
    and "ents = pre @ post" and "pool_inv env inv view crc V base ents ds lastS pre nms ru s"
  shows "\<exists>nms' ru' s'. sfor post (SCOPool_doEntry env) s = (Inr (), s') \<and>
    pool_inv env inv view crc V base ents ds lastS ents nms' ru' s'"
  using assms(7,8)
proof (induction post arbitrary: pre nms ru s)
  case Nil
  then show ?case by (auto simp: sret_def)
next
  case (Cons e post)
  from doEntry_ok [OF env tab base Cons.prems] obtain nms1 ru1 s1 where
    s1: "SCOPool_doEntry env e s = (Inr (), s1)" "pool_inv env inv view crc V base ents ds lastS (pre @ [e]) nms1 ru1 s1" by blast
  from Cons.IH [OF _ s1(2)] Cons.prems(1) s1(1) show ?case by (simp add: sbind_def)
qed

end

subsection \<open>Before and after the loop\<close>

text \<open>The state that the constructor makes, in a directory of files that are not SCOs.\<close>

definition pool_start :: "('b, 'f) pool_env \<Rightarrow> ('b \<Rightarrow> bool) \<Rightarrow> ('b \<Rightarrow> string \<Rightarrow> u8 list option) \<Rightarrow>
    (string \<Rightarrow> u8 list option) \<Rightarrow> scrub_sco list \<Rightarrow> ('b, 'f) sco_pool \<Rightarrow> bool" where
  "pool_start env I view V ds s \<longleftrightarrow> I (sp_backend s) \<and> view (sp_backend s) = V \<and> sp_scodata s = ds \<and> sp_sconames s = [] \<and>
     length (sp_buffer s) = cluster_size env \<and> sp_current s = None \<and> sp_offset s = 0 \<and>
     (\<forall>n \<in> dom (sp_files s). \<not> isSCOString n) \<and>
     (\<forall>n \<in> {''nonrewritten_tlog'', ''rewritten_tlog'', ''relocations_tlog''}. sp_files s n = None)"

definition pool_base :: "('b, 'f) sco_pool \<Rightarrow> string set" where
  "pool_base s = dom (sp_files s) \<union> {''nonrewritten_tlog'', ''rewritten_tlog'', ''relocations_tlog''}"

lemma pool_tlogs_no_scos:
  "\<not> isSCOString ''nonrewritten_tlog''" "\<not> isSCOString ''rewritten_tlog''" "\<not> isSCOString ''relocations_tlog''"
  by code_simp+

lemma pool_base_no_scos: "pool_start env I view V ds s \<Longrightarrow> \<forall>n \<in> pool_base s. \<not> isSCOString n"
  by (auto simp: pool_start_def pool_base_def pool_tlogs_no_scos)

definition pool_reset :: "('b, 'f) sco_pool \<Rightarrow> ('b, 'f) sco_pool" where
  "pool_reset s = s\<lparr>sp_files := (sp_files s)(''nonrewritten_tlog'' \<mapsto> [], ''rewritten_tlog'' \<mapsto> [], ''relocations_tlog'' \<mapsto> []),
     sp_nonrewritten := ew_new, sp_rewritten := ew_new, sp_relocations := ew_new, sp_it := 0, sp_reuse := 0, sp_usage := 0\<rparr>"

lemma pool_reset_inv:
  assumes "pool_start env I view V ds s" and "pool_table ents ds lastS"
  shows "pool_inv env I view crc V (pool_base s) ents ds lastS [] [] 0 (pool_reset s)"
proof -
  have "stored env V [] [] 0 = V" by (simp add: stored_def)
  with assms(1) scodata_at_start [OF assms(2), of env] show ?thesis
    by (auto simp: pool_inv_def pool_start_def pool_reset_def pool_base_def at_table_def data_ok_def table_pos_def
        current_ok_def reuse_ok_def reused_def names_ok_def files_ok_def std_map_inv_def relocated_def reloc_pairs_def ew_new_def)
qed

lemma SCOPool_run_start:
  assumes "pool_start env I view V ds s"
  shows "SCOPool_run env es s = sbind (sfor (filter isLocation es) (SCOPool_doEntry env)) (\<lambda>_. SCOPool_finish env) (pool_reset s)"
  using assms
  by (simp add: SCOPool_run_def pool_reset_def pool_start_def sbind_def on_files_def szoom_def newFile_def sget_def smod_def)

lemma table_pos_end:
  assumes "pool_table ents ds lastS"
  shows "table_pos ds ents = length ds"
proof (cases "ents = []")
  case True
  then show ?thesis using assms by (simp add: pool_table_def table_pos_def)
next
  case False
  then have m: "last ents \<in> set ents" and l: "lastS = entry_sco (last ents)" using assms by (simp_all add: pool_table_def)
  from last_index [OF assms table_entry(1) [OF assms m]] table_entry(2) [OF assms m] l False
  show ?thesis by (simp add: table_pos_def)
qed

text \<open>What is known when the pool is done.\<close>

definition pool_done :: "('b, 'f) pool_env \<Rightarrow> ('b \<Rightarrow> bool) \<Rightarrow> ('b \<Rightarrow> string \<Rightarrow> u8 list option) \<Rightarrow>
    (string \<Rightarrow> u8 list option) \<Rightarrow> string set \<Rightarrow> entry list \<Rightarrow> scrub_sco list \<Rightarrow> sco \<Rightarrow> sco list \<Rightarrow> nat \<Rightarrow>
    ('b, 'f) sco_pool \<Rightarrow> bool" where
  "pool_done env I view V base ents ds lastS nms ru s \<longleftrightarrow>
     (let R = filter (rewritten env ents lastS) ents
      in I (sp_backend s) \<and> view (sp_backend s) = stored env V nms R (length nms) \<and>
         list_all2 (new_name_ok V ds) (reused env lastS ds ru) nms \<and> ru \<le> length ds \<and>
         length R \<le> length nms * sco_size env \<and> (\<forall>n \<in> dom (sp_files s). n \<in> base \<or> isSCOString n) \<and>
         sp_scodata s = scodata_at env lastS ds (length ds) ru \<and>
         ew_entries (sp_nonrewritten s) = filter (\<lambda>e. \<not> rewritten env ents lastS e) ents \<and>
         ew_entries (sp_rewritten s) = relocated env nms R \<and> ew_entries (sp_relocations s) = reloc_pairs env nms R)"

context object_store
begin

lemma finish_ok:
  assumes env: "po_api env = api" "pool_sizes env" and tab: "pool_table ents ds lastS"
    and ok: "pool_inv env inv view crc V base ents ds lastS ents nms ru s"
  shows "\<exists>s'. SCOPool_finish env s = (Inr (ew_checksum (po_tlog env) (sp_relocations s),
      of_nat (length (ew_entries (sp_relocations s))) div 2), s') \<and>
    pool_done env inv view V base ents ds lastS nms ru s' \<and> sp_relocations s' = sp_relocations s"
proof -
  let ?R = "filter (rewritten env ents lastS) ents" and ?res = "(ew_checksum (po_tlog env) (sp_relocations s),
    of_nat (length (ew_entries (sp_relocations s))) div 2 :: u64)"
  note pos = table_pos_end [OF tab]
  have d: "data_ok env inv view crc V base ds lastS (length ds) ?R nms ru s" "at_table env ents ds lastS ents ru s"
    "ew_entries (sp_nonrewritten s) = filter (\<lambda>e. \<not> rewritten env ents lastS e) ents" using ok pos by (simp_all add: pool_inv_def)
  have cur: "current_ok env crc V ?R nms s" and ru: "reuse_ok env V ds lastS nms (length ds) ru (sp_reuse s)"
    and st: "inv (sp_backend s)" "view (sp_backend s) = stored env V nms ?R (length nms - 1)"
    and wr: "ew_entries (sp_rewritten s) = relocated env nms ?R" "ew_entries (sp_relocations s) = reloc_pairs env nms ?R"
    using d(1) by (simp_all add: data_ok_def)
  have sc: "sp_scodata s = scodata_at env lastS ds (length ds) ru" and it: "sp_it s = length ds \<or> sp_it s + 1 = length ds"
    using d(2) pos tab by (auto simp: at_table_def table_pos_def pool_table_def Let_def split: if_splits)
  define s1 where "s1 = (if sp_it s = length ds then s else s\<lparr>sp_it := sp_it s + 1\<rparr>)"
  have s1: "sp_backend s1 = sp_backend s" "sp_name s1 = sp_name s" "sp_files s1 = sp_files s" "sp_checksum s1 = sp_checksum s"
    "sp_scodata s1 = sp_scodata s" "sp_nonrewritten s1 = sp_nonrewritten s" "sp_rewritten s1 = sp_rewritten s"
    "sp_relocations s1 = sp_relocations s" "sp_offset s1 = sp_offset s" "sp_current s1 = sp_current s" by (simp_all add: s1_def)
  let ?mv = "if sp_it s = length ds then sret () else smod (\<lambda>r. r\<lparr>sp_it := sp_it s + 1\<rparr>)"
  have m: "(if sp_it s = length ds then sret () else smod (\<lambda>r. r\<lparr>sp_it := sp_it s + 1\<rparr>)) s = (Inr (), s1)"
    by (simp add: s1_def sret_def smod_def)
  have run: "SCOPool_finish env s = sbind (if sp_offset s > 0
      then (case sp_current s of None \<Rightarrow> sthrow UndefinedBehaviour | Some path \<Rightarrow> store_current_sco env (ucast (sp_offset s)) path)
      else sret ()) (\<lambda>_. sbind (smod (\<lambda>s. s\<lparr>sp_current := None\<rparr>)) (\<lambda>_. sret ?res)) s1"
    unfolding SCOPool_finish_def sbind_sget sc scodata_at_length prod.case sbind_run [of ?mv s "()" s1, OF m]
    using it s1 by (simp add: sbind_sget sbind_verified cong: option.case_cong)
  have ro: "list_all2 (new_name_ok V ds) (reused env lastS ds ru) nms" "ru \<le> length ds" using ru unfolding reuse_ok_def by blast+
  have fl: "\<forall>n \<in> dom (sp_files s1). n \<in> base \<or> isSCOString n"
  proof -
    have "files_ok base (sp_sconames s) (sp_current s) (sp_files s)" using d(1) by (simp add: data_ok_def)
    moreover have "isSCOString n" if "sp_current s = Some n" for n
      using cur that isSCOString_str by (auto simp: current_ok_def sco_open_def Let_def split: if_splits)
    ultimately show ?thesis using isSCOString_str s1(3) by (fastforce simp: files_ok_def split: if_splits)
  qed
  show ?thesis
  proof (cases "nms = []")
    case True
    then have "SCOPool_finish env s = (Inr ?res, s1\<lparr>sp_current := None\<rparr>)"
      unfolding run using cur by (simp add: current_ok_def sbind_def sret_def smod_def)
    then show ?thesis using True st s1 wr sc ro d(3) fl current_ok_length [OF cur]
      by (intro exI [of _ "s1\<lparr>sp_current := None\<rparr>"]) (simp add: pool_done_def Let_def)
  next
    case False
    then have op: "sco_open env crc V ?R nms s" "0 < sp_offset s" using cur by (simp_all add: current_ok_def)
    let ?j = "length nms - 1" let ?c = "new_content env V ?R ?j"
    have o: "sp_name s = last nms" "sp_current s = Some (SCO_str (last nms))" "sp_files s (SCO_str (last nms)) = Some ?c"
      "sp_checksum s = crc ?c" using op by (simp_all add: sco_open_def Let_def)
    have dist: "distinct nms" using ro(1) new_names_sorted(2) tab by (auto simp: pool_table_def)
    have ln: "last nms = nms ! ?j" "?j < length nms" "Suc ?j = length nms" using False by (simp_all add: last_conv_nth)
    have "stored env V nms ?R ?j (SCO_str (last nms)) = V (SCO_str (last nms))"
      using dist ln by (intro stored_other) (auto simp: SCO_str_inj nth_eq_iff_index_eq)
    then have none: "view (sp_backend s1) (SCO_str (sp_name s1)) = None"
      using st s1 o reuse_ok_names(1) [OF ru, of "last nms"] False by simp
    have "sp_files s1 (SCO_str (last nms)) = Some ?c" "sp_checksum s1 = crc ?c" using s1 o by simp_all
    from store_current_sco_ok [OF env(1) _ none this, of "ucast (sp_offset s)"] st s1 obtain b a n where
      w: "store_current_sco env (ucast (sp_offset s)) (SCO_str (last nms)) s1 = (Inr (), s1\<lparr>sp_access := a,
        sp_scos_written := n, sp_backend := b, sp_new_scos := sp_new_scos s1 @ [sp_name s1]\<rparr>)" (is "_ = (_, ?s2)") "inv b"
        "view b = (view (sp_backend s1))(SCO_str (sp_name s1) \<mapsto> ?c)" by auto
    have vb: "view b = stored env V nms ?R (length nms)"
      using w(3) st s1 o stored_Suc [OF dist ln(2), of env V ?R, unfolded ln(3)] by (simp add: ln(1))
    have "SCOPool_finish env s = (Inr ?res, ?s2\<lparr>sp_current := None\<rparr>)"
      unfolding run using op(2) o w(1) by (simp add: sbind_def sret_def smod_def)
    then show ?thesis using vb w(2) st s1 wr sc ro d(3) fl current_ok_length [OF cur]
      by (intro exI [of _ "?s2\<lparr>sp_current := None\<rparr>"]) (simp add: pool_done_def Let_def)
  qed
qed

lemma SCOPool_run_ok:
  assumes env: "po_api env = api" "pool_sizes env" "crc_law env crc"
    and tab: "pool_table ents ds lastS" "pool_objects env V ents ds" and "ents = filter isLocation es"
    and start: "pool_start env inv view V ds s"
  shows "\<exists>nms ru r s'. SCOPool_run env es s = (Inr (r, of_nat (2 * length (filter (rewritten env ents lastS) ents)) div 2), s') \<and>
    pool_done env inv view V (pool_base s) ents ds lastS nms ru s'"
proof -
  from doEntry_loop [OF env tab pool_base_no_scos [OF start] _ pool_reset_inv [OF start tab(1)], of ents] obtain nms ru s1 where
    l: "sfor ents (SCOPool_doEntry env) (pool_reset s) = (Inr (), s1)"
      "pool_inv env inv view crc V (pool_base s) ents ds lastS ents nms ru s1" by auto
  from finish_ok [OF env(1,2) tab(1) l(2)] obtain s' where
    f: "SCOPool_finish env s1 = (Inr (ew_checksum (po_tlog env) (sp_relocations s1),
      of_nat (length (ew_entries (sp_relocations s1))) div 2), s')" "pool_done env inv view V (pool_base s) ents ds lastS nms ru s'"
      "sp_relocations s' = sp_relocations s1" by blast
  have "length (ew_entries (sp_relocations s1)) = 2 * length (filter (rewritten env ents lastS) ents)"
    using f(2,3) by (simp add: pool_done_def Let_def reloc_pairs_def length_concat comp_def case_prod_beta sum_list_triv)
  then show ?thesis
    unfolding SCOPool_run_start [OF start] assms(6) [symmetric] using l(1) f(1,2) by (simp add: sbind_def) blast
qed

end

end
