(* ===== verification/Scrubber.thy ===== *)
theory Scrubber
  imports TLog_Cutters Scrub_Run Snapshot_Persistor
begin

text \<open>
  The scrubber as a whole (\<^verbatim>\<open>Scrubber::operator()\<close>, src/src/volumedriver/Scrubber.cpp): fetch the snapshots file and
  the TLogs of a snapshot, scrub the metadata, scrub the data, merge and cut the new TLogs, and either store a
  result for the volume to apply or apply it on the backend at once.

  The text of a UUID and the archives of boost are parameters: \<open>se_parse_snapshots\<close> and \<open>se_print_snapshots\<close> are the
  XML archive of a \<^verbatim>\<open>SnapshotPersistor\<close>, \<open>se_print_result\<close> is the text archive of a result. The temporary files of
  the metadata scrub have names of their own and are not in \<open>sb_files\<close>.
\<close>

subsection \<open>Names\<close>

definition isUUIDString :: "string \<Rightarrow> bool" where
  "isUUIDString s \<longleftrightarrow> length s = 36 \<and> hasonlyhexdigits s 0 8 = Inr True \<and> char_at s 8 = CHR ''-'' \<and>
     hasonlyhexdigits s 9 13 = Inr True \<and> char_at s 13 = CHR ''-'' \<and> hasonlyhexdigits s 14 18 = Inr True \<and>
     char_at s 18 = CHR ''-'' \<and> hasonlyhexdigits s 19 23 = Inr True \<and> char_at s 23 = CHR ''-'' \<and>
     hasonlyhexdigits s 24 36 = Inr True"

definition scrub_result_string :: string where
  "scrub_result_string = ''scrubbing_result''"

definition isScrubbingResultString :: "string \<Rightarrow> bool" where
  "isScrubbingResultString name \<longleftrightarrow>
     take (length scrub_result_string) name = scrub_result_string \<and> isUUIDString (drop (length scrub_result_string) name)"

definition snapshotFilename :: string where
  "snapshotFilename = ''snapshots.xml''"

subsection \<open>State and parameters\<close>

text \<open>\<^verbatim>\<open>new_sconames\<close> stays empty: the pool of SCOs has its own copy of the vector.\<close>

record 'f scrub_result =
  sr_snapshot_name :: string
  sr_tlog_names_in :: "uuid list"
  sr_tlogs_out :: tlogs
  sr_relocs :: "string list"
  sr_relocNum :: u64
  sr_sconames_to_be_deleted :: "sco list"
  sr_prefetch :: "(sco \<times> 'f) list"
  sr_new_sconames :: "sco list"

record ('b, 'f) scrub_env =
  se_pool :: "('b, 'f) pool_env"
  se_uuid :: "nat \<Rightarrow> uuid"
  se_text :: "uuid \<Rightarrow> string"
  se_cache_size :: nat
  se_parse_snapshots :: "u8 list \<Rightarrow> persistor result"
  se_print_snapshots :: "persistor \<Rightarrow> u8 list"
  se_print_result :: "'f scrub_result \<Rightarrow> u8 list"
  se_snapshot_name :: string
  se_region_size_exponent :: nat
  se_apply_immediately :: bool
  se_uninitialised :: u16

record 'b scrubber =
  sb_backend :: 'b
  sb_files :: file_pool
  sb_uuids :: nat

definition se_api :: "('b, 'f) scrub_env \<Rightarrow> 'b store_api" where
  "se_api env = po_api (se_pool env)"

definition se_tlog_name :: "('b, 'f) scrub_env \<Rightarrow> uuid \<Rightarrow> string" where
  "se_tlog_name env tlog_id = ''tlog_'' @ se_text env tlog_id"

definition sb_on_backend :: "('b, 'a) sm \<Rightarrow> ('b scrubber, 'a) sm" where
  "sb_on_backend m = szoom sb_backend (\<lambda>b s. s\<lparr>sb_backend := b\<rparr>) m"

definition sb_on_files :: "(file_pool, 'a) sm \<Rightarrow> ('b scrubber, 'a) sm" where
  "sb_on_files m = szoom sb_files (\<lambda>f s. s\<lparr>sb_files := f\<rparr>) m"

definition sb_new_uuid :: "('b, 'f) scrub_env \<Rightarrow> ('b scrubber, uuid) sm" where
  "sb_new_uuid env s = (Inr (se_uuid env (sb_uuids s)), s\<lparr>sb_uuids := sb_uuids s + 1\<rparr>)"

subsection \<open>What is scrubbed\<close>

definition scrub_snapshot :: "('b, 'f) scrub_env \<Rightarrow> ('b scrubber, persistor \<times> u64 \<times> uuid list) sm" where
  "scrub_snapshot env =
     scatch (sbind (sb_on_files (newFile ''snapshots'')) (\<lambda>_.
             sbind (sb_on_backend (sa_read (se_api env) snapshotFilename True)) (\<lambda>content.
             sbind (smod (\<lambda>s. s\<lparr>sb_files := (sb_files s)(''snapshots'' \<mapsto> content)\<rparr>)) (\<lambda>_.
             sbind (slift (se_parse_snapshots env content)) (\<lambda>p.
             sbind (slift (SP_getSnapshotNum (se_snapshot_name env) p)) (\<lambda>n.
               sret (p, n, snd (SP_getTLogsInSnapshot n p []))))))))
       (\<lambda>_. sthrow ScrubberException)"

text \<open>
  A TLog that is not in the directory comes from the backend; its temporary file is not in \<open>sb_files\<close>. The combined reader
  fetches each TLog when it comes to it; here they are fetched before they are read.
\<close>

definition open_tlog :: "('b, 'f) scrub_env \<Rightarrow> uuid \<Rightarrow> ('b scrubber, u8 list) sm" where
  "open_tlog env i =
     sbind (sget (\<lambda>s. sb_files s (se_tlog_name env i))) (\<lambda>file.
     case file of
       Some content \<Rightarrow> sret content
     | None \<Rightarrow> sb_on_backend (sa_read (se_api env) (se_tlog_name env i) False))"

fun fetch_tlogs :: "('b, 'f) scrub_env \<Rightarrow> uuid list \<Rightarrow> ('b scrubber, u8 list list) sm" where
  "fetch_tlogs env [] = sret []"
| "fetch_tlogs env (i # is) =
     sbind (open_tlog env i) (\<lambda>content.
     sbind (fetch_tlogs env is) (\<lambda>contents. sret (content # contents)))"

text \<open>A reader that never came to an end would have no value; \<open>read_tlogs_ok\<close> shows that it does.\<close>

definition read_tlogs :: "tlog_env \<Rightarrow> nat \<Rightarrow> u8 list list \<Rightarrow> entry list result" where
  "read_tlogs env cs files =
     (case read_all (combined_nextAny env cs) (TLogReaderGen_update (te_hash env) cs files) [] of
        Some (r, _) \<Rightarrow> r
      | None \<Rightarrow> Inl UndefinedBehaviour)"

subsection \<open>The parts that do the work\<close>

definition scrub_data :: "('b, 'f) scrub_env \<Rightarrow> entry list \<Rightarrow> sco \<Rightarrow> scrub_sco list \<Rightarrow> ('b scrubber, ('b, 'f) sco_pool \<times> u64) sm" where
  "scrub_data env es lastSCOName scodata s =
     (case SCOPool_new (se_pool env) scodata lastSCOName [] (sb_backend s) (sb_files s) (se_uninitialised env) of
        Inl e \<Rightarrow> (Inl e, s)
      | Inr sp \<Rightarrow>
          (case SCOPool_run (se_pool env) es sp of
             (Inl e, sp') \<Rightarrow> (Inl e, s\<lparr>sb_backend := sp_backend sp', sb_files := sp_files sp'\<rparr>)
           | (Inr (_, n), sp') \<Rightarrow> (Inr (sp', n), s\<lparr>sb_backend := sp_backend sp', sb_files := sp_files sp'\<rparr>)))"

definition scrub_cut_env :: "('b, 'f) scrub_env \<Rightarrow> 'b cut_env" where
  "scrub_cut_env env =
     \<lparr>cu_api = se_api env, cu_tlog = po_tlog (se_pool env), cu_uuid = se_uuid env, cu_text = se_text env,
      cu_cluster_size = po_cluster_size (se_pool env), cu_max_entries = default_max_entries\<rparr>"

text \<open>Running a new cutter.\<close>

definition on_cutter :: "('b cutter, 'a) sm \<Rightarrow> ('b scrubber, 'a) sm" where
  "on_cutter m s =
     (case m \<lparr>ct_backend = sb_backend s, ct_files = sb_files s, ct_uuids = sb_uuids s, ct_tlogs = [], ct_names = [],
              ct_writer = None\<rparr> of
        (r, c) \<Rightarrow> (r, s\<lparr>sb_backend := ct_backend c, sb_files := ct_files c, sb_uuids := ct_uuids c\<rparr>))"

definition cut_relocations :: "('b, 'f) scrub_env \<Rightarrow> entry list \<Rightarrow> ('b scrubber, string list) sm" where
  "cut_relocations env es =
     (if es = [] then sret []
      else sbind (on_cutter (sbind (TheSonOfTLogCutter_run (scrub_cut_env env) es) (\<lambda>_. sget ct_names))) (\<lambda>names.
           sbind (sverify (names \<noteq> []) ''not cutup_relocations.empty()'') (\<lambda>_. sret names)))"

subsection \<open>What is done with the result\<close>

definition store_scrub_result :: "('b, 'f) scrub_env \<Rightarrow> 'f scrub_result \<Rightarrow> ('b scrubber, string) sm" where
  "store_scrub_result env result =
     sbind (sb_new_uuid env) (\<lambda>result_id.
     let result_name = scrub_result_string @ se_text env result_id
     in sbind (sverify (isScrubbingResultString result_name) ''isScrubbingResultString(result_name)'') (\<lambda>_.
        sbind (sb_on_files (newFile result_name)) (\<lambda>_.
        sbind (sb_on_backend (sa_exists (se_api env) result_name)) (\<lambda>there.
        sbind (sverify (\<not> there) ''not backend_interface_->objectExists(result_name)'') (\<lambda>_.
        sbind (sb_on_backend (sa_write (se_api env) (Some (se_print_result env result)) result_name True None)) (\<lambda>_.
          sret result_name))))))"

definition apply_scrub_result :: "('b, 'f) scrub_env \<Rightarrow> persistor \<Rightarrow> u64 \<Rightarrow> 'f scrub_result \<Rightarrow> ('b scrubber, unit) sm" where
  "apply_scrub_result env p n result =
     sbind (sb_new_uuid env) (\<lambda>scrub_id.
     sbind (slift (SP_replace (sr_tlog_names_in result) (sr_tlogs_out result) n scrub_id p)) (\<lambda>(_, p1).
     sbind (slift (SP_setSnapshotScrubbed n True p1)) (\<lambda>p2.
     sbind (sb_on_files (newFile ''new_snapshots.xml'')) (\<lambda>_.
     sbind (sb_on_backend (sa_write (se_api env) (Some (se_print_snapshots env p2)) snapshotFilename True None)) (\<lambda>_.
     sbind (sfor (sr_sconames_to_be_deleted result) (\<lambda>sco. sb_on_backend (sa_remove (se_api env) (SCO_str sco) False))) (\<lambda>_.
       sfor (sr_tlog_names_in result) (\<lambda>i. sb_on_backend (sa_remove (se_api env) (se_tlog_name env i) False))))))))"

subsection \<open>The scrubber\<close>

definition scrub_new_tlogs :: "('b, 'f) scrub_env \<Rightarrow> uuid list \<Rightarrow> ('b, 'f) sco_pool \<Rightarrow> u64 \<Rightarrow> ('b scrubber, 'f scrub_result) sm" where
  "scrub_new_tlogs env ids sp reloc_num =
     sbind (sb_on_files (newFile ''completely_scrubbed_tlog'')) (\<lambda>_.
     sbind (slift (TLogMerger_run [filter isLocation (ew_entries (sp_rewritten sp)),
                                   filter isLocation (ew_entries (sp_nonrewritten sp))])) (\<lambda>(result_tlog, _).
     sbind (on_cutter (TLogCutter_run (scrub_cut_env env) result_tlog)) (\<lambda>tlogs_out.
     sbind (sverify (tlogs_out \<noteq> []) ''not result_.tlogs_out.empty()'') (\<lambda>_.
     sbind (cut_relocations env (ew_entries (sp_relocations sp))) (\<lambda>relocs.
     sbind (slift (getSCONamesToBeDeleted (sp_scodata sp) [])) (\<lambda>sconames.
       sret \<lparr>sr_snapshot_name = se_snapshot_name env, sr_tlog_names_in = ids, sr_tlogs_out = tlogs_out, sr_relocs = relocs,
             sr_relocNum = reloc_num, sr_sconames_to_be_deleted = sconames, sr_prefetch = sp_access sp,
             sr_new_sconames = []\<rparr>))))))"

definition scrub_tlogs :: "('b, 'f) scrub_env \<Rightarrow> uuid list \<Rightarrow> ('b scrubber, 'f scrub_result) sm" where
  "scrub_tlogs env ids =
     sbind (fetch_tlogs env ids) (\<lambda>files.
     sbind (slift (read_tlogs (po_tlog (se_pool env)) (se_cache_size env) files)) (\<lambda>es.
     sbind (sb_on_files (newFile ''metadatascrubbed_tlog'')) (\<lambda>_.
     sbind (slift (metadata_scrub (se_region_size_exponent env) es)) (\<lambda>(scrubbed, last_loc, scodata).
     sbind (scrub_data env scrubbed (cl_sco last_loc) scodata) (\<lambda>(sp, reloc_num). scrub_new_tlogs env ids sp reloc_num)))))"

definition Scrubber_run :: "('b, 'f) scrub_env \<Rightarrow> ('b scrubber, 'f scrub_result \<times> string option) sm" where
  "Scrubber_run env =
     sbind (scrub_snapshot env) (\<lambda>(p, n, ids).
     sbind (sverify (ids \<noteq> []) ''not result_.tlog_names_in.empty()'') (\<lambda>_.
     sbind (scrub_tlogs env ids) (\<lambda>result.
       if \<not> se_apply_immediately env
       then sbind (store_scrub_result env result) (\<lambda>name. sret (result, Some name))
       else sbind (apply_scrub_result env p n result) (\<lambda>_. sret (result, None)))))"

end
