(* ===== verification/Scrub_Result.thy ===== *)
theory Scrub_Result
  imports Scrub_Run
begin

text \<open>
  From the metadata scrub to the pool of SCOs and on to the merged TLog: the table that the metadata scrub makes
  is one the pool can work with, the rewritten and the other entries merge into one TLog in the order of the
  locations, and every entry of it names the same data as before.
\<close>

subsection \<open>The table of the SCOs\<close>

definition keep_last :: "sco \<Rightarrow> scrub_sco list \<Rightarrow> scrub_sco list" where
  "keep_last lastS ds = map (\<lambda>d. if sd_sconame d = lastS then d\<lparr>sd_state := NotScrubbed\<rparr> else d) ds"

lemma keep_last_sco_ok:
  assumes "\<forall>d \<in> set ds. sco_num (sd_sconame d) \<le> sco_num lastS"
  shows "keep_last_sco lastS ds = Inr (keep_last lastS ds)"
  using assms by (induction ds) (simp_all add: keep_last_def verify_def sco_num_def word_le_nat_alt)

lemma keep_last_names: "map sd_sconame (keep_last lastS ds) = map sd_sconame ds"
  by (induction ds) (simp_all add: keep_last_def)

lemma keep_last_num_sorted: "num_sorted ds \<Longrightarrow> num_sorted (keep_last lastS ds)"
  unfolding num_sorted_def using keep_last_names [of lastS ds] by (metis list.map_comp)

lemma latest_last: "ls \<noteq> [] \<Longrightarrow> last (latest ls) = last ls"
  by (cases ls rule: rev_cases) (simp_all add: latest_def)

text \<open>The last SCO of the table is that of the last entry.\<close>

lemma table_last:
  assumes "scrub_input ls" and "ls \<noteq> []" and "ds = add_usage (latest ls) (sco_table ls)"
  shows "ds \<noteq> []" and "sd_sconame (last ds) = entry_sco (last ls)"
    and "\<forall>d \<in> set ds. sco_num (sd_sconame d) \<le> sco_num (entry_sco (last ls))"
proof -
  have ok: "sco_data_ok (map entry_sco ls) (sco_table ls)" by (rule sco_table_ok [OF assms(1)])
  have names: "map sd_sconame ds = map sd_sconame (sco_table ls)" by (simp add: assms(3) add_usage_def)
  have ns: "sd_sconame ` set ds = entry_sco ` set ls"
    using ok arg_cong [OF names, of set] by (simp add: sco_data_ok_def)
  then show ne: "ds \<noteq> []" using assms(2) by auto
  have sorted: "sorted (map (\<lambda>e. sco_num (entry_sco e)) ls)" using loc_sorted_nums assms(1) by (simp add: scrub_input_def)
  have le: "sco_num (entry_sco e) \<le> sco_num (entry_sco (last ls))" if "e \<in> set ls" for e
    using sorted that assms(2) by (cases ls rule: rev_cases) (auto simp: sorted_append)
  have mem: "\<exists>e \<in> set ls. sd_sconame d = entry_sco e" if "d \<in> set ds" for d
  proof -
    have "sd_sconame d \<in> entry_sco ` set ls" using that unfolding ns [symmetric] by (rule imageI)
    then show ?thesis by blast
  qed
  then show all: "\<forall>d \<in> set ds. sco_num (sd_sconame d) \<le> sco_num (entry_sco (last ls))" using le by fastforce
  have srt: "num_sorted ds" using ok names unfolding num_sorted_def sco_data_ok_def by (metis list.map_comp)
  have top: "sco_num (sd_sconame d) \<le> sco_num (sd_sconame (last ds))" if d: "d \<in> set ds" for d
  proof -
    obtain i where i: "i < length ds" "d = ds ! i" using d by (auto simp: in_set_conv_nth)
    have "\<not> length ds - 1 < i" using i(1) by simp
    with num_sorted_nth [OF srt, of "length ds - 1" i] i ne show ?thesis by (simp add: last_conv_nth linorder_not_less)
  qed
  have "entry_sco (last ls) \<in> sd_sconame ` set ds" using ns assms(2) by simp
  then have "sco_num (entry_sco (last ls)) \<le> sco_num (sd_sconame (last ds))" using top by auto
  with all ne have eq: "sco_num (entry_sco (last ls)) = sco_num (sd_sconame (last ds))" by (simp add: le_antisym)
  obtain e where e: "e \<in> set ls" "sd_sconame (last ds) = entry_sco e" using mem [OF last_in_set [OF ne]] by blast
  with eq assms(1,2) show "sd_sconame (last ds) = entry_sco (last ls)" by (auto simp: scrub_input_def)
qed

lemma scrub_pool_table:
  assumes "scrub_input ls" and "ds = add_usage (latest ls) (sco_table ls)"
    and "lastS = (if ls = [] then cl_sco null_location else entry_sco (last ls))"
  shows "keep_last_sco lastS ds = Inr (keep_last lastS ds)" and "pool_table (latest ls) (keep_last lastS ds) lastS"
    and "sd_sconame ` set (keep_last lastS ds) = entry_sco ` set ls"
proof -
  have ok: "sco_data_ok (map entry_sco ls) (sco_table ls)" by (rule sco_table_ok [OF assms(1)])
  have names: "map sd_sconame ds = map sd_sconame (sco_table ls)" by (simp add: assms(2) add_usage_def)
  have ns: "sd_sconame ` set ds = entry_sco ` set ls" using ok arg_cong [OF names, of set] by (simp add: sco_data_ok_def)
  show kn: "sd_sconame ` set (keep_last lastS ds) = entry_sco ` set ls"
    using ns arg_cong [OF keep_last_names [of lastS ds], of set] by simp
  have empty: "ls = [] \<Longrightarrow> ds = []" using ns by auto
  show k: "keep_last_sco lastS ds = Inr (keep_last lastS ds)"
  proof (cases "ls = []")
    case True
    then show ?thesis using empty by (simp add: keep_last_def)
  next
    case False
    then show ?thesis using table_last(3) [OF assms(1) False assms(2)] assms(3) by (intro keep_last_sco_ok) simp
  qed
  have ds: "num_sorted ds" using ok names unfolding num_sorted_def sco_data_ok_def by (metis list.map_comp)
  have st: "sd_state d = Unknown" if "d \<in> set ds" for d using that ok by (auto simp: assms(2) add_usage_def sco_data_ok_def)
  have good: "\<forall>e \<in> set ls. good_entry e" using assms(1) by (simp add: scrub_input_def)
  show "pool_table (latest ls) (keep_last lastS ds) lastS"
    unfolding pool_table_def
  proof (intro conjI)
    show "\<forall>e \<in> set (latest ls). good_entry e" using good set_latest by blast
    show "loc_sorted (latest ls)" using assms(1) by (simp add: scrub_input_def latest_sorted)
    show "num_sorted (keep_last lastS ds)" by (rule keep_last_num_sorted [OF ds])
    show "\<forall>e \<in> set (latest ls). entry_sco e \<in> sd_sconame ` set (keep_last lastS ds)" unfolding kn using set_latest by blast
    show "\<forall>d \<in> set (keep_last lastS ds). sco_number (sd_sconame d) \<noteq> 0"
    proof
      fix d assume "d \<in> set (keep_last lastS ds)"
      then have "sd_sconame d \<in> entry_sco ` set ls" using kn by blast
      then show "sco_number (sd_sconame d) \<noteq> 0" using good by (auto simp: good_entry_def isNull_def)
    qed
    show "\<forall>d \<in> set (keep_last lastS ds). unat (sd_usageCount d) = usage_of (latest ls) (sd_sconame d)"
      using scrub_counts [OF assms(1)] by (auto simp: keep_last_def assms(2))
    show "\<forall>d \<in> set (keep_last lastS ds). sd_state d = (if sd_sconame d = lastS then NotScrubbed else Unknown)"
      using st by (auto simp: keep_last_def)
    show "if latest ls = [] then keep_last lastS ds = [] else lastS = entry_sco (last (latest ls)) \<and>
        keep_last lastS ds \<noteq> [] \<and> lastS = sd_sconame (last (keep_last lastS ds))"
      using empty assms(3) latest_last [of ls] table_last(1,2) [OF assms(1) _ assms(2)]
      by (auto simp: keep_last_def last_map)
  qed
qed

subsection \<open>What a snapshot holds\<close>

text \<open>The data at an address: that of the last entry for it.\<close>

definition volume_data :: "('b, 'f) pool_env \<Rightarrow> (string \<Rightarrow> u8 list option) \<Rightarrow> entry list \<Rightarrow> u64 \<Rightarrow> u8 list option" where
  "volume_data env V es a =
     (case filter (\<lambda>e. e_clusteraddress e = a) es of [] \<Rightarrow> None | es' \<Rightarrow> Some (cluster_bytes env V (last es')))"

lemma volume_data_latest: "volume_data env V (latest es) = volume_data env V es"
  by (rule ext) (simp add: volume_data_def latest_of_address split: list.split)

lemma volume_data_unique:
  assumes "distinct (map e_clusteraddress es)"
  shows "e \<in> set es \<Longrightarrow> volume_data env V es (e_clusteraddress e) = Some (cluster_bytes env V e)"
    and "a \<notin> e_clusteraddress ` set es \<Longrightarrow> volume_data env V es a = None"
proof -
  assume "e \<in> set es"
  with assms have "filter (\<lambda>x. e_clusteraddress x = e_clusteraddress e) es = [e]"
  proof (induction es)
    case (Cons x es)
    show ?case
    proof (cases "x = e")
      case True
      have "e_clusteraddress y \<noteq> e_clusteraddress e" if "y \<in> set es" for y
        using Cons.prems(1) True imageI [OF that, of e_clusteraddress] by auto
      then have "filter (\<lambda>x. e_clusteraddress x = e_clusteraddress e) es = []" by (simp add: filter_empty_conv)
      with True show ?thesis by simp
    next
      case False
      with Cons.prems have "e \<in> set es" "e_clusteraddress x \<noteq> e_clusteraddress e" by (auto simp: image_iff)
      with Cons show ?thesis by simp
    qed
  qed simp
  then show "volume_data env V es (e_clusteraddress e) = Some (cluster_bytes env V e)" by (simp add: volume_data_def)
next
  assume "a \<notin> e_clusteraddress ` set es"
  then have "filter (\<lambda>x. e_clusteraddress x = a) es = []" by (auto simp: filter_empty_conv)
  then show "volume_data env V es a = None" by (simp add: volume_data_def)
qed

subsection \<open>The new locations\<close>

lemma take_drop_concat:
  assumes "\<forall>x \<in> set xs. length x = n" and "i < length xs"
  shows "take n (drop (i * n) (concat xs)) = xs ! i"
  using assms
proof (induction xs arbitrary: i)
  case (Cons x xs)
  then show ?case by (cases i) simp_all
qed simp

lemma set_relocated: "set (relocated env nms R) = {relocate env nms k (R ! k) |k. k < length R}"
  by (auto simp: relocated_def in_set_enumerate_eq image_iff)

lemma relocate_address [simp]: "e_clusteraddress (relocate env nms k e) = e_clusteraddress e"
  by (simp add: relocate_def)

lemma relocate_place:
  assumes "pool_sizes env"
  shows "entry_offset (relocate env nms k e) = k mod sco_size env" and "entry_sco (relocate env nms k e) = nms ! (k div sco_size env)"
proof -
  have "k mod sco_size env < sco_size env" using assms by (simp add: pool_sizes_def)
  then have "k mod sco_size env < 2 ^ 16" using assms by (simp add: pool_sizes_def)
  then show "entry_offset (relocate env nms k e) = k mod sco_size env"
    by (simp add: relocate_def unat_of_nat take_bit_nat_eq_self)
  show "entry_sco (relocate env nms k e) = nms ! (k div sco_size env)" by (simp add: relocate_def)
qed

lemma relocated_data:
  assumes sz: "pool_sizes env" and k: "k < length R"
    and len: "\<forall>e \<in> set R. length (cluster_bytes env V e) = cluster_size env"
    and obj: "V' (SCO_str (nms ! (k div sco_size env))) = Some (new_content env V R (k div sco_size env))"
  shows "cluster_bytes env V' (relocate env nms k (R ! k)) = cluster_bytes env V (R ! k)"
proof -
  let ?S = "sco_size env" let ?j = "k div ?S" and ?i = "k mod ?S" let ?c = "chunk ?S R ?j"
  have S: "0 < ?S" using sz by (simp add: pool_sizes_def)
  define m where "m = ?j * ?S"
  have c: "?c = take ?S (drop m R)" by (simp add: chunk_def m_def)
  have kj: "m + ?i = k" by (simp add: m_def)
  have i: "?i < ?S" using S by simp
  have il: "?i < length ?c" unfolding c using i k kj by simp
  have nth: "?c ! ?i = R ! k" unfolding c using i k kj by simp
  have "set ?c \<subseteq> set R" by (auto simp: chunk_def dest: in_set_takeD in_set_dropD)
  then have "\<forall>x \<in> set (map (cluster_bytes env V) ?c). length x = cluster_size env" using len by auto
  from take_drop_concat [OF this, of ?i] il nth show ?thesis
    unfolding cluster_bytes_def [of env V'] relocate_place [OF sz] by (simp add: obj new_content_def)
qed

lemma relocated_keys:
  assumes sz: "pool_sizes env" and names: "sorted_wrt (\<lambda>a b. sco_num a < sco_num b) nms" and len: "length R \<le> length nms * sco_size env"
  shows "loc_sorted (relocated env nms R)"
proof -
  let ?S = "sco_size env"
  have S: "0 < ?S" "?S < 2 ^ 16" using sz by (simp_all add: pool_sizes_def)
  have key: "loc_key (relocate env nms k e) = sco_num (nms ! (k div ?S)) * 65536 + k mod ?S" for k e
    using relocate_place [OF sz, of nms k e] by (simp add: loc_key_def sco_num_def)
  have lt: "loc_key (relocate env nms i e) < loc_key (relocate env nms k e')" if "i < k" "k < length R" for i k e e'
  proof (cases "i div ?S = k div ?S")
    case True
    then have "i mod ?S < k mod ?S" using that(1) by (metis add_less_cancel_left div_mult_mod_eq)
    with True show ?thesis by (simp add: key)
  next
    case False
    have "k div ?S < length nms" using that(2) len by (metis less_le_trans less_mult_imp_div_less)
    moreover have "i div ?S < k div ?S" using False div_le_mono [of i k ?S] that(1) by simp
    ultimately have "sco_num (nms ! (i div ?S)) < sco_num (nms ! (k div ?S))" using names by (simp add: sorted_wrt_iff_nth_less)
    moreover have "i mod ?S < 65536" using less_trans [OF mod_less_divisor [OF S(1), of i] S(2)] by simp
    ultimately show ?thesis unfolding key by simp
  qed
  then show ?thesis
    by (auto simp: loc_sorted_def sorted_wrt_iff_nth_less relocated_def nth_enumerate_eq)
qed

subsection \<open>The merged TLog\<close>

text \<open>The SCO numbers of the new locations are those of scrubbed SCOs.\<close>

lemma new_number_scrubbed:
  assumes "list_all2 (new_name_ok V ds) (reused env lastS ds ru) nms" and "j < length nms"
  shows "\<exists>i < length ds. scrubs env lastS (ds ! i) \<and> sco_number (nms ! j) = sco_number (sd_sconame (ds ! i)) \<and>
    V (SCO_str (nms ! j)) = None"
proof -
  have "new_name_ok V ds (reused env lastS ds ru ! j) (nms ! j)" "reused env lastS ds ru ! j \<in> set (reused env lastS ds ru)"
    using assms by (auto simp: list_all2_conv_all_nth)
  then show ?thesis by (auto simp: new_name_ok_def set_reused)
qed

lemma kept_sco:
  assumes "pool_table ents ds lastS" and "e \<in> set ents" and "\<not> rewritten env ents lastS e"
    and "i < length ds" and "scrubs env lastS (ds ! i)"
  shows "sco_number (entry_sco e) \<noteq> sco_number (sd_sconame (ds ! i))"
proof
  assume eq: "sco_number (entry_sco e) = sco_number (sd_sconame (ds ! i))"
  let ?t = "sco_index ds (entry_sco e)"
  note t = table_entry [OF assms(1,2)]
  have "num_sorted ds" using assms(1) by (simp add: pool_table_def)
  from num_sorted_nth [OF this t(1) assms(4)] num_sorted_nth [OF this assms(4) t(1)] eq t(2)
  have "?t = i" by (auto simp: sco_num_def)
  then show False using rewritten_scrubs [OF assms(1,2), of env] assms(3,5) by simp
qed

lemma scrub_merge:
  assumes tab: "pool_table ents ds lastS" and sz: "pool_sizes env"
    and nms: "list_all2 (new_name_ok V ds) (reused env lastS ds ru) nms"
    and R: "R = filter (rewritten env ents lastS) ents" "length R \<le> length nms * sco_size env"
    and N: "N = filter (\<lambda>e. \<not> rewritten env ents lastS e) ents"
  shows "\<exists>M. TLogMerger_run [filter isLocation (relocated env nms R), filter isLocation N] =
      Inr (M, if M = [] then null_location else clusterLocation (e_loc (last M))) \<and>
    loc_sorted M \<and> mset M = mset (relocated env nms R @ N) \<and> (\<forall>e \<in> set M. good_entry e)"
proof -
  let ?T = "relocated env nms R" let ?M = "sort_key loc_key (?T @ N)"
  have ns: "num_sorted ds" and good: "\<forall>e \<in> set ents. good_entry e" and srt: "loc_sorted ents"
    and nz: "\<forall>d \<in> set ds. sco_number (sd_sconame d) \<noteq> 0" using tab by (simp_all add: pool_table_def)
  have T: "loc_sorted ?T" by (rule relocated_keys [OF sz new_names_sorted(1) [OF ns nms] R(2)])
  have div: "k div sco_size env < length nms" if "k < length R" for k using that R(2) by (metis less_le_trans less_mult_imp_div_less)
  have gT: "\<forall>e \<in> set ?T. good_entry e"
  proof
    fix e assume "e \<in> set ?T"
    then obtain k where k: "k < length R" "e = relocate env nms k (R ! k)" by (auto simp: set_relocated)
    then have "good_entry (R ! k)" using good nth_mem [OF k(1)] unfolding R(1) by simp
    with new_number_scrubbed [OF nms div [OF k(1)]] nz relocate_place(2) [OF sz, of nms k "R ! k"] k(2)
    show "good_entry e" by (auto simp: good_entry_def isNull_def)
  qed
  have gN: "\<forall>e \<in> set N. good_entry e" using good N by simp
  have disj: "loc_key x \<noteq> loc_key y" if "x \<in> set ?T" "y \<in> set N" for x y
  proof
    assume eq: "loc_key x = loc_key y"
    from that(1) obtain k where k: "k < length R" "x = relocate env nms k (R ! k)" by (auto simp: set_relocated)
    from new_number_scrubbed [OF nms div [OF k(1)]] obtain i where
      i: "i < length ds" "scrubs env lastS (ds ! i)" "sco_number (entry_sco x) = sco_number (sd_sconame (ds ! i))"
      using relocate_place(2) [OF sz, of nms k "R ! k"] k(2) by auto
    have "unat (w :: u16) < 65536" for w using unat_bound [of w] by simp
    then have "loc_key z div 65536 = unat (sco_number (entry_sco z))" for z by (simp add: loc_key_def)
    with eq have "sco_number (entry_sco x) = sco_number (entry_sco y)" by (metis word_unat_eq_iff)
    then show False using kept_sco [OF tab _ _ i(1,2), of y] that(2) N i(3) by simp
  qed
  have "distinct (map loc_key (?T @ N))"
    using T loc_sorted_filter [OF srt, of "\<lambda>e. \<not> rewritten env ents lastS e"] disj
    by (auto simp: loc_sorted_def strict_sorted_iff N [symmetric])
  then have "distinct (map loc_key ?M)" by (metis mset_eq_imp_distinct_iff mset_map mset_sort)
  moreover have "sorted (map loc_key ?M)" by simp
  ultimately have sM: "loc_sorted ?M" by (simp add: loc_sorted_def strict_sorted_iff)
  have gM: "\<forall>e \<in> set ?M. good_entry e" using gT gN by auto
  have "TLogMerger_run [?T, N] = Inr (?M, if ?M = [] then null_location else clusterLocation (e_loc (last ?M)))"
    by (rule TLogMerger_ok [OF _ sM _ gM]) (use T loc_sorted_filter [OF srt] N in auto)
  then show ?thesis using sM gM by (intro exI [of _ ?M]) (simp add: good_locations [OF gT] good_locations [OF gN])
qed

text \<open>
  \<open>V'\<close> has the new SCOs and still the SCOs that are not scrubbed. Then the merged TLog holds the same data as the
  entries it was made of.
\<close>

lemma scrub_keeps_data:
  assumes tab: "pool_table ents ds lastS" and sz: "pool_sizes env" and obj: "pool_objects env V ents ds"
    and addr: "distinct (map e_clusteraddress ents)"
    and R: "R = filter (rewritten env ents lastS) ents" and N: "N = filter (\<lambda>e. \<not> rewritten env ents lastS e) ents"
    and M: "mset M = mset (relocated env nms R @ N)"
    and new: "\<forall>j < length nms. V' (SCO_str (nms ! j)) = Some (new_content env V R j)" "length R \<le> length nms * sco_size env"
    and old: "\<forall>e \<in> set N. V' (SCO_str (entry_sco e)) = V (SCO_str (entry_sco e))"
  shows "volume_data env V' M = volume_data env V ents"
proof
  fix a
  have T: "map e_clusteraddress (relocated env nms R) = map e_clusteraddress R"
    by (rule nth_equalityI) (simp_all add: relocated_def nth_enumerate_eq)
  have "mset (map e_clusteraddress M) = mset (map e_clusteraddress (relocated env nms R @ N))" using M by (metis mset_map)
  also have "\<dots> = mset (map e_clusteraddress (R @ N))" unfolding map_append T by simp
  also have "\<dots> = mset (map e_clusteraddress ents)" using R N by (simp flip: image_mset_union)
  finally have am: "mset (map e_clusteraddress M) = mset (map e_clusteraddress ents)" .
  then have dM: "distinct (map e_clusteraddress M)" using addr by (metis mset_eq_imp_distinct_iff)
  have sM: "set M = set (relocated env nms R) \<union> set N" using M by (metis mset_eq_setD set_append)
  show "volume_data env V' M a = volume_data env V ents a"
  proof (cases "a \<in> e_clusteraddress ` set ents")
    case False
    moreover have "e_clusteraddress ` set M = e_clusteraddress ` set ents" using am by (metis list.set_map mset_eq_setD)
    ultimately show ?thesis using volume_data_unique(2) [OF dM, of a env V'] volume_data_unique(2) [OF addr, of a env V] by simp
  next
    case True
    then obtain e where e: "e \<in> set ents" "a = e_clusteraddress e" by blast
    have "\<exists>x \<in> set M. e_clusteraddress x = a \<and> cluster_bytes env V' x = cluster_bytes env V e"
    proof (cases "rewritten env ents lastS e")
      case True
      then have "e \<in> set R" using e(1) R by simp
      then obtain k where k: "k < length R" "R ! k = e" by (auto simp: in_set_conv_nth)
      have len: "\<forall>x \<in> set R. length (cluster_bytes env V x) = cluster_size env"
      proof
        fix x assume "x \<in> set R"
        then obtain c where "V (SCO_str (entry_sco x)) = Some c" "(entry_offset x + 1) * cluster_size env \<le> length c"
          using obj R by (auto simp: pool_objects_def)
        then show "length (cluster_bytes env V x) = cluster_size env" by (simp add: cluster_bytes_def)
      qed
      have "k div sco_size env < length nms" using k(1) new(2) by (metis less_le_trans less_mult_imp_div_less)
      then have "V' (SCO_str (nms ! (k div sco_size env))) = Some (new_content env V R (k div sco_size env))" using new(1) by blast
      from relocated_data [where V' = V' and nms = nms, OF sz k(1) len this] k(2) e(2) show ?thesis
        using k(1) sM by (intro bexI [of _ "relocate env nms k (R ! k)"]) (auto simp: set_relocated)
    next
      case False
      then have "e \<in> set N" using e(1) N by simp
      with old sM e(2) show ?thesis by (intro bexI [of _ e]) (auto simp: cluster_bytes_def)
    qed
    then obtain x where "x \<in> set M" "e_clusteraddress x = a" "cluster_bytes env V' x = cluster_bytes env V e" by blast
    then show ?thesis using volume_data_unique(1) [OF dM, of x env V'] volume_data_unique(1) [OF addr e(1), of env V] e(2) by simp
  qed
qed

end
