(* ===== verification/Scrubber_Correct.thy ===== *)
theory Scrubber_Correct
  imports Scrubber Scrub_Result
begin

text \<open>
  Correctness of the scrubber: on a store that keeps what is written to it, a scrub succeeds, and the snapshot
  holds the same data afterwards, in the new TLogs and SCOs, also when the old ones are deleted.
\<close>

subsection \<open>What the scrubber relies on\<close>

definition snapshot_entries :: "bool \<Rightarrow> (uuid \<Rightarrow> string) \<Rightarrow> (string \<Rightarrow> u8 list option) \<Rightarrow> uuid list \<Rightarrow> entry list" where
  "snapshot_entries hash nm V ids = filter isLocation (concat (map (\<lambda>i. file_entries hash (the (V (nm i)))) ids))"

text \<open>The settings of the scrubber and the text of UUIDs.\<close>

definition scrub_settings :: "('b, 'f) scrub_env \<Rightarrow> (u8 list \<Rightarrow> checksum) \<Rightarrow> bool" where
  "scrub_settings env crc \<longleftrightarrow> pool_sizes (se_pool env) \<and> crc_law (se_pool env) crc \<and> se_region_size_exponent env < 64 \<and>
     0 < se_cache_size env \<and> se_cache_size env * Entry_getDataSize (te_hash (po_tlog (se_pool env))) < 2 ^ 32 \<and>
     inj (se_text env) \<and> (\<forall>u. isUUIDString (se_text env u))"

text \<open>
  The TLogs of the snapshot and the SCOs they name are on the backend; each of these SCOs has a version that is
  not taken. The UUIDs that may be drawn are different, and no object has a name that is made from one of them.
\<close>

definition scrub_uuids :: "nat \<Rightarrow> entry list \<Rightarrow> nat" where
  "scrub_uuids n ls = n + 3 * length ls + 3"

definition scrub_objects :: "('b, 'f) scrub_env \<Rightarrow> (string \<Rightarrow> u8 list option) \<Rightarrow> uuid list \<Rightarrow> entry list \<Rightarrow> nat \<Rightarrow> bool" where
  "scrub_objects env V ids ls n \<longleftrightarrow>
     (\<forall>i \<in> set ids. V (se_tlog_name env i) \<noteq> None) \<and>
     ls = snapshot_entries (te_hash (po_tlog (se_pool env))) (se_tlog_name env) V ids \<and> scrub_input ls \<and> length ls < 2 ^ 63 \<and>
     (\<forall>e \<in> set ls. \<exists>c. V (SCO_str (entry_sco e)) = Some c \<and> (entry_offset e + 1) * cluster_size (se_pool env) \<le> length c) \<and>
     (\<forall>e \<in> set ls. \<exists>v. v \<noteq> sco_version (entry_sco e) \<and> V (SCO_str ((entry_sco e)\<lparr>sco_version := v\<rparr>)) = None) \<and>
     inj_on (se_uuid env) {n ..< scrub_uuids n ls} \<and>
     (\<forall>k \<in> {n ..< scrub_uuids n ls}. \<forall>pre \<in> {''tlog_'', ''relocation_tlog_'', scrub_result_string}.
        V (pre @ se_text env (se_uuid env k)) = None)"

lemma scrub_objectsD:
  assumes "scrub_objects env V ids ls n"
  shows "scrub_input ls" and "\<forall>i \<in> set ids. V (se_tlog_name env i) \<noteq> None" and "length ls < 2 ^ 63"
    and "ls = snapshot_entries (te_hash (po_tlog (se_pool env))) (se_tlog_name env) V ids"
    and "\<forall>e \<in> set ls. \<exists>c. V (SCO_str (entry_sco e)) = Some c \<and> (entry_offset e + 1) * cluster_size (se_pool env) \<le> length c"
    and "\<forall>e \<in> set ls. \<exists>v. v \<noteq> sco_version (entry_sco e) \<and> V (SCO_str ((entry_sco e)\<lparr>sco_version := v\<rparr>)) = None"
    and "inj_on (se_uuid env) {n ..< scrub_uuids n ls}"
    and "\<forall>k \<in> {n ..< scrub_uuids n ls}. \<forall>pre \<in> {''tlog_'', ''relocation_tlog_'', scrub_result_string}.
      V (pre @ se_text env (se_uuid env k)) = None"
  using assms unfolding scrub_objects_def by - (elim conjE, assumption)+

subsection \<open>Reading the TLogs\<close>

lemma read_tlogs_ok:
  assumes "0 < cs" and "cs * Entry_getDataSize (te_hash env) < 2 ^ 32"
  shows "read_tlogs env cs files = Inr (concat (map (file_entries (te_hash env)) files))"
proof -
  note u = combined_update [OF assms, of files]
  from comb.read_all_ok [OF u(1), of "[]"] obtain r' where
    "read_all (combined_nextAny env cs) (TLogReaderGen_update (te_hash env) cs files) [] =
      Some (Inr (concat (map (file_entries (te_hash env)) files)), r')" using u(2) by auto
  then show ?thesis by (simp add: read_tlogs_def)
qed

context object_store
begin

lemma fetch_tlogs_ok:
  assumes "se_api env = api" and "inv (sb_backend s)" and "\<forall>i \<in> set ids. view (sb_backend s) (se_tlog_name env i) \<noteq> None"
    and "\<forall>i. sb_files s (se_tlog_name env i) = None"
  shows "\<exists>b. fetch_tlogs env ids s = (Inr (map (\<lambda>i. the (view (sb_backend s) (se_tlog_name env i))) ids), s\<lparr>sb_backend := b\<rparr>) \<and>
    inv b \<and> view b = view (sb_backend s)"
  using assms(2-4)
proof (induction ids arbitrary: s)
  case Nil
  then show ?case by (intro exI [of _ "sb_backend s"]) (simp add: sret_def)
next
  case (Cons i ids)
  have ne: "se_tlog_name env i \<noteq> []" by (simp add: se_tlog_name_def)
  obtain c where c: "view (sb_backend s) (se_tlog_name env i) = Some c" using Cons.prems(2) by auto
  from read_law [OF Cons.prems(1) ne c, of False] obtain b where
    b: "sa_read api (se_tlog_name env i) False (sb_backend s) = (Inr c, b)" "inv b" "view b = view (sb_backend s)" by blast
  from Cons.IH [of "s\<lparr>sb_backend := b\<rparr>"] b Cons.prems(2,3) obtain b' where
    b': "fetch_tlogs env ids (s\<lparr>sb_backend := b\<rparr>) = (Inr (map (\<lambda>i. the (view b (se_tlog_name env i))) ids), s\<lparr>sb_backend := b'\<rparr>)"
      "inv b'" "view b' = view b" by auto
  have "open_tlog env i s = (Inr c, s\<lparr>sb_backend := b\<rparr>)"
    using b(1) assms(1) Cons.prems(3) by (simp add: open_tlog_def sbind_sget sb_on_backend_def szoom_def)
  with b b' c show ?case by (intro exI [of _ b']) (simp add: sbind_def sret_def)
qed

end

lemma file_entries_ok: "\<forall>e \<in> set (file_entries hash bs). entry_ok hash e"
proof -
  have "\<forall>e \<in> set (entries_of_bytes hash n bs). entry_ok hash e" for n
    by (induction n arbitrary: bs) (auto simp: entry_ok_def entry_of_bytes_def Let_def)
  then show ?thesis by (simp add: file_entries_def)
qed

lemma snapshot_entries_ok: "\<forall>e \<in> set (snapshot_entries hash nm V ids). entry_ok hash e"
  using file_entries_ok by (auto simp: snapshot_entries_def)

subsection \<open>The data scrub\<close>

definition deleted_scos :: "('b, 'f) pool_env \<Rightarrow> sco \<Rightarrow> scrub_sco list \<Rightarrow> sco list" where
  "deleted_scos env lastS ds = map sd_sconame (filter (scrubs env lastS) ds)"

lemma getSCONamesToBeDeleted_eq:
  "\<forall>d \<in> set ds. sd_state d \<noteq> Unknown \<Longrightarrow>
   getSCONamesToBeDeleted ds out = Inr (out @ map sd_sconame (filter (\<lambda>d. sd_state d = Scrubbed \<or> sd_state d = Reused) ds))"
  by (induction ds out rule: getSCONamesToBeDeleted.induct) (auto simp: verify_def)

lemma deleted_scos_ok: "getSCONamesToBeDeleted (scodata_at env lastS ds (length ds) ru) [] = Inr (deleted_scos env lastS ds)"
proof -
  let ?f = "\<lambda>i. (ds ! i)\<lparr>sd_state := sco_state_at env lastS (ds ! i) i (length ds) ru\<rparr>"
  have st: "sd_state (?f i) \<noteq> Unknown" "sd_state (?f i) = Scrubbed \<or> sd_state (?f i) = Reused \<longleftrightarrow> scrubs env lastS (ds ! i)"
    if "i < length ds" for i using that by (auto simp: sco_state_at_def scrubs_def)
  have "map sd_sconame (filter (\<lambda>d. sd_state d = Scrubbed \<or> sd_state d = Reused) (map ?f [0 ..< length ds])) =
      map (\<lambda>i. sd_sconame (ds ! i)) (filter (\<lambda>i. scrubs env lastS (ds ! i)) [0 ..< length ds])"
    using filter_cong [OF refl, of "[0 ..< length ds]" "\<lambda>i. sd_state (?f i) = Scrubbed \<or> sd_state (?f i) = Reused"
      "\<lambda>i. scrubs env lastS (ds ! i)"] st(2) by (simp add: filter_map comp_def)
  also have "\<dots> = map sd_sconame (filter (scrubs env lastS) (map (\<lambda>i. ds ! i) [0 ..< length ds]))"
    by (simp add: filter_map comp_def)
  also have "\<dots> = deleted_scos env lastS ds" by (simp add: map_nth deleted_scos_def)
  finally show ?thesis
    using getSCONamesToBeDeleted_eq [of "map ?f [0 ..< length ds]" "[]"] st(1) by (simp add: scodata_at_def)
qed

definition scrub_table :: "entry list \<Rightarrow> scrub_sco list" where
  "scrub_table ls = keep_last (entry_sco (last ls)) (add_usage (latest ls) (sco_table ls))"

definition scrub_last :: "entry list \<Rightarrow> sco" where
  "scrub_last ls = (if ls = [] then cl_sco null_location else entry_sco (last ls))"

lemma scrub_table_ok:
  assumes "scrub_input ls"
  shows "keep_last_sco (scrub_last ls) (add_usage (latest ls) (sco_table ls)) = Inr (scrub_table ls)"
    and "pool_table (latest ls) (scrub_table ls) (scrub_last ls)" and "sd_sconame ` set (scrub_table ls) = entry_sco ` set ls"
proof -
  have "keep_last (scrub_last ls) (add_usage (latest ls) (sco_table ls)) = scrub_table ls"
    using sco_table_ok [OF assms] by (cases "ls = []") (auto simp: scrub_table_def scrub_last_def add_usage_def sco_table_def keep_last_def)
  with scrub_pool_table [OF assms refl, of "scrub_last ls"]
  show "keep_last_sco (scrub_last ls) (add_usage (latest ls) (sco_table ls)) = Inr (scrub_table ls)"
    "pool_table (latest ls) (scrub_table ls) (scrub_last ls)" "sd_sconame ` set (scrub_table ls) = entry_sco ` set ls"
    by (simp_all add: scrub_last_def)
qed

lemma scrub_pool_objects:
  assumes "scrub_objects env V ids ls n"
  shows "pool_objects (se_pool env) V (latest ls) (scrub_table ls)"
proof -
  note inp = scrub_objectsD(1) [OF assms]
  have "\<exists>v. v \<noteq> sco_version (sd_sconame d) \<and> V (SCO_str ((sd_sconame d)\<lparr>sco_version := v\<rparr>)) = None" if "d \<in> set (scrub_table ls)" for d
  proof -
    have "sd_sconame d \<in> entry_sco ` set ls" using that scrub_table_ok(3) [OF inp] by blast
    then show ?thesis using scrub_objectsD(6) [OF assms] by auto
  qed
  then show ?thesis using scrub_objectsD(5) [OF assms] set_latest [of ls] unfolding pool_objects_def by blast
qed

context object_store
begin

lemma scrub_data_ok:
  fixes env :: "('s, 'f) scrub_env"
  assumes env: "se_api env = api" "scrub_settings env crc" and obj: "scrub_objects env V ids ls n"
    and st: "inv (sb_backend s)" "view (sb_backend s) = V" "\<forall>n \<in> dom (sb_files s). \<not> isSCOString n"
      "\<forall>n \<in> {''nonrewritten_tlog'', ''rewritten_tlog'', ''relocations_tlog''}. sb_files s n = None"
  shows "\<exists>sp num nms ru. scrub_data env (latest ls) (scrub_last ls) (add_usage (latest ls) (sco_table ls)) s =
      (Inr (sp, num), s\<lparr>sb_backend := sp_backend sp, sb_files := sp_files sp\<rparr>) \<and>
    pool_done (se_pool env) inv view V (dom (sb_files s) \<union> {''nonrewritten_tlog'', ''rewritten_tlog'', ''relocations_tlog''})
      (latest ls) (scrub_table ls) (scrub_last ls) nms ru sp"
proof -
  note inp = scrub_objectsD(1) [OF obj]
  note tab = scrub_table_ok [OF inp]
  let ?sp = "\<lparr>sp_backend = sb_backend s, sp_files = sb_files s, sp_scodata = scrub_table ls, sp_it = 0, sp_reuse = 0,
    sp_sconames = [], sp_buffer = replicate (unat (po_cluster_size (se_pool env))) 0, sp_current = None, sp_offset = 0,
    sp_name = SCO_new 0 0 0, sp_usage = se_uninitialised env, sp_checksum = CheckSum_new, sp_nonrewritten = ew_new,
    sp_rewritten = ew_new, sp_relocations = ew_new, sp_backend_size = 0, sp_access = ([] :: (sco \<times> 'f) list), sp_new_scos = [],
    sp_scos_read = 0, sp_scos_written = 0\<rparr>"
  have new: "SCOPool_new (se_pool env) (add_usage (latest ls) (sco_table ls)) (scrub_last ls) [] (sb_backend s) (sb_files s)
      (se_uninitialised env) = Inr ?sp" using tab(1) by (simp add: SCOPool_new_def)
  have start: "pool_start (se_pool env) inv view V (scrub_table ls) ?sp" using st by (simp add: pool_start_def)
  have "\<forall>e \<in> set (latest ls). good_entry e" using set_latest [of ls] inp by (auto simp: scrub_input_def)
  from good_locations [OF this] have es: "latest ls = filter isLocation (latest ls)" by simp
  have e: "po_api (se_pool env) = api" "pool_sizes (se_pool env)" "crc_law (se_pool env) crc"
    using env by (simp_all add: se_api_def scrub_settings_def)
  from SCOPool_run_ok [OF e tab(2) scrub_pool_objects [OF obj] es start] obtain nms ru r num sp where
    "SCOPool_run (se_pool env) (latest ls) ?sp = (Inr (r, num), sp)"
    "pool_done (se_pool env) inv view V (pool_base ?sp) (latest ls) (scrub_table ls) (scrub_last ls) nms ru sp" by (elim exE conjE) (rule that)
  then show ?thesis using new
    by (intro exI [of _ sp] exI [of _ num] exI [of _ nms] exI [of _ ru]) (simp add: scrub_data_def pool_base_def)
qed

end

subsection \<open>Cutting the new TLogs\<close>

lemma scrub_tname: "tname (scrub_cut_env env) k = ''tlog_'' @ se_text env (se_uuid env k)"
  by (simp add: tname_def tlog_name_def scrub_cut_env_def)

lemma scrub_cut_env_simps [simp]:
  "cu_api (scrub_cut_env env) = se_api env" "cu_tlog (scrub_cut_env env) = po_tlog (se_pool env)"
  by (simp_all add: scrub_cut_env_def)

lemma tname_inj: "scrub_settings env crc \<Longrightarrow> inj_on (se_uuid env) A \<Longrightarrow> inj_on (tname (scrub_cut_env env)) A"
  by (auto simp: inj_on_def inj_def scrub_tname scrub_settings_def)

lemma tname_not_sco: "\<not> isSCOString (tname (scrub_cut_env env) k)" "\<not> isSCOString (''relocation_'' @ x)"
  by (auto simp: scrub_tname isSCOString_def char_at_def)

text \<open>The state \<open>s\<close> in which a cutter starts, with objects \<open>V\<close>, when no name from the UUIDs \<open>n\<close> to \<open>m\<close> is taken.\<close>

definition cut_start :: "('b, 'f) scrub_env \<Rightarrow> ('b \<Rightarrow> string \<Rightarrow> u8 list option) \<Rightarrow> ('b \<Rightarrow> bool) \<Rightarrow> (string \<Rightarrow> u8 list option) \<Rightarrow>
    nat \<Rightarrow> nat \<Rightarrow> 'b scrubber \<Rightarrow> bool" where
  "cut_start env view I V n m s \<longleftrightarrow> I (sb_backend s) \<and> view (sb_backend s) = V \<and> sb_uuids s = n \<and> n \<le> m \<and>
     inj_on (tname (scrub_cut_env env)) {n ..< m} \<and>
     (\<forall>k \<in> {n ..< m}. V (tname (scrub_cut_env env) k) = None \<and> V (''relocation_'' @ tname (scrub_cut_env env) k) = None \<and>
        sb_files s (tname (scrub_cut_env env) k) = None)"

text \<open>After \<open>j\<close> of the names are used for TLogs, the others are still free.\<close>

lemma cut_start_next:
  assumes st: "cut_start env view I V n m s" and ps: "n + length ps \<le> m"
    and s': "I (sb_backend s')" "view (sb_backend s') = put_pieces hash (tname (scrub_cut_env env)) V n ps" "sb_uuids s' = n + length ps"
      "dom (sb_files s') \<subseteq> dom (sb_files s) \<union> tname (scrub_cut_env env) ` {n ..< n + length ps}"
  shows "cut_start env view I (put_pieces hash (tname (scrub_cut_env env)) V n ps) (n + length ps) m s'"
proof -
  let ?c = "scrub_cut_env env"
  have inj: "inj_on (tname ?c) {n ..< m}" using st by (simp add: cut_start_def)
  have other: "put_pieces hash (tname ?c) V n ps x = V x" if "\<forall>k. n \<le> k \<and> k < n + length ps \<longrightarrow> x \<noteq> tname ?c k" for x
    using that by (rule put_pieces_other)
  have "put_pieces hash (tname ?c) V n ps (tname ?c k) = None" "put_pieces hash (tname ?c) V n ps (''relocation_'' @ tname ?c k) = None"
    "sb_files s' (tname ?c k) = None" if k: "k \<in> {n + length ps ..< m}" for k
  proof -
    have km: "k \<in> {n ..< m}" using k by simp
    have free: "\<forall>k \<in> {n ..< m}. V (tname ?c k) = None \<and> V (''relocation_'' @ tname ?c k) = None \<and> sb_files s (tname ?c k) = None"
      using st unfolding cut_start_def by (elim conjE)
    have ne: "tname ?c k \<noteq> tname ?c i" if "i \<in> {n ..< n + length ps}" for i using inj_onD [OF inj, of k i] that k ps by auto
    show "put_pieces hash (tname ?c) V n ps (tname ?c k) = None" using other [of "tname ?c k"] ne st km by (simp add: cut_start_def)
    have "put_pieces hash (tname ?c) V n ps (''relocation_'' @ tname ?c k) = V (''relocation_'' @ tname ?c k)"
      by (rule other) (simp add: scrub_tname)
    also have "\<dots> = None" using bspec [OF free km] by (elim conjE)
    finally show "put_pieces hash (tname ?c) V n ps (''relocation_'' @ tname ?c k) = None" .
    have "tname ?c k \<notin> tname ?c ` {n ..< n + length ps}" using ne by (metis imageE)
    moreover have "tname ?c k \<notin> dom (sb_files s)" using st km unfolding cut_start_def by (simp add: domIff)
    ultimately show "sb_files s' (tname ?c k) = None" using s'(4) by blast
  qed
  moreover have "inj_on (tname ?c) {n + length ps ..< m}" by (rule inj_on_subset [OF inj]) auto
  ultimately show ?thesis using s'(1-3) ps by (simp add: cut_start_def)
qed

context object_store
begin

lemma cut_tlogs_ok:
  assumes env: "se_api env = api" "scrub_settings env crc" and st: "cut_start env view inv V n m s"
    and es: "\<forall>e \<in> set es. good_entry e" "length es < 2 ^ 64" "length es < m - n"
  shows "\<exists>ps s'. on_cutter (TLogCutter_run (scrub_cut_env env) es) s = (Inr (cut_tlogs (scrub_cut_env env) n ps), s') \<and>
    ps \<noteq> [] \<and> concat ps = es \<and> length ps \<le> length es + 1 \<and>
    cut_start env view inv (put_pieces (te_hash (po_tlog (se_pool env))) (tname (scrub_cut_env env)) V n ps) (n + length ps) m s' \<and>
    dom (sb_files s') \<subseteq> dom (sb_files s) \<union> range (tname (scrub_cut_env env))"
proof -
  let ?c = "scrub_cut_env env" and ?h = "te_hash (po_tlog (se_pool env))"
  let ?s = "\<lparr>ct_backend = sb_backend s, ct_files = sb_files s, ct_uuids = sb_uuids s, ct_tlogs = [], ct_names = [], ct_writer = None\<rparr>"
  have os: "object_store (cu_api ?c) view inv crc" using object_store_axioms env(1) by simp
  have ready: "tc_ready ?c view inv crc V (sb_files s) n m [] ?s"
    using st os env(2)
    by (auto simp: tc_ready_def cut_store_def cut_fresh_def cut_start_def cut_tlogs_def scrub_settings_def crc_law_def)
  define ps where "ps = cuts (tc_cut ?c) [] es"
  from TLogCutter_run_ok [OF ready es] obtain c' where
    c': "TLogCutter_run ?c es ?s = (Inr (cut_tlogs ?c n ps), c')" "tc_ready ?c view inv crc V (sb_files s) n m ps c'" by (auto simp: ps_def)
  have d: "inv (ct_backend c')" "view (ct_backend c') = put_pieces ?h (tname ?c) V n ps" "ct_uuids c' = n + length ps"
    "dom (ct_files c') \<subseteq> dom (sb_files s) \<union> tname ?c ` {n ..< n + length ps}" "n + length ps \<le> m"
    using c'(2) by (simp_all add: tc_ready_def cut_store_def)
  let ?s' = "s\<lparr>sb_backend := ct_backend c', sb_files := ct_files c', sb_uuids := ct_uuids c'\<rparr>"
  have "cut_start env view inv (put_pieces ?h (tname ?c) V n ps) (n + length ps) m ?s'"
    by (rule cut_start_next [OF st d(5)]) (use d in simp_all)
  moreover have "on_cutter (TLogCutter_run ?c es) s = (Inr (cut_tlogs ?c n ps), ?s')" using c'(1) by (simp add: on_cutter_def)
  moreover have "ps \<noteq> []" "concat ps = es" "length ps \<le> length es + 1" by (simp_all only: ps_def concat_cuts cuts_nonempty length_cuts append_Nil not_False_eq_True)
  moreover have "dom (sb_files ?s') \<subseteq> dom (sb_files s) \<union> range (tname ?c)" using d(4) by auto
  ultimately show ?thesis by blast
qed

lemma cut_relocations_ok:
  assumes env: "se_api env = api" "scrub_settings env crc" and st: "cut_start env view inv V n m s"
    and es: "\<forall>e \<in> set es. good_entry e" "length es < 2 ^ 64" "length es < m - n"
  shows "\<exists>ps s'. cut_relocations env es s = (Inr (son_names (scrub_cut_env env) n (length ps)), s') \<and> concat ps = es \<and>
    length ps \<le> length es + 1 \<and> inv (sb_backend s') \<and> sb_uuids s' = n + length ps \<and>
    view (sb_backend s') = put_pieces (te_hash (po_tlog (se_pool env))) (\<lambda>k. ''relocation_'' @ tname (scrub_cut_env env) k) V n ps \<and>
    dom (sb_files s') \<subseteq> dom (sb_files s) \<union> range (tname (scrub_cut_env env))"
proof (cases "es = []")
  case True
  then show ?thesis using st
    by (intro exI [of _ "[]"] exI [of _ s]) (simp add: cut_relocations_def cut_start_def son_names_def sret_def)
next
  case False
  let ?c = "scrub_cut_env env" and ?h = "te_hash (po_tlog (se_pool env))"
  let ?s = "\<lparr>ct_backend = sb_backend s, ct_files = sb_files s, ct_uuids = sb_uuids s, ct_tlogs = [], ct_names = [], ct_writer = None\<rparr>"
  have os: "object_store (cu_api ?c) view inv crc" using object_store_axioms env(1) by simp
  have ready: "son_ready ?c view inv crc V (sb_files s) n m [] ?s"
    using st os env(2)
    by (auto simp: son_ready_def cut_store_def cut_fresh_def cut_start_def son_names_def scrub_settings_def crc_law_def)
  define ps where "ps = cuts (son_cut ?c) [] es"
  from Son_run_ok [OF ready es] obtain c' where
    c': "TheSonOfTLogCutter_run ?c es ?s = (Inr (), c')" "son_ready ?c view inv crc V (sb_files s) n m ps c'" by (auto simp: ps_def)
  have d: "inv (ct_backend c')" "view (ct_backend c') = put_pieces ?h (\<lambda>k. ''relocation_'' @ tname ?c k) V n ps"
    "ct_uuids c' = n + length ps" "ct_names c' = son_names ?c n (length ps)"
    "dom (ct_files c') \<subseteq> dom (sb_files s) \<union> tname ?c ` {n ..< n + length ps}"
    using c'(2) by (simp_all add: son_ready_def cut_store_def)
  let ?s' = "s\<lparr>sb_backend := ct_backend c', sb_files := ct_files c', sb_uuids := ct_uuids c'\<rparr>"
  have p: "ps \<noteq> []" "concat ps = es" "length ps \<le> length es + 1" by (simp_all only: ps_def concat_cuts cuts_nonempty length_cuts append_Nil not_False_eq_True)
  then have "cut_relocations env es s = (Inr (son_names ?c n (length ps)), ?s')"
    using False c'(1) d(4) by (simp add: cut_relocations_def sbind_def on_cutter_def sget_def sverify_def verify_def sret_def son_names_def)
  then show ?thesis using d p by (intro exI [of _ ps] exI [of _ ?s']) auto
qed

end

subsection \<open>The new entries\<close>

lemma stored_new:
  assumes "distinct nms" and "j < length nms"
  shows "stored env V nms R (length nms) (SCO_str (nms ! j)) = Some (new_content env V R j)"
proof -
  let ?ps = "map (\<lambda>j. (SCO_str (nms ! j), new_content env V R j)) [0 ..< length nms]"
  have "map fst ?ps = map SCO_str nms" by (rule nth_equalityI) simp_all
  moreover have "inj SCO_str" by (auto simp: inj_def SCO_str_inj)
  ultimately have "distinct (map fst ?ps)" using assms(1) by (metis distinct_map inj_on_subset subset_UNIV)
  moreover have "(SCO_str (nms ! j), new_content env V R j) \<in> set ?ps" using assms(2) by auto
  ultimately have "map_of ?ps (SCO_str (nms ! j)) = Some (new_content env V R j)" by (rule map_of_is_SomeI)
  then show ?thesis by (simp add: stored_def map_add_def)
qed

lemma length_latest: "length (latest es) \<le> length es"
proof -
  have "length (first_entries S xs) \<le> length xs" for S xs by (induction S xs rule: first_entries.induct) auto
  from this [of "{}" "rev es"] show ?thesis by (simp add: latest_def)
qed

lemma set_reloc_pairs: "set (reloc_pairs env nms R) = set R \<union> set (relocated env nms R)"
  by (induction R rule: rev_induct) (auto simp: relocated_snoc, simp_all add: reloc_pairs_def relocated_def)

lemma length_reloc_pairs: "length (reloc_pairs env nms R) = 2 * length R"
  by (induction R rule: rev_induct) (simp_all add: relocated_snoc, simp add: reloc_pairs_def)

lemma length_relocated: "length (relocated env nms R) = length R"
  by (simp add: relocated_def)

lemma relocated_weed: "e \<in> set (relocated env nms R) \<Longrightarrow> \<exists>e' \<in> set R. weed (e_loc e) = weed (e_loc e')"
  by (force simp: set_relocated relocate_def)

lemma kept_not_deleted:
  assumes tab: "pool_table ents ds lastS" and sz: "pool_sizes p"
    and nms: "list_all2 (new_name_ok V ds) (reused p lastS ds ru) nms" and R: "length R \<le> length nms * sco_size p"
    and there: "\<forall>d \<in> set ds. V (SCO_str (sd_sconame d)) \<noteq> None"
  shows "\<forall>e \<in> set (relocated p nms R) \<union> set (filter (\<lambda>e. \<not> rewritten p ents lastS e) ents). entry_sco e \<notin> set (deleted_scos p lastS ds)"
proof
  fix e assume e: "e \<in> set (relocated p nms R) \<union> set (filter (\<lambda>e. \<not> rewritten p ents lastS e) ents)"
  show "entry_sco e \<notin> set (deleted_scos p lastS ds)"
  proof
    assume "entry_sco e \<in> set (deleted_scos p lastS ds)"
    then obtain d where d: "d \<in> set ds" "scrubs p lastS d" "entry_sco e = sd_sconame d" by (auto simp: deleted_scos_def)
    from e show False
    proof
      assume "e \<in> set (relocated p nms R)"
      then obtain k where k: "k < length R" "e = relocate p nms k (R ! k)" by (auto simp: set_relocated)
      then have "k div sco_size p < length nms" using R by (metis less_le_trans less_mult_imp_div_less)
      from new_number_scrubbed [OF nms this] relocate_place(2) [OF sz, of nms k "R ! k"] k(2) there d(1,3) show False by metis
    next
      assume "e \<in> set (filter (\<lambda>e. \<not> rewritten p ents lastS e) ents)"
      then have en: "e \<in> set ents" "\<not> rewritten p ents lastS e" by simp_all
      obtain i where "i < length ds" "d = ds ! i" using d(1) by (auto simp: in_set_conv_nth)
      with kept_sco [OF tab en, of i] d(2,3) show False by simp
    qed
  qed
qed

text \<open>What the merge of the rewritten and the other entries \<open>es\<close> of the TLogs gives, when the pool is done.\<close>

definition merged :: "('b, 'f) scrub_env \<Rightarrow> (string \<Rightarrow> u8 list option) \<Rightarrow> (string \<Rightarrow> u8 list option) \<Rightarrow> entry list \<Rightarrow> entry list \<Rightarrow> bool" where
  "merged env V V' ls M \<longleftrightarrow> length M \<le> length ls \<and> (\<forall>e \<in> set M. good_entry e \<and> entry_ok (te_hash (po_tlog (se_pool env))) e) \<and>
     volume_data (se_pool env) V' M = volume_data (se_pool env) V ls \<and>
     (\<forall>e \<in> set M. entry_sco e \<notin> set (deleted_scos (se_pool env) (scrub_last ls) (scrub_table ls))) \<and>
     (\<forall>x v. V x = Some v \<longrightarrow> V' x = Some v) \<and> (\<forall>x. V' x \<noteq> V x \<longrightarrow> isSCOString x)"

lemma scrub_merged:
  assumes env: "scrub_settings env crc" and obj: "scrub_objects env V ids ls n"
    and don: "pool_done (se_pool env) I view V base (latest ls) (scrub_table ls) (scrub_last ls) nms ru sp"
  shows "\<exists>M. TLogMerger_run [filter isLocation (ew_entries (sp_rewritten sp)), filter isLocation (ew_entries (sp_nonrewritten sp))] =
      Inr (M, if M = [] then null_location else clusterLocation (e_loc (last M))) \<and>
    merged env V (view (sp_backend sp)) ls M \<and>
    (\<forall>e \<in> set (ew_entries (sp_relocations sp)). good_entry e) \<and> length (ew_entries (sp_relocations sp)) \<le> 2 * length ls"
proof -
  let ?p = "se_pool env" let ?R = "filter (rewritten ?p (latest ls) (scrub_last ls)) (latest ls)" and
    ?N = "filter (\<lambda>e. \<not> rewritten ?p (latest ls) (scrub_last ls) e) (latest ls)" and ?V = "view (sp_backend sp)"
  note inp = scrub_objectsD(1) [OF obj] and tab = scrub_table_ok [OF scrub_objectsD(1) [OF obj]]
  have sz: "pool_sizes ?p" using env by (simp add: scrub_settings_def)
  have d: "?V = stored ?p V nms ?R (length nms)" "list_all2 (new_name_ok V (scrub_table ls)) (reused ?p (scrub_last ls) (scrub_table ls) ru) nms"
    "length ?R \<le> length nms * sco_size ?p" "ew_entries (sp_nonrewritten sp) = ?N" "ew_entries (sp_rewritten sp) = relocated ?p nms ?R"
    "ew_entries (sp_relocations sp) = reloc_pairs ?p nms ?R"
    using don by (simp_all add: pool_done_def Let_def)
  from scrub_merge [OF tab(2) sz d(2) refl d(3) refl] obtain M where
    M: "TLogMerger_run [filter isLocation (relocated ?p nms ?R), filter isLocation ?N] =
      Inr (M, if M = [] then null_location else clusterLocation (e_loc (last M)))"
      "mset M = mset (relocated ?p nms ?R @ ?N)" "\<forall>e \<in> set M. good_entry e" by (elim exE conjE) (rule that)
  have sM: "set M = set (relocated ?p nms ?R) \<union> set ?N" using M(2) by (metis mset_eq_setD set_append)
  have "num_sorted (scrub_table ls)" using tab(2) by (simp add: pool_table_def)
  from new_names_sorted(2) [OF this d(2)] have dis: "distinct nms" .
  have free: "\<forall>j < length nms. V (SCO_str (nms ! j)) = None" using new_number_scrubbed [OF d(2)] by blast
  have old: "?V x = Some v" if "V x = Some v" for x v unfolding d(1) by (rule stored_old [OF that free])
  have "isSCOString x" if "?V x \<noteq> V x" for x
    using that stored_other [of "length nms" x nms ?p V ?R] isSCOString_str unfolding d(1) by fastforce
  moreover have "volume_data ?p ?V M = volume_data ?p V ls"
  proof -
    have "?V (SCO_str (entry_sco e)) = V (SCO_str (entry_sco e))" if "e \<in> set ?N" for e
    proof -
      have "e \<in> set ls" using that set_latest [of ls] by auto
      then obtain c where "V (SCO_str (entry_sco e)) = Some c" using scrub_objectsD(5) [OF obj] by blast
      then show ?thesis using old by simp
    qed
    moreover have "\<forall>j < length nms. ?V (SCO_str (nms ! j)) = Some (new_content ?p V ?R j)" unfolding d(1) using stored_new [OF dis] by blast
    ultimately show ?thesis
      using scrub_keeps_data [OF tab(2) sz scrub_pool_objects [OF obj] latest_addresses refl refl M(2) _ d(3), of ?V] volume_data_latest by metis
  qed
  moreover have "\<forall>e \<in> set M. entry_ok (te_hash (po_tlog ?p)) e"
  proof -
    have "\<forall>e \<in> set (latest ls). entry_ok (te_hash (po_tlog ?p)) e"
      using snapshot_entries_ok set_latest [of ls] scrub_objectsD(4) [OF obj] by blast
    then show ?thesis unfolding sM by (auto simp: entry_ok_def dest!: relocated_weed)
  qed
  moreover have "\<forall>e \<in> set M. entry_sco e \<notin> set (deleted_scos ?p (scrub_last ls) (scrub_table ls))"
  proof -
    have "\<forall>d \<in> set (scrub_table ls). V (SCO_str (sd_sconame d)) \<noteq> None"
    proof
      fix d assume "d \<in> set (scrub_table ls)"
      then have "sd_sconame d \<in> entry_sco ` set ls" using tab(3) by blast
      then show "V (SCO_str (sd_sconame d)) \<noteq> None" using scrub_objectsD(5) [OF obj] by auto
    qed
    then show ?thesis unfolding sM by (rule kept_not_deleted [OF tab(2) sz d(2,3)])
  qed
  moreover have "length M = length (latest ls)"
    using mset_eq_length [OF M(2)] sum_length_filter_compl [of "rewritten ?p (latest ls) (scrub_last ls)" "latest ls"] by (simp add: length_relocated)
  then have "length M \<le> length ls" using length_latest [of ls] by simp
  moreover have "\<forall>e \<in> set (reloc_pairs ?p nms ?R). good_entry e"
    using M(3) sM inp set_latest [of ls] by (auto simp: set_reloc_pairs scrub_input_def)
  moreover have "length (reloc_pairs ?p nms ?R) \<le> 2 * length ls"
    using order_trans [OF length_filter_le length_latest] by (simp add: length_reloc_pairs)
  ultimately show ?thesis using M(1,3) old d(4-6) by (intro exI [of _ M]) (auto simp: merged_def)
qed

subsection \<open>The scrub of the TLogs\<close>

text \<open>Names of the files that the scrubber makes; none of them is the name of a SCO or made from a UUID.\<close>

definition scrub_file_names :: "string set" where
  "scrub_file_names = {''snapshots'', ''metadatascrubbed_tlog'', ''nonrewritten_tlog'', ''rewritten_tlog'', ''relocations_tlog'',
     ''completely_scrubbed_tlog''}"

lemma scrub_files_no_scos: "n \<in> scrub_file_names \<Longrightarrow> \<not> isSCOString n"
proof -
  have "\<forall>n \<in> scrub_file_names. \<not> isSCOString n" by code_simp
  then show "n \<in> scrub_file_names \<Longrightarrow> \<not> isSCOString n" by blast
qed

lemma scrub_files_no_tlogs: "tname (scrub_cut_env env) k \<notin> scrub_file_names"
  by (simp add: scrub_file_names_def scrub_tname)

text \<open>
  What a scrub leaves: the objects \<open>V\<close> and the new SCOs, together \<open>V1\<close>, the new TLogs with the pieces \<open>ps\<close> of the
  entries \<open>M\<close>, and the TLogs with the pieces \<open>qs\<close> of the relocations.
\<close>

definition scrub_done :: "('b, 'f) scrub_env \<Rightarrow> ('b \<Rightarrow> string \<Rightarrow> u8 list option) \<Rightarrow> ('b \<Rightarrow> bool) \<Rightarrow> (string \<Rightarrow> u8 list option) \<Rightarrow>
    uuid list \<Rightarrow> entry list \<Rightarrow> nat \<Rightarrow> 'f scrub_result \<Rightarrow> entry list list \<Rightarrow> entry list list \<Rightarrow> (string \<Rightarrow> u8 list option) \<Rightarrow>
    'b scrubber \<Rightarrow> bool" where
  "scrub_done env view I V ids ls n res ps qs V1 s \<longleftrightarrow>
     (let hash = te_hash (po_tlog (se_pool env)); c = scrub_cut_env env
      in I (sb_backend s) \<and> merged env V V1 ls (concat ps) \<and> ps \<noteq> [] \<and>
         view (sb_backend s) = put_pieces hash (\<lambda>k. ''relocation_'' @ tname c k) (put_pieces hash (tname c) V1 n ps) (n + length ps) qs \<and>
         sr_snapshot_name res = se_snapshot_name env \<and> sr_tlog_names_in res = ids \<and> sr_tlogs_out res = cut_tlogs c n ps \<and>
         sr_relocs res = son_names c (n + length ps) (length qs) \<and>
         sr_sconames_to_be_deleted res = deleted_scos (se_pool env) (scrub_last ls) (scrub_table ls) \<and>
         sb_uuids s = n + length ps + length qs \<and> length ps \<le> length ls + 1 \<and> length qs \<le> 2 * length ls + 1 \<and>
         (\<forall>x \<in> dom (sb_files s). x \<in> scrub_file_names \<or> isSCOString x \<or> x \<in> range (tname c)))"

lemma sb_newFile:
  assumes "sb_files s name = None"
  shows "sb_on_files (newFile name) s = (Inr (), s\<lparr>sb_files := (sb_files s)(name \<mapsto> [])\<rparr>)"
  using assms by (simp add: sb_on_files_def szoom_def newFile_def sbind_def sget_def smod_def)

lemma cl_scrub_last:
  "cl_sco (if ls = [] then null_location else clusterLocation (e_loc (last (latest ls)))) = scrub_last ls"
  by (simp add: scrub_last_def latest_last)

context object_store
begin

lemma scrub_new_tlogs_ok:
  fixes env :: "('s, 'f) scrub_env"
  assumes env: "se_api env = api" "scrub_settings env crc" and obj: "scrub_objects env V ids ls n"
    and don: "pool_done (se_pool env) inv view V base (latest ls) (scrub_table ls) (scrub_last ls) nms ru sp"
    and base: "base \<subseteq> scrub_file_names - {''completely_scrubbed_tlog''}"
    and st: "sb_backend s = sp_backend sp" "sb_files s = sp_files sp" "sb_uuids s = n"
  shows "\<exists>res ps qs V1 s'. scrub_new_tlogs env ids sp num s = (Inr res, s') \<and> scrub_done env view inv V ids ls n res ps qs V1 s'"
proof -
  let ?c = "scrub_cut_env env" and ?h = "te_hash (po_tlog (se_pool env))" and ?V1 = "view (sp_backend sp)"
  let ?f = "''completely_scrubbed_tlog''"
  from scrub_merged [OF env(2) obj don] obtain M where
    M: "TLogMerger_run [filter isLocation (ew_entries (sp_rewritten sp)), filter isLocation (ew_entries (sp_nonrewritten sp))] =
      Inr (M, if M = [] then null_location else clusterLocation (e_loc (last M)))" "merged env V ?V1 ls M"
    and rel: "\<forall>e \<in> set (ew_entries (sp_relocations sp)). good_entry e" "length (ew_entries (sp_relocations sp)) \<le> 2 * length ls" by (elim exE conjE) (rule that)
  have d: "inv (sp_backend sp)" "\<forall>x \<in> dom (sp_files sp). x \<in> base \<or> isSCOString x"
    "sp_scodata sp = scodata_at (se_pool env) (scrub_last ls) (scrub_table ls) (length (scrub_table ls)) ru"
    using don by (simp_all add: pool_done_def Let_def)
  have nof: "?f \<in> scrub_file_names" by (simp add: scrub_file_names_def)
  define s1 where "s1 = s\<lparr>sb_files := (sb_files s)(?f \<mapsto> [])\<rparr>"
  have "?f \<notin> dom (sp_files sp)" using d(2) base scrub_files_no_scos [OF nof] by blast
  then have n1: "sb_on_files (newFile ?f) s = (Inr (), s1)" unfolding s1_def using st(2) by (intro sb_newFile) (simp add: domIff)
  have fl: "\<forall>x \<in> dom (sb_files s1). x \<in> scrub_file_names \<or> isSCOString x" using d(2) base nof st(2) by (auto simp: s1_def)
  define m where "m = scrub_uuids n ls"
  note len = scrub_objectsD(3) [OF obj]
  have "cut_start env view inv ?V1 n m s1" unfolding cut_start_def
  proof (intro conjI ballI)
    fix k assume k: "k \<in> {n ..< m}"
    have "?V1 x = V x" if "\<not> isSCOString x" for x using M(2) that by (auto simp: merged_def)
    then show "?V1 (tname ?c k) = None" "?V1 (''relocation_'' @ tname ?c k) = None"
      using scrub_objectsD(8) [OF obj] k tname_not_sco(1) [of env k] tname_not_sco(2) by (simp_all add: scrub_tname m_def)
    have "tname ?c k \<notin> dom (sb_files s1)" using fl tname_not_sco(1) [of env k] scrub_files_no_tlogs [of env k] by blast
    then show "sb_files s1 (tname ?c k) = None" by (simp add: domIff)
  qed (use d(1) st tname_inj [OF env(2) scrub_objectsD(7) [OF obj]] in \<open>simp_all add: s1_def m_def scrub_uuids_def\<close>)
  from cut_tlogs_ok [OF env this, of M] M(2) len obtain ps s2 where
    s2: "on_cutter (TLogCutter_run ?c M) s1 = (Inr (cut_tlogs ?c n ps), s2)" "ps \<noteq> []" "concat ps = M"
      "cut_start env view inv (put_pieces ?h (tname ?c) ?V1 n ps) (n + length ps) m s2" "length ps \<le> length ls + 1"
      "dom (sb_files s2) \<subseteq> dom (sb_files s1) \<union> range (tname ?c)" by (auto simp: merged_def m_def scrub_uuids_def)
  have "length (ew_entries (sp_relocations sp)) < m - (n + length ps)" "length (ew_entries (sp_relocations sp)) < 2 ^ 64"
    using rel(2) s2(5) len by (simp_all add: m_def scrub_uuids_def)
  with cut_relocations_ok [OF env s2(4) rel(1)] rel(2) obtain qs s3 where
    s3: "cut_relocations env (ew_entries (sp_relocations sp)) s2 = (Inr (son_names ?c (n + length ps) (length qs)), s3)"
      "inv (sb_backend s3)" "sb_uuids s3 = n + length ps + length qs"
      "view (sb_backend s3) = put_pieces ?h (\<lambda>k. ''relocation_'' @ tname ?c k) (put_pieces ?h (tname ?c) ?V1 n ps) (n + length ps) qs"
      "dom (sb_files s3) \<subseteq> dom (sb_files s2) \<union> range (tname ?c)" "length qs \<le> 2 * length ls + 1" by fastforce
  let ?res = "\<lparr>sr_snapshot_name = se_snapshot_name env, sr_tlog_names_in = ids, sr_tlogs_out = cut_tlogs ?c n ps,
    sr_relocs = son_names ?c (n + length ps) (length qs), sr_relocNum = num,
    sr_sconames_to_be_deleted = deleted_scos (se_pool env) (scrub_last ls) (scrub_table ls), sr_prefetch = sp_access sp, sr_new_sconames = []\<rparr>"
  have "cut_tlogs ?c n ps \<noteq> []" using s2(2) by (simp add: cut_tlogs_def enumerate_eq_zip)
  then have "scrub_new_tlogs env ids sp num s = (Inr ?res, s3)"
    unfolding scrub_new_tlogs_def d(3)
    by (simp add: sbind_def n1 s2(1) s3(1) M(1) slift_def sverify_def verify_def deleted_scos_ok sret_def)
  moreover have "\<forall>x \<in> dom (sb_files s3). x \<in> scrub_file_names \<or> isSCOString x \<or> x \<in> range (tname ?c)" using fl s2(6) s3(5) by blast
  then have "scrub_done env view inv V ids ls n ?res ps qs ?V1 s3" using s2(2,3,5) s3(2-4,6) M(2) by (simp add: scrub_done_def Let_def)
  ultimately show ?thesis by blast
qed

lemma scrub_tlogs_ok:
  fixes env :: "('s, 'f) scrub_env"
  assumes env: "se_api env = api" "scrub_settings env crc" and obj: "scrub_objects env V ids ls n"
    and st: "inv (sb_backend s)" "view (sb_backend s) = V" "dom (sb_files s) \<subseteq> {''snapshots''}" "sb_uuids s = n"
  shows "\<exists>res ps qs V1 s'. scrub_tlogs env ids s = (Inr res, s') \<and> scrub_done env view inv V ids ls n res ps qs V1 s'"
proof -
  let ?p = "se_pool env" and ?c = "scrub_cut_env env" let ?h = "te_hash (po_tlog ?p)"
  let ?ds = "add_usage (latest ls) (sco_table ls)" and ?files = "map (\<lambda>i. the (V (se_tlog_name env i))) ids"
  let ?es = "concat (map (file_entries ?h) ?files)"
  note inp = scrub_objectsD(1) [OF obj]
  have set: "0 < se_cache_size env" "se_cache_size env * Entry_getDataSize ?h < 2 ^ 32" "se_region_size_exponent env < 64"
    using env(2) by (simp_all add: scrub_settings_def)
  have nof: "\<forall>i. sb_files s (se_tlog_name env i) = None" using st(3) by (force simp: se_tlog_name_def domIff)
  from fetch_tlogs_ok [OF env(1) st(1) _ nof, of ids] scrub_objectsD(2) [OF obj] st(2) obtain b where
    b: "fetch_tlogs env ids s = (Inr ?files, s\<lparr>sb_backend := b\<rparr>)" "inv b" "view b = V" by auto
  have rd: "read_tlogs (po_tlog ?p) (se_cache_size env) ?files = Inr ?es" by (rule read_tlogs_ok [OF set(1,2)])
  have ls: "ls = filter isLocation ?es" using scrub_objectsD(4) [OF obj] by (simp add: snapshot_entries_def comp_def)
  let ?loc = "if ls = [] then null_location else clusterLocation (e_loc (last (latest ls)))"
  have ms: "metadata_scrub (se_region_size_exponent env) ?es = Inr (latest ls, ?loc, ?ds)"
    by (rule metadata_scrub_ok [OF set(3) ls inp])
  define f1 where "f1 = (sb_files s)(''metadatascrubbed_tlog'' \<mapsto> [])"
  define s1 where "s1 = s\<lparr>sb_backend := b, sb_files := f1\<rparr>"
  have n1: "sb_on_files (newFile ''metadatascrubbed_tlog'') (s\<lparr>sb_backend := b\<rparr>) = (Inr (), s1)"
    using sb_newFile [of "s\<lparr>sb_backend := b\<rparr>" "''metadatascrubbed_tlog''"] st(3) by (auto simp: s1_def f1_def)
  have df: "dom f1 \<subseteq> {''snapshots'', ''metadatascrubbed_tlog''}" using st(3) by (auto simp: f1_def)
  then have "\<forall>x \<in> dom (sb_files s1). \<not> isSCOString x" using scrub_files_no_scos by (auto simp: s1_def scrub_file_names_def)
  moreover have "\<forall>x \<in> {''nonrewritten_tlog'', ''rewritten_tlog'', ''relocations_tlog''}. sb_files s1 x = None" using df by (auto simp: s1_def)
  ultimately obtain sp num nms ru where
    sd: "scrub_data env (latest ls) (scrub_last ls) ?ds s1 = (Inr (sp, num), s1\<lparr>sb_backend := sp_backend sp, sb_files := sp_files sp\<rparr>)"
      "pool_done ?p inv view V (dom (sb_files s1) \<union> {''nonrewritten_tlog'', ''rewritten_tlog'', ''relocations_tlog''})
        (latest ls) (scrub_table ls) (scrub_last ls) nms ru sp"
    using scrub_data_ok [OF env obj, of s1] b by (auto simp: s1_def)
  let ?s2 = "s1\<lparr>sb_backend := sp_backend sp, sb_files := sp_files sp\<rparr>"
  have "dom (sb_files s1) \<union> {''nonrewritten_tlog'', ''rewritten_tlog'', ''relocations_tlog''} \<subseteq> scrub_file_names - {''completely_scrubbed_tlog''}"
    using df by (auto simp: s1_def scrub_file_names_def)
  from scrub_new_tlogs_ok [OF env obj sd(2) this, of ?s2 num] st(4)
  obtain res ps qs V1 s' where r: "scrub_new_tlogs env ids sp num ?s2 = (Inr res, s')" "scrub_done env view inv V ids ls n res ps qs V1 s'"
    by (auto simp: s1_def)
  have "scrub_tlogs env ids s = scrub_new_tlogs env ids sp num ?s2"
    unfolding scrub_tlogs_def
    by (simp only: sbind_def b(1) n1 rd ms slift_def prod.case sum.case cl_scrub_last sd(1))
  with r show ?thesis by metis
qed

end

end
