(* ===== verification/Scrubber_Apply.thy ===== *)
theory Scrubber_Apply
  imports Scrubber_Correct Persistor_Properties
begin

text \<open>
  The scrubber from the snapshots file to the end: a scrub that is applied at once leaves a snapshots file whose
  snapshot has the new TLogs, deletes the old TLogs and SCOs, and keeps the data of the snapshot; a scrub whose
  result is stored changes no object that was there.
\<close>

subsection \<open>The snapshot\<close>

text \<open>The snapshot \<open>sn\<close> of the database \<open>p\<close> in the snapshots file is the one to scrub.\<close>

definition scrub_volume :: "('b, 'f) scrub_env \<Rightarrow> (string \<Rightarrow> u8 list option) \<Rightarrow> persistor \<Rightarrow> snapshot list \<Rightarrow> snapshot \<Rightarrow>
    snapshot list \<Rightarrow> nat \<Rightarrow> bool" where
  "scrub_volume env V p xs sn ys n \<longleftrightarrow>
     (\<exists>c. V snapshotFilename = Some c \<and> se_parse_snapshots env c = Inr p) \<and> sp_inv p \<and> sp_snapshots p = xs @ sn # ys \<and>
     snap_name sn = se_snapshot_name env \<and>
     scrub_objects env V (map tl_id (snap_tlogs sn))
       (snapshot_entries (te_hash (po_tlog (se_pool env))) (se_tlog_name env) V (map tl_id (snap_tlogs sn))) n"

lemma scrub_volume_split:
  assumes "sp_inv p" and "sp_snapshots p = xs @ sn # ys"
  shows "find_by_num (snap_num sn) (sp_snapshots p) = length xs" and "find_by_name (snap_name sn) (sp_snapshots p) = length xs"
    and "snap_tlogs sn \<noteq> []" and "distinct (map tl_id (snap_tlogs sn))"
proof -
  have "snap_num sn \<notin> snap_num ` set xs" "snap_name sn \<notin> snap_name ` set xs"
    using sp_inv_distinct_num [OF assms(1)] assms by (auto simp: sp_inv_def)
  with assms(2) show "find_by_num (snap_num sn) (sp_snapshots p) = length xs" "find_by_name (snap_name sn) (sp_snapshots p) = length xs"
    by (simp_all add: find_by_num_split find_by_name_split)
  show "snap_tlogs sn \<noteq> []" "distinct (map tl_id (snap_tlogs sn))"
    using assms by (simp_all add: sp_inv_def sp_ids_def sp_tlogs_def)
qed

text \<open>The new database.\<close>

definition with_scrubbed :: "snapshot list \<Rightarrow> snapshot \<Rightarrow> snapshot list \<Rightarrow> tlogs \<Rightarrow> uuid \<Rightarrow> persistor \<Rightarrow> persistor" where
  "with_scrubbed xs sn ys ts scrub_id p =
     p\<lparr>sp_snapshots := xs @ sn\<lparr>snap_tlogs := ts, scrubbed := True\<rparr> # ys, sp_scrub_id := scrub_id\<rparr>"

lemma replace_scrubbed:
  assumes "sp_inv p" and "sp_snapshots p = xs @ sn # ys" and "ts \<noteq> []" and "list_all written_to_backend ts" and "ts \<noteq> snap_tlogs sn"
  shows "\<exists>p1. SP_replace (map tl_id (snap_tlogs sn)) ts (snap_num sn) scrub_id p = Inr (scrub_id, p1) \<and>
    SP_setSnapshotScrubbed (snap_num sn) True p1 = Inr (with_scrubbed xs sn ys ts scrub_id p)"
proof -
  note f = scrub_volume_split(1) [OF assms(1,2)]
  have ni: "snap_num sn \<notin> snap_num ` set xs" using sp_inv_distinct_num [OF assms(1)] assms(2) by auto
  let ?p1 = "p\<lparr>sp_snapshots := xs @ sn\<lparr>snap_tlogs := ts\<rparr> # ys, sp_scrub_id := scrub_id\<rparr>"
  have "Snapshots_replace (map tl_id (snap_tlogs sn)) ts (snap_num sn) (sp_snapshots p) = Inr (xs @ sn\<lparr>snap_tlogs := ts\<rparr> # ys)"
    using assms(2-5) f by (simp add: Snapshots_replace_def verify_def find_or_throw_def already_replaced_def TLogs_replace_eq list_update_append)
  then have "SP_replace (map tl_id (snap_tlogs sn)) ts (snap_num sn) scrub_id p = Inr (scrub_id, ?p1)"
    by (simp add: SP_replace_def SP_new_scrub_id_def)
  moreover have "find_by_num (snap_num sn) (sp_snapshots ?p1) = length xs" using find_by_num_split [OF ni] by simp
  then have "SP_setSnapshotScrubbed (snap_num sn) True ?p1 = Inr (with_scrubbed xs sn ys ts scrub_id p)"
    by (simp add: SP_setSnapshotScrubbed_def find_or_throw_def with_scrubbed_def list_update_append)
  ultimately show ?thesis by blast
qed

subsection \<open>Removing objects\<close>

context object_store
begin

lemma remove_all_ok:
  assumes "se_api env = api" and "inv (sb_backend s)" and "distinct (map nm xs)" and "\<forall>x \<in> set xs. nm x \<noteq> [] \<and> view (sb_backend s) (nm x) \<noteq> None"
  shows "\<exists>b. sfor xs (\<lambda>x. sb_on_backend (sa_remove (se_api env) (nm x) False)) s = (Inr (), s\<lparr>sb_backend := b\<rparr>) \<and> inv b \<and>
    view b = view (sb_backend s) |` (- nm ` set xs)"
  using assms(2-4)
proof (induction xs arbitrary: s)
  case Nil
  then show ?case by (intro exI [of _ "sb_backend s"]) (simp add: sret_def)
next
  case (Cons x xs)
  from Cons.prems(3) have nx: "nm x \<noteq> []" "False \<or> view (sb_backend s) (nm x) \<noteq> None" by simp_all
  from remove_law [OF Cons.prems(1) nx] obtain b where
    b: "sa_remove api (nm x) False (sb_backend s) = (Inr (), b)" "inv b" "view b = (view (sb_backend s))(nm x := None)" by blast
  have "\<forall>y \<in> set xs. nm y \<noteq> [] \<and> view b (nm y) \<noteq> None" using Cons.prems(2,3) b(3) by (auto simp: image_iff)
  with Cons.IH [of "s\<lparr>sb_backend := b\<rparr>"] b(2) Cons.prems(2) obtain b' where
    b': "sfor xs (\<lambda>x. sb_on_backend (sa_remove (se_api env) (nm x) False)) (s\<lparr>sb_backend := b\<rparr>) = (Inr (), s\<lparr>sb_backend := b'\<rparr>)"
      "inv b'" "view b' = view b |` (- nm ` set xs)" by auto
  have "sb_on_backend (sa_remove (se_api env) (nm x) False) s = (Inr (), s\<lparr>sb_backend := b\<rparr>)"
    using b(1) assms(1) by (simp add: sb_on_backend_def szoom_def)
  then have "sfor (x # xs) (\<lambda>x. sb_on_backend (sa_remove (se_api env) (nm x) False)) s = (Inr (), s\<lparr>sb_backend := b'\<rparr>)"
    using b'(1) by (simp add: sbind_def)
  moreover have "view b' = view (sb_backend s) |` (- nm ` set (x # xs))" using b(3) b'(3) by (auto simp: fun_eq_iff restrict_map_def)
  ultimately show ?case using b'(2) by blast
qed

end

subsection \<open>The objects after the scrub\<close>

lemma put_pieces_changed: "put_pieces hash nm V n ps x \<noteq> V x \<Longrightarrow> \<exists>k \<in> {n ..< n + length ps}. x = nm k"
  using put_pieces_other [of n ps x nm hash V] by (metis atLeastLessThan_iff)

lemma volume_data_cong:
  assumes "\<forall>e \<in> set es. V' (SCO_str (entry_sco e)) = V (SCO_str (entry_sco e))"
  shows "volume_data env V' es = volume_data env V es"
proof
  fix a
  have "last xs \<in> set es" if "xs = filter (\<lambda>e. e_clusteraddress e = a) es" "xs \<noteq> []" for xs using last_in_set [OF that(2)] that(1) by auto
  then show "volume_data env V' es a = volume_data env V es a"
    using assms by (auto simp: volume_data_def cluster_bytes_def split: list.split)
qed

lemma tname_tlog: "tname (scrub_cut_env env) k = se_tlog_name env (se_uuid env k)"
  by (simp add: scrub_tname se_tlog_name_def)

lemma cut_tlogs_ids: "map tl_id (cut_tlogs (scrub_cut_env env) n ps) = map (se_uuid env) [n ..< n + length ps]"
  by (rule nth_equalityI) (simp_all add: cut_tlogs_def scrub_cut_env_def nth_enumerate_eq)

text \<open>The entries of the new TLogs, read back.\<close>

lemma new_snapshot_entries:
  assumes "\<forall>i < length ps. V (tname (scrub_cut_env env) (n + i)) = Some (entries_bytes hash (ps ! i))"
    and "\<forall>e \<in> set (concat ps). good_entry e \<and> entry_ok hash e"
  shows "snapshot_entries hash (se_tlog_name env) V (map tl_id (cut_tlogs (scrub_cut_env env) n ps)) = concat ps"
proof -
  have "file_entries hash (the (V (se_tlog_name env (se_uuid env (n + i))))) = ps ! i" if "i < length ps" for i
  proof -
    have "\<forall>e \<in> set (ps ! i). entry_ok hash e" using assms(2) nth_mem [OF that] by auto
    then show ?thesis using assms(1) that by (simp add: tname_tlog file_entries_bytes)
  qed
  then have "map (\<lambda>k. file_entries hash (the (V (se_tlog_name env (se_uuid env k))))) [n ..< n + length ps] = ps"
    by (intro nth_equalityI) simp_all
  then show ?thesis unfolding snapshot_entries_def cut_tlogs_ids map_map comp_def using good_locations [of "concat ps"] assms(2) by simp
qed

lemma scrub_done_objects:
  assumes env: "scrub_settings env crc" and obj: "scrub_objects env V ids ls n"
    and don: "scrub_done env view I V ids ls n res ps qs V1 s"
  shows "V x = Some v \<Longrightarrow> view (sb_backend s) x = Some v"
    and "view (sb_backend s) x \<noteq> V x \<Longrightarrow> isSCOString x \<or> (\<exists>k \<in> {n ..< sb_uuids s}. \<exists>pre \<in> {''tlog_'', ''relocation_tlog_''}. x = pre @ se_text env (se_uuid env k))"
    and "i < length ps \<Longrightarrow> view (sb_backend s) (tname (scrub_cut_env env) (n + i)) = Some (entries_bytes (te_hash (po_tlog (se_pool env))) (ps ! i))"
    and "view (sb_backend s) (SCO_str sco) = V1 (SCO_str sco)"
    and "sb_uuids s < scrub_uuids n ls"
proof -
  let ?c = "scrub_cut_env env" and ?h = "te_hash (po_tlog (se_pool env))" let ?V2 = "put_pieces ?h (tname ?c) V1 n ps"
  have d: "merged env V V1 ls (concat ps)" "sb_uuids s = n + length ps + length qs"
    "view (sb_backend s) = put_pieces ?h (\<lambda>k. ''relocation_'' @ tname ?c k) ?V2 (n + length ps) qs"
    and len: "length ps \<le> length ls + 1" "length qs \<le> 2 * length ls + 1" using don by (simp_all add: scrub_done_def Let_def)
  have m: "V x = Some v \<Longrightarrow> V1 x = Some v" "V1 x \<noteq> V x \<Longrightarrow> isSCOString x" for x v using d(1) by (simp_all add: merged_def)
  show u: "sb_uuids s < scrub_uuids n ls" using d(2) len by (simp add: scrub_uuids_def)
  have c1: "isSCOString x \<or> V1 x = V x" and c2: "?V2 x = V1 x \<or> (\<exists>k \<in> {n ..< n + length ps}. x = tname ?c k)"
    and c3: "view (sb_backend s) x = ?V2 x \<or> (\<exists>k \<in> {n + length ps ..< n + length ps + length qs}. x = ''relocation_'' @ tname ?c k)" for x
    using m(2) put_pieces_changed [of ?h "tname ?c" V1 n ps x] put_pieces_changed [of ?h "\<lambda>k. ''relocation_'' @ tname ?c k" ?V2 "n + length ps" qs x]
    unfolding d(3) by blast+
  show ch: "isSCOString x \<or> (\<exists>k \<in> {n ..< sb_uuids s}. \<exists>pre \<in> {''tlog_'', ''relocation_tlog_''}. x = pre @ se_text env (se_uuid env k))"
    if ne: "view (sb_backend s) x \<noteq> V x" for x
  proof -
    consider "V1 x \<noteq> V x" | "?V2 x \<noteq> V1 x" | "view (sb_backend s) x \<noteq> ?V2 x" using ne by (cases "V1 x = V x"; cases "?V2 x = V1 x") simp_all
    then show ?thesis
    proof cases
      case 2
      then obtain k where "k \<in> {n ..< n + length ps}" "x = tname ?c k" using c2 [of x] by blast
      then show ?thesis by (intro disjI2 bexI [of _ k] bexI [of _ "''tlog_''"]) (simp_all add: scrub_tname d(2))
    next
      case 3
      then obtain k where "k \<in> {n + length ps ..< n + length ps + length qs}" "x = ''relocation_'' @ tname ?c k" using c3 [of x] by blast
      then show ?thesis by (intro disjI2 bexI [of _ k] bexI [of _ "''relocation_tlog_''"]) (simp_all add: scrub_tname d(2))
    qed (use c1 [of x] in blast)
  qed
  show "view (sb_backend s) (SCO_str sco) = V1 (SCO_str sco)"
  proof -
    have "SCO_str sco \<noteq> tname ?c k" "SCO_str sco \<noteq> ''relocation_'' @ tname ?c k" for k
      using isSCOString_str [of sco] tname_not_sco(1) [of env k] tname_not_sco(2) [of "tname ?c k"] by auto
    then show ?thesis using c2 [of "SCO_str sco"] c3 [of "SCO_str sco"] by simp
  qed
  show "view (sb_backend s) x = Some v" if "V x = Some v"
  proof -
    have "V (tname ?c k) = None" "V (''relocation_'' @ tname ?c k) = None" if "k \<in> {n ..< n + length ps + length qs}" for k
      using scrub_objectsD(8) [OF obj] that u d(2) by (simp_all add: scrub_tname)
    then have "x \<noteq> tname ?c k" "x \<noteq> ''relocation_'' @ tname ?c k" if "k \<in> {n ..< n + length ps + length qs}" for k
      using that \<open>V x = Some v\<close> by (metis option.distinct(1))+
    then have "?V2 x = V1 x" "view (sb_backend s) x = ?V2 x" using c2 [of x] c3 [of x] by fastforce+
    then show ?thesis using m(1) [OF that] by simp
  qed
  show "view (sb_backend s) (tname ?c (n + i)) = Some (entries_bytes ?h (ps ! i))" if "i < length ps"
  proof -
    have "inj_on (tname ?c) {n ..< scrub_uuids n ls}" by (rule tname_inj [OF env scrub_objectsD(7) [OF obj]])
    then have "inj_on (tname ?c) {n ..< n + length ps}" by (rule inj_on_subset) (use u d(2) in auto)
    from put_pieces_nth [OF this that, of ?h V1] c3 [of "tname ?c (n + i)"] show ?thesis by (auto simp: scrub_tname)
  qed
qed

subsection \<open>Applying and storing the result\<close>

lemma deleted_facts:
  assumes "scrub_objects env V ids ls n" and "D = deleted_scos (se_pool env) (scrub_last ls) (scrub_table ls)"
  shows "distinct D" and "sco \<in> set D \<Longrightarrow> sco \<in> entry_sco ` set ls \<and> sco \<noteq> entry_sco (last ls)"
    and "sco \<in> set D \<Longrightarrow> V (SCO_str sco) \<noteq> None"
proof -
  note tab = scrub_table_ok [OF scrub_objectsD(1) [OF assms(1)]]
  have "num_sorted (scrub_table ls)" using tab(2) by (simp add: pool_table_def)
  then have "distinct (map sd_sconame (scrub_table ls))"
    by (auto simp: distinct_conv_nth) (metis linorder_neq_iff num_sorted_nth order_less_irrefl)
  then show "distinct D" using assms(2) by (simp add: deleted_scos_def distinct_map_filter)
  have l: "sco \<in> entry_sco ` set ls \<and> sco \<noteq> scrub_last ls" if "sco \<in> set D" for sco
    using that tab(3) assms(2) by (auto simp: deleted_scos_def scrubs_def)
  show "sco \<in> entry_sco ` set ls \<and> sco \<noteq> entry_sco (last ls)" if "sco \<in> set D"
    using l [OF that] by (cases "ls = []") (simp_all add: scrub_last_def)
  show "V (SCO_str sco) \<noteq> None" if "sco \<in> set D" using l [OF that] scrub_objectsD(5) [OF assms(1)] by auto
qed

lemma other_names:
  "\<not> isSCOString snapshotFilename" "\<not> isSCOString (scrub_result_string @ x)" "\<not> isSCOString ''new_snapshots.xml''"
  "snapshotFilename \<noteq> se_tlog_name env i" "scrub_result_string @ x \<noteq> se_tlog_name env i" "snapshotFilename \<noteq> []"
  "se_tlog_name env i \<noteq> []" "SCO_str sco \<noteq> []" "''new_snapshots.xml'' \<notin> scrub_file_names" "scrub_result_string @ x \<notin> scrub_file_names"
  "''new_snapshots.xml'' \<noteq> se_tlog_name env i"
  using isSCOString_str [of sco]
  by (auto simp: isSCOString_def char_at_def snapshotFilename_def scrub_result_string_def se_tlog_name_def scrub_file_names_def)

lemma tlog_name_no_sco: "\<not> isSCOString (se_tlog_name env i)"
  by (simp add: isSCOString_def char_at_def se_tlog_name_def)

lemma sco_names_apart: "snapshotFilename \<noteq> SCO_str sco" "se_tlog_name env i \<noteq> SCO_str sco"
  using isSCOString_str [of sco] other_names(1) tlog_name_no_sco [of env i] by auto

lemma new_tlogs_new:
  assumes "scrub_objects env V (map tl_id ts) ls n" and "ps \<noteq> []" and "ts \<noteq> []"
  shows "cut_tlogs (scrub_cut_env env) n ps \<noteq> ts"
proof
  assume eq: "cut_tlogs (scrub_cut_env env) n ps = ts"
  have "se_uuid env n \<in> set (map (se_uuid env) [n ..< n + length ps])" using assms(2) by simp
  then have "se_uuid env n \<in> set (map tl_id ts)" using cut_tlogs_ids [of env n ps] eq by simp
  then have "V (''tlog_'' @ se_text env (se_uuid env n)) \<noteq> None"
    using bspec [OF scrub_objectsD(2) [OF assms(1)]] by (simp add: se_tlog_name_def)
  moreover have "V (''tlog_'' @ se_text env (se_uuid env n)) = None"
    using scrub_objectsD(8) [OF assms(1)] by (simp add: scrub_uuids_def)
  ultimately show False by simp
qed

context object_store
begin

lemma apply_scrub_result_ok:
  fixes env :: "('s, 'f) scrub_env"
  assumes env: "se_api env = api" "scrub_settings env crc" and p: "sp_inv p" "sp_snapshots p = xs @ sn # ys"
    and ids: "ids = map tl_id (snap_tlogs sn)" and obj: "scrub_objects env V ids ls n"
    and don: "scrub_done env view inv V ids ls n res ps qs V1 s"
  shows "\<exists>s'. apply_scrub_result env p (snap_num sn) res s = (Inr (), s') \<and> inv (sb_backend s') \<and>
    view (sb_backend s') = (view (sb_backend s))(snapshotFilename \<mapsto> se_print_snapshots env
        (with_scrubbed xs sn ys (sr_tlogs_out res) (se_uuid env (sb_uuids s)) p)) |`
      (- SCO_str ` set (sr_sconames_to_be_deleted res)) |` (- se_tlog_name env ` set ids)"
proof -
  let ?c = "scrub_cut_env env" and ?id = "se_uuid env (sb_uuids s)" and ?D = "sr_sconames_to_be_deleted res"
  let ?p = "with_scrubbed xs sn ys (sr_tlogs_out res) ?id p" let ?c2 = "se_print_snapshots env ?p"
  have d: "sr_tlogs_out res = cut_tlogs ?c n ps" "sr_tlog_names_in res = ids" "ps \<noteq> []" "inv (sb_backend s)"
    "?D = deleted_scos (se_pool env) (scrub_last ls) (scrub_table ls)"
    and fl: "\<forall>x \<in> dom (sb_files s). x \<in> scrub_file_names \<or> isSCOString x \<or> x \<in> range (tname ?c)"
    using don by (simp_all add: scrub_done_def Let_def)
  note sn = scrub_volume_split [OF p] and V = scrub_done_objects(1) [OF env(2) obj don]
  have w: "cut_tlogs ?c n ps \<noteq> []" "list_all written_to_backend (cut_tlogs ?c n ps)"
    using d(3) by (simp_all add: cut_tlogs_def enumerate_eq_zip list_all_iff split_beta)
  from replace_scrubbed [OF p w new_tlogs_new, of V ls ?id] obj d(3) sn(3) obtain p1 where
    p1: "SP_replace ids (cut_tlogs ?c n ps) (snap_num sn) ?id p = Inr (?id, p1)" "SP_setSnapshotScrubbed (snap_num sn) True p1 = Inr ?p"
    unfolding ids d(1) by blast
  let ?f = "''new_snapshots.xml''" let ?s1 = "s\<lparr>sb_uuids := sb_uuids s + 1\<rparr>"
  have "?f \<notin> dom (sb_files s)" using fl other_names(3,9) other_names(11) [of env] unfolding tname_tlog by blast
  then have nf: "sb_on_files (newFile ?f) ?s1 = (Inr (), ?s1\<lparr>sb_files := (sb_files s)(?f \<mapsto> [])\<rparr>)"
    using sb_newFile [of ?s1 ?f] by (simp add: domIff)
  from write_law [OF d(4) other_names(6), of True None ?c2] obtain b where
    b: "sa_write api (Some ?c2) snapshotFilename True None (sb_backend s) = (Inr (), b)" "inv b"
      "view b = (view (sb_backend s))(snapshotFilename \<mapsto> ?c2)" by blast
  let ?s2 = "s\<lparr>sb_uuids := sb_uuids s + 1, sb_files := (sb_files s)(?f \<mapsto> []), sb_backend := b\<rparr>"
  have "\<forall>x \<in> set ?D. SCO_str x \<noteq> [] \<and> view (sb_backend ?s2) (SCO_str x) \<noteq> None"
    using deleted_facts(3) [OF obj d(5)] V b(3) other_names(1,8) isSCOString_str by fastforce
  moreover have "distinct (map SCO_str ?D)" using deleted_facts(1) [OF obj d(5)] by (simp add: distinct_map inj_on_def SCO_str_inj)
  ultimately obtain b2 where
    b2: "sfor ?D (\<lambda>x. sb_on_backend (sa_remove (se_api env) (SCO_str x) False)) ?s2 = (Inr (), ?s2\<lparr>sb_backend := b2\<rparr>)" "inv b2"
      "view b2 = view b |` (- SCO_str ` set ?D)" using remove_all_ok [OF env(1), of ?s2 SCO_str ?D] b(2) by auto
  have "view b2 (se_tlog_name env i) \<noteq> None" if "i \<in> set ids" for i
  proof -
    obtain v where "V (se_tlog_name env i) = Some v" using scrub_objectsD(2) [OF obj] \<open>i \<in> set ids\<close> by auto
    from V [OF this] show ?thesis
      using b(3) b2(3) other_names(4) [of env i] tlog_name_no_sco [of env i] isSCOString_str by (auto simp: restrict_map_def)
  qed
  moreover have "distinct (map (se_tlog_name env) ids)"
    using sn(4) env(2) unfolding ids by (auto simp: distinct_map inj_on_def inj_def se_tlog_name_def scrub_settings_def)
  ultimately obtain b3 where
    b3: "sfor ids (\<lambda>x. sb_on_backend (sa_remove (se_api env) (se_tlog_name env x) False)) (?s2\<lparr>sb_backend := b2\<rparr>) = (Inr (), ?s2\<lparr>sb_backend := b3\<rparr>)"
      "inv b3" "view b3 = view b2 |` (- se_tlog_name env ` set ids)"
    using remove_all_ok [OF env(1), of "?s2\<lparr>sb_backend := b2\<rparr>" "se_tlog_name env" ids] b2(2) other_names(7) by auto
  have "apply_scrub_result env p (snap_num sn) res s = (Inr (), ?s2\<lparr>sb_backend := b3\<rparr>)"
    using b(1) b2(1) b3(1) nf env(1)
    by (simp add: apply_scrub_result_def d(1,2) sbind_def sb_new_uuid_def slift_def p1 [unfolded d(1)] sb_on_backend_def szoom_def)
  then show ?thesis using b(3) b2(3) b3(2,3) by auto
qed

lemma store_scrub_result_ok:
  fixes env :: "('s, 'f) scrub_env"
  assumes env: "se_api env = api" "scrub_settings env crc" and obj: "scrub_objects env V ids ls n"
    and don: "scrub_done env view inv V ids ls n res ps qs V1 s"
    and name: "name = scrub_result_string @ se_text env (se_uuid env (sb_uuids s))"
  shows "\<exists>s'. store_scrub_result env res s = (Inr name, s') \<and> inv (sb_backend s') \<and>
    view (sb_backend s') = (view (sb_backend s))(name \<mapsto> se_print_result env res) \<and> V name = None"
proof -
  let ?s1 = "s\<lparr>sb_uuids := sb_uuids s + 1\<rparr>"
  have I: "inv (sb_backend s)" and fl: "\<forall>x \<in> dom (sb_files s). x \<in> scrub_file_names \<or> isSCOString x \<or> x \<in> range (tname (scrub_cut_env env))"
    and nu: "n \<le> sb_uuids s" using don by (simp_all add: scrub_done_def Let_def)
  note o = other_names(2,10) [of "se_text env (se_uuid env (sb_uuids s))", folded name]
  have t: "name \<noteq> se_tlog_name env i" for i using other_names(5) [of _ env i] name by simp
  have "name \<notin> dom (sb_files s)" using fl o t unfolding tname_tlog by blast
  then have nf: "sb_on_files (newFile name) ?s1 = (Inr (), ?s1\<lparr>sb_files := (sb_files s)(name \<mapsto> [])\<rparr>)"
    using sb_newFile [of ?s1 name] by (simp add: domIff)
  have "sb_uuids s \<in> {n ..< scrub_uuids n ls}" using scrub_done_objects(5) [OF env(2) obj don] nu by simp
  from bspec [OF scrub_objectsD(8) [OF obj] this] have vn: "V name = None" using name by simp
  have "name \<noteq> pre @ x" if "pre \<in> {''tlog_'', ''relocation_tlog_''}" for pre x using that name by (auto simp: scrub_result_string_def)
  then have none: "view (sb_backend s) name = None" using scrub_done_objects(2) [OF env(2) obj don, of name] o(1) vn by metis
  have ne: "name \<noteq> []" using name by (simp add: scrub_result_string_def)
  from exists_law [OF I ne] none obtain b where
    b: "sa_exists api name (sb_backend s) = (Inr False, b)" "inv b" "view b = view (sb_backend s)" by auto
  from write_law [OF b(2) ne, of True None "se_print_result env res"] obtain b2 where
    b2: "sa_write api (Some (se_print_result env res)) name True None b = (Inr (), b2)" "inv b2"
      "view b2 = (view b)(name \<mapsto> se_print_result env res)" by blast
  have "isScrubbingResultString name" using env(2) name by (simp add: isScrubbingResultString_def scrub_settings_def)
  then have "store_scrub_result env res s = (Inr name, ?s1\<lparr>sb_files := (sb_files s)(name \<mapsto> []), sb_backend := b2\<rparr>)"
    using nf b(1) b2(1) env(1) name
    by (simp add: store_scrub_result_def sb_new_uuid_def Let_def sbind_def sverify_def verify_def sb_on_backend_def szoom_def sret_def)
  then show ?thesis using b2 b(3) vn by simp
qed

lemma scrub_snapshot_ok:
  fixes env :: "('s, 'f) scrub_env"
  assumes env: "se_api env = api" and vol: "scrub_volume env V p xs sn ys n"
    and st: "inv (sb_backend s)" "view (sb_backend s) = V" "sb_files s = Map.empty"
  shows "\<exists>s'. scrub_snapshot env s = (Inr (p, snap_num sn, map tl_id (snap_tlogs sn)), s') \<and> inv (sb_backend s') \<and>
    view (sb_backend s') = V \<and> dom (sb_files s') \<subseteq> {''snapshots''} \<and> sb_uuids s' = sb_uuids s"
proof -
  from vol obtain c where c: "V snapshotFilename = Some c" "se_parse_snapshots env c = Inr p" by (auto simp: scrub_volume_def)
  have p: "sp_inv p" "sp_snapshots p = xs @ sn # ys" "snap_name sn = se_snapshot_name env" using vol by (simp_all add: scrub_volume_def)
  note f = scrub_volume_split(1,2) [OF p(1,2)]
  have n: "SP_getSnapshotNum (se_snapshot_name env) p = Inr (snap_num sn)"
    using f(2) p(2,3) by (simp add: SP_getSnapshotNum_def Snapshots_getSnapshot_def find_or_throw_def)
  have t: "snd (SP_getTLogsInSnapshot (snap_num sn) p []) = map tl_id (snap_tlogs sn)"
    using f(1) p(2) by (simp add: SP_getTLogsInSnapshot_def Snapshots_getTLogsInSnapshot_def Let_def)
  from read_law [OF st(1) other_names(6), of c True] c(1) st(2) obtain b where
    b: "sa_read api snapshotFilename True (sb_backend s) = (Inr c, b)" "inv b" "view b = V" by auto
  let ?s' = "s\<lparr>sb_files := [''snapshots'' \<mapsto> c], sb_backend := b\<rparr>"
  have "scrub_snapshot env s = (Inr (p, snap_num sn, map tl_id (snap_tlogs sn)), ?s')"
    using sb_newFile [of s "''snapshots''"] st(3) b(1) env c(2) n t
    by (simp add: scrub_snapshot_def scatch_def sbind_def sb_on_backend_def szoom_def smod_def slift_def sret_def)
  then show ?thesis using b by (intro exI [of _ ?s']) simp
qed

lemma scrub_start_ok:
  fixes env :: "('s, 'f) scrub_env"
  assumes env: "se_api env = api" "scrub_settings env crc" and vol: "scrub_volume env V p xs sn ys n"
    and st: "inv (sb_backend s)" "view (sb_backend s) = V" "sb_files s = Map.empty" "sb_uuids s = n"
    and ids: "ids = map tl_id (snap_tlogs sn)" and ls: "ls = snapshot_entries (te_hash (po_tlog (se_pool env))) (se_tlog_name env) V ids"
  shows "\<exists>res ps qs V1 s1. scrub_done env view inv V ids ls n res ps qs V1 s1 \<and>
    Scrubber_run env s =
      (if se_apply_immediately env then sbind (apply_scrub_result env p (snap_num sn) res) (\<lambda>_. sret (res, None))
       else sbind (store_scrub_result env res) (\<lambda>name. sret (res, Some name))) s1"
proof -
  have p: "sp_inv p" "sp_snapshots p = xs @ sn # ys" and obj: "scrub_objects env V ids ls n"
    using vol by (simp_all add: scrub_volume_def ids ls)
  have ne: "ids \<noteq> []" using scrub_volume_split(3) [OF p] ids by simp
  from scrub_snapshot_ok [OF env(1) vol st(1-3)] obtain s0 where
    s0: "scrub_snapshot env s = (Inr (p, snap_num sn, ids), s0)" "inv (sb_backend s0)" "view (sb_backend s0) = V"
      "dom (sb_files s0) \<subseteq> {''snapshots''}" "sb_uuids s0 = n" using st(4) ids by auto
  from scrub_tlogs_ok [OF env obj s0(2-5)] obtain res ps qs V1 s1 where
    "scrub_tlogs env ids s0 = (Inr res, s1)" "scrub_done env view inv V ids ls n res ps qs V1 s1" by (elim exE conjE) (rule that)
  with s0(1) ne show ?thesis
    by (intro exI [of _ res] exI [of _ ps] exI [of _ qs] exI [of _ V1] exI [of _ s1])
      (simp add: Scrubber_run_def sbind_run sverify_def verify_def)
qed

end

subsection \<open>What the scrubber promises\<close>

text \<open>The data of a snapshot that has the TLogs \<open>ids\<close>.\<close>

definition snapshot_data :: "('b, 'f) scrub_env \<Rightarrow> (string \<Rightarrow> u8 list option) \<Rightarrow> uuid list \<Rightarrow> u64 \<Rightarrow> u8 list option" where
  "snapshot_data env V ids = volume_data (se_pool env) V (snapshot_entries (te_hash (po_tlog (se_pool env))) (se_tlog_name env) V ids)"

text \<open>Only SCOs of the snapshot are to be deleted, and not the one that was written to last.\<close>

definition scrub_deletes :: "('b, 'f) scrub_env \<Rightarrow> (string \<Rightarrow> u8 list option) \<Rightarrow> uuid list \<Rightarrow> 'f scrub_result \<Rightarrow> bool" where
  "scrub_deletes env V ids res \<longleftrightarrow>
     (let ls = snapshot_entries (te_hash (po_tlog (se_pool env))) (se_tlog_name env) V ids
      in \<forall>sco \<in> set (sr_sconames_to_be_deleted res). sco \<in> entry_sco ` set ls \<and> sco \<noteq> entry_sco (last ls))"

lemma scrub_done_deletes:
  assumes "scrub_objects env V ids ls n" and "scrub_done env view I V ids ls n res ps qs V1 s"
  shows "scrub_deletes env V ids res"
proof -
  have "sr_sconames_to_be_deleted res = deleted_scos (se_pool env) (scrub_last ls) (scrub_table ls)"
    using assms(2) by (simp add: scrub_done_def Let_def)
  from deleted_facts(2) [OF assms(1) this] show ?thesis
    unfolding scrub_deletes_def Let_def scrub_objectsD(4) [OF assms(1), symmetric] by blast
qed

text \<open>The new TLogs hold the data of the snapshot in any state \<open>V'\<close> that still has them and the SCOs that they name.\<close>

lemma scrubbed_data:
  assumes env: "scrub_settings env crc" and obj: "scrub_objects env V ids ls n" and don: "scrub_done env view I V ids ls n res ps qs V1 s"
    and V': "\<forall>i < length ps. V' (tname (scrub_cut_env env) (n + i)) = view (sb_backend s) (tname (scrub_cut_env env) (n + i))"
      "\<forall>sco. sco \<notin> set (sr_sconames_to_be_deleted res) \<longrightarrow> V' (SCO_str sco) = view (sb_backend s) (SCO_str sco)"
  shows "snapshot_data env V' (map tl_id (sr_tlogs_out res)) = volume_data (se_pool env) V ls"
    and "\<forall>t \<in> set (sr_tlogs_out res). V' (se_tlog_name env (tl_id t)) \<noteq> None"
proof -
  let ?h = "te_hash (po_tlog (se_pool env))" and ?c = "scrub_cut_env env"
  have d: "sr_tlogs_out res = cut_tlogs ?c n ps" "merged env V V1 ls (concat ps)"
    "sr_sconames_to_be_deleted res = deleted_scos (se_pool env) (scrub_last ls) (scrub_table ls)" using don by (simp_all add: scrub_done_def Let_def)
  have t: "\<forall>i < length ps. V' (tname ?c (n + i)) = Some (entries_bytes ?h (ps ! i))" using scrub_done_objects(3) [OF env obj don] V'(1) by simp
  have "snapshot_entries ?h (se_tlog_name env) V' (map tl_id (sr_tlogs_out res)) = concat ps"
    unfolding d(1) by (rule new_snapshot_entries [OF t]) (use d(2) in \<open>simp add: merged_def\<close>)
  moreover have "volume_data (se_pool env) V' (concat ps) = volume_data (se_pool env) V1 (concat ps)"
    by (rule volume_data_cong) (use V'(2) scrub_done_objects(4) [OF env obj don] d(2,3) in \<open>simp add: merged_def\<close>)
  ultimately show "snapshot_data env V' (map tl_id (sr_tlogs_out res)) = volume_data (se_pool env) V ls"
    using d(2) by (simp add: snapshot_data_def merged_def)
  show "\<forall>t \<in> set (sr_tlogs_out res). V' (se_tlog_name env (tl_id t)) \<noteq> None"
  proof
    fix t assume "t \<in> set (sr_tlogs_out res)"
    then have "tl_id t \<in> set (map (se_uuid env) [n ..< n + length ps])" unfolding d(1) cut_tlogs_ids [symmetric] by simp
    then obtain k where k: "n \<le> k" "k < n + length ps" "tl_id t = se_uuid env k" by auto
    then show "V' (se_tlog_name env (tl_id t)) \<noteq> None" using spec [OF t, of "k - n"] by (simp add: tname_tlog)
  qed
qed

context object_store
begin

lemma scrub_applied:
  fixes env :: "('s, 'f) scrub_env"
  assumes env: "se_api env = api" "scrub_settings env crc" and vol: "scrub_volume env V p xs sn ys (sb_uuids s)"
    and st: "inv (sb_backend s)" "view (sb_backend s) = V" "sb_files s = Map.empty" and app: "se_apply_immediately env"
  shows "\<exists>res p' s' V'. Scrubber_run env s = (Inr (res, None), s') \<and> V' = view (sb_backend s') \<and>
    V' snapshotFilename = Some (se_print_snapshots env p') \<and>
    p' = p\<lparr>sp_snapshots := xs @ sn\<lparr>snap_tlogs := sr_tlogs_out res, scrubbed := True\<rparr> # ys, sp_scrub_id := sp_scrub_id p'\<rparr> \<and>
    (\<forall>t \<in> set (sr_tlogs_out res). V' (se_tlog_name env (tl_id t)) \<noteq> None) \<and>
    snapshot_data env V' (map tl_id (sr_tlogs_out res)) = snapshot_data env V (map tl_id (snap_tlogs sn)) \<and>
    scrub_deletes env V (map tl_id (snap_tlogs sn)) res \<and>
    (\<forall>x v. V x = Some v \<and> x \<noteq> snapshotFilename \<and> x \<notin> SCO_str ` set (sr_sconames_to_be_deleted res) \<and>
       x \<notin> se_tlog_name env ` set (map tl_id (snap_tlogs sn)) \<longrightarrow> V' x = Some v)"
proof -
  define ids where "ids = map tl_id (snap_tlogs sn)"
  define ls where "ls = snapshot_entries (te_hash (po_tlog (se_pool env))) (se_tlog_name env) V ids"
  let ?c = "scrub_cut_env env" and ?n = "sb_uuids s"
  have p: "sp_inv p" "sp_snapshots p = xs @ sn # ys" and obj: "scrub_objects env V ids ls ?n"
    using vol by (simp_all add: scrub_volume_def ids_def ls_def)
  from scrub_start_ok [OF env vol st refl ids_def ls_def] obtain res ps qs V1 s1 where
    don: "scrub_done env view inv V ids ls ?n res ps qs V1 s1"
    and run: "Scrubber_run env s = sbind (apply_scrub_result env p (snap_num sn) res) (\<lambda>_. sret (res, None)) s1" using app by auto
  let ?p = "with_scrubbed xs sn ys (sr_tlogs_out res) (se_uuid env (sb_uuids s1)) p"
  from apply_scrub_result_ok [OF env p ids_def obj don] obtain s' where
    s': "apply_scrub_result env p (snap_num sn) res s1 = (Inr (), s')"
      "view (sb_backend s') = (view (sb_backend s1))(snapshotFilename \<mapsto> se_print_snapshots env ?p) |`
        (- SCO_str ` set (sr_sconames_to_be_deleted res)) |` (- se_tlog_name env ` set ids)" by (elim exE conjE) (rule that)
  let ?V' = "view (sb_backend s')"
  have V': "?V' x = view (sb_backend s1) x" if "x \<noteq> snapshotFilename" "x \<notin> SCO_str ` set (sr_sconames_to_be_deleted res)"
    "x \<notin> se_tlog_name env ` set ids" for x using that by (simp add: s'(2) restrict_map_def)
  have "?V' snapshotFilename = Some (se_print_snapshots env ?p)"
    using sco_names_apart(1) other_names(4) [of env] by (auto simp: s'(2) restrict_map_def)
  moreover have "?V' (tname ?c (?n + i)) = view (sb_backend s1) (tname ?c (?n + i))" if "i < length ps" for i
  proof (rule V')
    have "length ps \<le> length ls + 1" using don by (simp add: scrub_done_def Let_def)
    then have "V (tname ?c (?n + i)) = None" using scrub_objectsD(8) [OF obj] that by (simp add: scrub_uuids_def scrub_tname)
    then show "tname ?c (?n + i) \<notin> se_tlog_name env ` set ids" using scrub_objectsD(2) [OF obj] by auto
  qed (use sco_names_apart(2) [of env] not_sym [OF other_names(4) [of env]] in \<open>auto simp: tname_tlog\<close>)
  moreover have "?V' (SCO_str sco) = view (sb_backend s1) (SCO_str sco)" if "sco \<notin> set (sr_sconames_to_be_deleted res)" for sco
    by (rule V') (use not_sym [OF sco_names_apart(1) [of sco]] not_sym [OF sco_names_apart(2) [of env _ sco]] that in \<open>auto simp: SCO_str_inj\<close>)
  moreover have "?V' x = Some v" if "V x = Some v" "x \<noteq> snapshotFilename" "x \<notin> SCO_str ` set (sr_sconames_to_be_deleted res)"
    "x \<notin> se_tlog_name env ` set ids" for x v using V' [OF that(2-4)] scrub_done_objects(1) [OF env(2) obj don that(1)] by simp
  moreover have "Scrubber_run env s = (Inr (res, None), s')" using run s'(1) by (simp add: sbind_run sret_def)
  ultimately show ?thesis
    using scrubbed_data [OF env(2) obj don, of ?V'] scrub_done_deletes [OF obj don]
    by (intro exI [of _ res] exI [of _ ?p] exI [of _ s'] exI [of _ ?V'])
      (simp add: with_scrubbed_def snapshot_data_def [of env V] ids_def [symmetric] ls_def [symmetric])
qed

lemma scrub_stored:
  fixes env :: "('s, 'f) scrub_env"
  assumes env: "se_api env = api" "scrub_settings env crc" and vol: "scrub_volume env V p xs sn ys (sb_uuids s)"
    and st: "inv (sb_backend s)" "view (sb_backend s) = V" "sb_files s = Map.empty" and app: "\<not> se_apply_immediately env"
  shows "\<exists>res name s' V'. Scrubber_run env s = (Inr (res, Some name), s') \<and> V' = view (sb_backend s') \<and>
    isScrubbingResultString name \<and> V' name = Some (se_print_result env res) \<and>
    sr_tlog_names_in res = map tl_id (snap_tlogs sn) \<and> (\<forall>x v. V x = Some v \<longrightarrow> V' x = Some v) \<and>
    scrub_deletes env V (map tl_id (snap_tlogs sn)) res \<and>
    snapshot_data env (V' |` (- SCO_str ` set (sr_sconames_to_be_deleted res))) (map tl_id (sr_tlogs_out res)) =
      snapshot_data env V (map tl_id (snap_tlogs sn))"
proof -
  define ids where "ids = map tl_id (snap_tlogs sn)"
  define ls where "ls = snapshot_entries (te_hash (po_tlog (se_pool env))) (se_tlog_name env) V ids"
  let ?c = "scrub_cut_env env" and ?n = "sb_uuids s"
  have obj: "scrub_objects env V ids ls ?n" using vol by (simp_all add: scrub_volume_def ids_def ls_def)
  from scrub_start_ok [OF env vol st refl ids_def ls_def] obtain res ps qs V1 s1 where
    don: "scrub_done env view inv V ids ls ?n res ps qs V1 s1"
    and run: "Scrubber_run env s = sbind (store_scrub_result env res) (\<lambda>name. sret (res, Some name)) s1" using app by auto
  let ?name = "scrub_result_string @ se_text env (se_uuid env (sb_uuids s1))"
  from store_scrub_result_ok [OF env obj don refl] obtain s' where
    s': "store_scrub_result env res s1 = (Inr ?name, s')" "view (sb_backend s') = (view (sb_backend s1))(?name \<mapsto> se_print_result env res)"
      "V ?name = None" by (elim exE conjE) (rule that)
  let ?V' = "view (sb_backend s') |` (- SCO_str ` set (sr_sconames_to_be_deleted res))"
  have "isScrubbingResultString ?name" using env(2) by (simp add: isScrubbingResultString_def scrub_settings_def)
  moreover have "view (sb_backend s') x = Some v" if "V x = Some v" for x v
    using that s'(2,3) scrub_done_objects(1) [OF env(2) obj don that] by auto
  moreover have "sr_tlog_names_in res = ids" using don by (simp add: scrub_done_def Let_def)
  moreover have "?V' (tname ?c (?n + i)) = view (sb_backend s1) (tname ?c (?n + i))" for i
    using sco_names_apart(2) [of env] not_sym [OF other_names(5) [of _ env]] by (auto simp: s'(2) tname_tlog restrict_map_def)
  moreover have "?V' (SCO_str sco) = view (sb_backend s1) (SCO_str sco)" if "sco \<notin> set (sr_sconames_to_be_deleted res)" for sco
  proof -
    have "SCO_str sco \<noteq> ?name" using isSCOString_str [of sco] other_names(2) by metis
    then show ?thesis using that by (auto simp: s'(2) restrict_map_def SCO_str_inj)
  qed
  moreover have "Scrubber_run env s = (Inr (res, Some ?name), s')" using run s'(1) by (simp add: sbind_run sret_def)
  ultimately show ?thesis
    using scrubbed_data(1) [OF env(2) obj don, of ?V'] scrub_done_deletes [OF obj don] s'(2)
    by (intro exI [of _ res] exI [of _ ?name] exI [of _ s'] exI [of _ "view (sb_backend s')"])
      (simp add: snapshot_data_def [of env V] ids_def [symmetric] ls_def [symmetric])
qed

end

end
