(* ===== verification/Scrubber_Properties.thy ===== *)
theory Scrubber_Properties
  imports Scrubber_Apply
begin

text \<open>
  The properties of the scrubber, through the backend interface to a local store, and an example: a volume with
  two SCOs, of which the first holds one cluster that is overwritten in the second.
\<close>

subsection \<open>The text of a UUID\<close>

definition ex_uuid_text :: "uuid \<Rightarrow> string" where
  "ex_uuid_text u =
     (let n = unat u
      in setw 8 (hexstr (n div 16 ^ 24)) @ ''-'' @ setw 4 (hexstr (n div 16 ^ 20 mod 16 ^ 4)) @ ''-'' @
         setw 4 (hexstr (n div 16 ^ 16 mod 16 ^ 4)) @ ''-'' @ setw 4 (hexstr (n div 16 ^ 12 mod 16 ^ 4)) @ ''-'' @
         setw 12 (hexstr (n mod 16 ^ 12)))"

lemma ex_uuid_fields:
  fixes u :: uuid
  shows "length (setw 8 (hexstr (unat u div 16 ^ 24))) = 8" and "length (setw 4 (hexstr (m mod 16 ^ 4))) = 4"
    and "length (setw 12 (hexstr (m mod 16 ^ 12))) = 12"
proof -
  have "unat u div 16 ^ 24 < 16 ^ 8" using unat_bound [of u] by (intro less_mult_imp_div_less) simp
  then show "length (setw 8 (hexstr (unat u div 16 ^ 24))) = 8" by (intro length_setw) simp_all
  show "length (setw 4 (hexstr (m mod 16 ^ 4))) = 4" "length (setw 12 (hexstr (m mod 16 ^ 12))) = 12"
    by (intro length_setw; simp)+
qed

lemma ex_uuid_text_ok: "isUUIDString (ex_uuid_text u)"
proof -
  define a b c d e where "a = setw 8 (hexstr (unat u div 16 ^ 24))" and "b = setw 4 (hexstr (unat u div 16 ^ 20 mod 16 ^ 4))"
    and "c = setw 4 (hexstr (unat u div 16 ^ 16 mod 16 ^ 4))" and "d = setw 4 (hexstr (unat u div 16 ^ 12 mod 16 ^ 4))"
    and "e = setw 12 (hexstr (unat u mod 16 ^ 12))"
  have t: "ex_uuid_text u = a @ ''-'' @ b @ ''-'' @ c @ ''-'' @ d @ ''-'' @ e" by (simp add: ex_uuid_text_def a_def b_def c_def d_def e_def Let_def)
  have l: "length a = 8" "length b = 4" "length c = 4" "length d = 4" "length e = 12"
    unfolding a_def b_def c_def d_def e_def by (rule ex_uuid_fields)+
  have h: "list_all isxdigit a" "list_all isxdigit b" "list_all isxdigit c" "list_all isxdigit d" "list_all isxdigit e"
    unfolding a_def b_def c_def d_def e_def by (rule list_all_setw)+
  have m: "map (char_at (ex_uuid_text u)) [0 ..< 8] = a" "map (char_at (ex_uuid_text u)) [9 ..< 13] = b"
    "map (char_at (ex_uuid_text u)) [14 ..< 18] = c" "map (char_at (ex_uuid_text u)) [19 ..< 23] = d"
    "map (char_at (ex_uuid_text u)) [24 ..< 36] = e"
    using map_char_at [of 0 "[]" 8 a "''-'' @ b @ ''-'' @ c @ ''-'' @ d @ ''-'' @ e"]
      map_char_at [of 9 "a @ ''-''" 13 b "''-'' @ c @ ''-'' @ d @ ''-'' @ e"]
      map_char_at [of 14 "a @ ''-'' @ b @ ''-''" 18 c "''-'' @ d @ ''-'' @ e"]
      map_char_at [of 19 "a @ ''-'' @ b @ ''-'' @ c @ ''-''" 23 d "''-'' @ e"]
      map_char_at [of 24 "a @ ''-'' @ b @ ''-'' @ c @ ''-'' @ d @ ''-''" 36 e "[]"] l t by simp_all
  have "char_at (ex_uuid_text u) 8 = CHR ''-''" "char_at (ex_uuid_text u) 13 = CHR ''-''" "char_at (ex_uuid_text u) 18 = CHR ''-''"
    "char_at (ex_uuid_text u) 23 = CHR ''-''"
    using char_at_append [of a "CHR ''-''" "b @ ''-'' @ c @ ''-'' @ d @ ''-'' @ e"]
      char_at_append [of "a @ ''-'' @ b" "CHR ''-''" "c @ ''-'' @ d @ ''-'' @ e"]
      char_at_append [of "a @ ''-'' @ b @ ''-'' @ c" "CHR ''-''" "d @ ''-'' @ e"]
      char_at_append [of "a @ ''-'' @ b @ ''-'' @ c @ ''-'' @ d" "CHR ''-''" e] l t by simp_all
  then show ?thesis using l h m by (simp add: isUUIDString_def hasonlyhexdigits_iff) (simp add: t)
qed

lemma setw_hexstr_inj:
  assumes "setw w (hexstr m) = setw w (hexstr n)" and "m < 2 ^ 64" and "n < 2 ^ 64"
  shows "m = n"
proof -
  have "(of_nat m :: u64) = of_nat n" using gethexnum_loop_setw [of w m] gethexnum_loop_setw [of w n] assms(1) by simp
  then have "unat (of_nat m :: u64) = unat (of_nat n :: u64)" by simp
  then show ?thesis using assms(2,3) by (simp add: unat_of_nat take_bit_nat_eq_self)
qed

lemma ex_uuid_text_inj: "inj ex_uuid_text"
proof
  fix u v :: uuid
  assume eq: "ex_uuid_text u = ex_uuid_text v"
  let ?m = "unat u" and ?n = "unat v"
  have b: "unat w div 16 ^ 24 < 2 ^ 64" for w :: uuid using unat_bound [of w] by (intro less_mult_imp_div_less) simp
  have m: "x mod 16 ^ 4 < 2 ^ 64" "x mod 16 ^ 12 < 2 ^ 64" for x :: nat by (rule less_trans [OF mod_less_divisor]; simp)+
  from eq have "setw 8 (hexstr (?m div 16 ^ 24)) = setw 8 (hexstr (?n div 16 ^ 24)) \<and>
      setw 4 (hexstr (?m div 16 ^ 20 mod 16 ^ 4)) = setw 4 (hexstr (?n div 16 ^ 20 mod 16 ^ 4)) \<and>
      setw 4 (hexstr (?m div 16 ^ 16 mod 16 ^ 4)) = setw 4 (hexstr (?n div 16 ^ 16 mod 16 ^ 4)) \<and>
      setw 4 (hexstr (?m div 16 ^ 12 mod 16 ^ 4)) = setw 4 (hexstr (?n div 16 ^ 12 mod 16 ^ 4)) \<and>
      setw 12 (hexstr (?m mod 16 ^ 12)) = setw 12 (hexstr (?n mod 16 ^ 12))"
    by (simp only: ex_uuid_text_def Let_def append_eq_append_conv ex_uuid_fields list.inject append_Cons append_Nil simp_thms)
  then have e: "?m div 16 ^ 24 = ?n div 16 ^ 24" "?m div 16 ^ 20 mod 16 ^ 4 = ?n div 16 ^ 20 mod 16 ^ 4"
    "?m div 16 ^ 16 mod 16 ^ 4 = ?n div 16 ^ 16 mod 16 ^ 4" "?m div 16 ^ 12 mod 16 ^ 4 = ?n div 16 ^ 12 mod 16 ^ 4"
    "?m mod 16 ^ 12 = ?n mod 16 ^ 12"
    using setw_hexstr_inj [OF _ b b] setw_hexstr_inj [OF _ m(1) m(1)] setw_hexstr_inj [OF _ m(2) m(2)] by blast+
  have join: "x div 16 ^ i = y div 16 ^ i" if "x div 16 ^ (i + 4) = y div 16 ^ (i + 4)" "x div 16 ^ i mod 16 ^ 4 = y div 16 ^ i mod 16 ^ 4" for x y i :: nat
  proof -
    have "x div 16 ^ i div 16 ^ 4 = y div 16 ^ i div 16 ^ 4" using that(1) by (simp only: div_mult2_eq [symmetric] power_add)
    then show ?thesis using that(2) div_mult_mod_eq [of "x div 16 ^ i" "16 ^ 4"] div_mult_mod_eq [of "y div 16 ^ i" "16 ^ 4"] by metis
  qed
  from e(1) have "?m div 16 ^ (20 + 4) = ?n div 16 ^ (20 + 4)" by simp
  from join [OF this e(2)] have "?m div 16 ^ (16 + 4) = ?n div 16 ^ (16 + 4)" by simp
  from join [OF this e(3)] have "?m div 16 ^ (12 + 4) = ?n div 16 ^ (12 + 4)" by simp
  from join [OF this e(4)] e(5) have "?m = ?n" by (metis div_mult_mod_eq)
  then show "u = v" by (simp only: word_unat_eq_iff)
qed

subsection \<open>A volume\<close>

definition ex_entry :: "u64 \<Rightarrow> u32 \<Rightarrow> u16 \<Rightarrow> entry" where
  "ex_entry a n offset = \<lparr>e_clusteraddress = a, e_loc = \<lparr>clusterLocation = ClusterLocation_new n offset 0 0, weed = 0\<rparr>\<rparr>"

definition ex_entries :: "entry list" where
  "ex_entries = [ex_entry 5 1 0, ex_entry 6 1 1, ex_entry 5 2 0]"

definition ex_dir :: object_dir where
  "ex_dir = [(snapshotFilename, [0]), (''tlog_'' @ ex_uuid_text 4, entries_bytes True ex_entries),
     (SCO_str (SCO_new 1 0 0), [1, 2, 3, 4]), (SCO_str (SCO_new 2 0 0), [5, 6])]"

definition ex_scrub_env :: "bool \<Rightarrow> ((local_store, unit) bi_state, nat) scrub_env" where
  "ex_scrub_env apply_immediately =
     \<lparr>se_pool = \<lparr>po_api = backend_api (ex_bi_env (local_api ex_local_env)) None ''n'', po_tlog = le_tlog ex_local_env,
        po_cluster_size = 2, po_sco_size = 2, po_minimum_used_entries = 2, po_access_data = (\<lambda>_. 0), po_zero = 0,
        po_add = (+), po_div = (\<lambda>x k. x div unat k)\<rparr>,
      se_uuid = (\<lambda>k. 100 + of_nat k), se_text = ex_uuid_text, se_cache_size = 4, se_parse_snapshots = (\<lambda>_. Inr ex_sp),
      se_print_snapshots = (\<lambda>_. [1]), se_print_result = (\<lambda>_. [2]), se_snapshot_name = ''b'', se_region_size_exponent = 3,
      se_apply_immediately = apply_immediately, se_uninitialised = 0\<rparr>"

definition ex_scrubber :: "(local_store, unit) bi_state scrubber" where
  "ex_scrubber =
     \<lparr>sb_backend = ex_bi_state \<lparr>lo_root = True, lo_dirs = [(''n'', ex_dir)],
        lo_lru = \<lparr>lru_entries = [], lru_capacity = 32, lru_hits = 0, lru_misses = 0\<rparr>\<rparr>,
      sb_files = Map.empty, sb_uuids = 0\<rparr>"

lemma ex_objects:
  "map_of ex_dir snapshotFilename = Some [0]"
  "map_of ex_dir (''tlog_'' @ ex_uuid_text u) = (if u = 4 then Some (entries_bytes True ex_entries) else None)"
  "map_of ex_dir (SCO_str sco) = (if sco = SCO_new 1 0 0 then Some [1, 2, 3, 4] else if sco = SCO_new 2 0 0 then Some [5, 6] else None)"
  "map_of ex_dir (''relocation_tlog_'' @ x) = None" "map_of ex_dir (scrub_result_string @ x) = None"
proof -
  have o: "SCO_str sco \<noteq> snapshotFilename" "SCO_str sco \<noteq> ''tlog_'' @ ex_uuid_text i" "SCO_str sco \<noteq> ''relocation_tlog_'' @ x"
    "SCO_str sco \<noteq> scrub_result_string @ x" for sco i
    using sco_names_apart(1) [of sco] sco_names_apart(2) [of "ex_scrub_env True" i sco] isSCOString_str [of sco] tname_not_sco(2) [of "''tlog_'' @ x"]
      other_names(2) [of x] by (auto simp: se_tlog_name_def ex_scrub_env_def)
  have i: "ex_uuid_text a = ex_uuid_text b \<longleftrightarrow> a = b" for a b using injD [OF ex_uuid_text_inj] by auto
  have f: "snapshotFilename \<noteq> ''tlog_'' @ y" "snapshotFilename \<noteq> ''relocation_tlog_'' @ y" "snapshotFilename \<noteq> scrub_result_string @ y"
    "''tlog_'' @ y \<noteq> ''relocation_tlog_'' @ z" "''tlog_'' @ y \<noteq> scrub_result_string @ z" for y z
    by (simp_all add: snapshotFilename_def scrub_result_string_def)
  show "map_of ex_dir snapshotFilename = Some [0]" by (simp add: ex_dir_def)
  show "map_of ex_dir (''tlog_'' @ ex_uuid_text u) = (if u = 4 then Some (entries_bytes True ex_entries) else None)"
    unfolding ex_dir_def by (simp add: i f not_sym [OF f(1)] o not_sym [OF o(2)] del: append.simps)
  show "map_of ex_dir (SCO_str sco) = (if sco = SCO_new 1 0 0 then Some [1, 2, 3, 4] else if sco = SCO_new 2 0 0 then Some [5, 6] else None)"
    unfolding ex_dir_def by (simp add: o not_sym [OF o(1)] not_sym [OF o(2)] SCO_str_inj del: append.simps)
  show "map_of ex_dir (''relocation_tlog_'' @ x) = None" "map_of ex_dir (scrub_result_string @ x) = None"
    unfolding ex_dir_def
    by (simp_all add: f not_sym [OF f(2)] not_sym [OF f(3)] not_sym [OF f(4)] not_sym [OF f(5)] o not_sym [OF o(3)] not_sym [OF o(4)] del: append.simps)
qed

lemma ex_settings: "scrub_settings (ex_scrub_env b) (file_crc ex_local_env)"
  by (simp add: scrub_settings_def ex_scrub_env_def pool_sizes_def crc_law_def file_crc_def Entry_getDataSize_def ex_local_env_def
      ex_uuid_text_inj ex_uuid_text_ok)

lemma ex_good: "\<forall>e \<in> set ex_entries. good_entry e \<and> entry_ok True e"
  by (simp add: ex_entries_def ex_entry_def good_entry_def entry_ok_def isNull_def ClusterLocation_new_def SCO_new_def max_valid_cluster_address_def)

lemma ex_snapshot_entries: "snapshot_entries True (se_tlog_name (ex_scrub_env b)) (map_of ex_dir) [4] = ex_entries"
proof -
  have "map_of ex_dir (se_tlog_name (ex_scrub_env b) 4) = Some (entries_bytes True ex_entries)"
    using ex_objects(2) [of 4] by (simp add: se_tlog_name_def ex_scrub_env_def del: append.simps)
  then show ?thesis
    using ex_good good_locations [of ex_entries] file_entries_bytes [of ex_entries True] by (simp add: snapshot_entries_def)
qed

lemma ex_input: "scrub_input ex_entries"
proof -
  have "usage_of ex_entries (entry_sco e) \<le> length ex_entries" for e by (simp add: usage_of_def)
  moreover have "length ex_entries < 2 ^ 16" by (simp add: ex_entries_def)
  ultimately have "usage_of ex_entries (entry_sco e) < 2 ^ 16" for e by (rule le_less_trans)
  moreover have "loc_sorted ex_entries" by (simp add: ex_entries_def ex_entry_def loc_sorted_def loc_key_def ClusterLocation_new_def SCO_new_def)
  moreover have "\<forall>a \<in> set ex_entries. \<forall>b \<in> set ex_entries. sco_num (entry_sco a) = sco_num (entry_sco b) \<longrightarrow> entry_sco a = entry_sco b"
    by (simp add: ex_entries_def ex_entry_def sco_num_def ClusterLocation_new_def SCO_new_def)
  ultimately show ?thesis using ex_good by (simp add: scrub_input_def)
qed

lemma ex_small: "m < 1000 \<Longrightarrow> unat (of_nat m :: uuid) = m"
  by (simp add: unat_of_nat take_bit_nat_eq_self)

lemma ex_scrub_objects: "scrub_objects (ex_scrub_env b) (map_of ex_dir) [4] ex_entries 0"
  unfolding scrub_objects_def
proof (intro conjI)
  show "\<forall>i \<in> set [4]. map_of ex_dir (se_tlog_name (ex_scrub_env b) i) \<noteq> None"
    using ex_objects(2) [of 4] by (simp add: se_tlog_name_def ex_scrub_env_def del: append.simps)
  show "ex_entries = snapshot_entries (te_hash (po_tlog (se_pool (ex_scrub_env b)))) (se_tlog_name (ex_scrub_env b)) (map_of ex_dir) [4]"
    using ex_snapshot_entries [of b] by (simp add: ex_scrub_env_def ex_local_env_def)
  show "scrub_input ex_entries" by (rule ex_input)
  show "length ex_entries < 2 ^ 63" by (simp add: ex_entries_def)
  show "\<forall>e \<in> set ex_entries. \<exists>c. map_of ex_dir (SCO_str (entry_sco e)) = Some c \<and> (entry_offset e + 1) * cluster_size (se_pool (ex_scrub_env b)) \<le> length c"
    by (simp add: ex_entries_def ex_entry_def ex_objects(3) ClusterLocation_new_def SCO_new_def ex_scrub_env_def)
  show "\<forall>e \<in> set ex_entries. \<exists>v. v \<noteq> sco_version (entry_sco e) \<and> map_of ex_dir (SCO_str ((entry_sco e)\<lparr>sco_version := v\<rparr>)) = None"
    by (auto simp: ex_entries_def ex_entry_def ex_objects(3) ClusterLocation_new_def SCO_new_def intro!: exI [of _ 1])
  have "inj_on (\<lambda>k. 100 + of_nat k :: uuid) {0 ..< 12}"
  proof (rule inj_onI)
    fix x y :: nat
    assume xy: "x \<in> {0 ..< 12}" "y \<in> {0 ..< 12}" and eq: "(100 + of_nat x :: uuid) = 100 + of_nat y"
    from xy have "x < 1000" "y < 1000" by simp_all
    note u = ex_small [OF this(1)] ex_small [OF this(2)]
    from eq have "(of_nat x :: uuid) = of_nat y" by (simp only: add_left_cancel)
    then show "x = y" by (metis u)
  qed
  then show "inj_on (se_uuid (ex_scrub_env b)) {0 ..< scrub_uuids 0 ex_entries}"
    by (simp add: ex_scrub_env_def scrub_uuids_def ex_entries_def)
  show "\<forall>k \<in> {0 ..< scrub_uuids 0 ex_entries}. \<forall>pre \<in> {''tlog_'', ''relocation_tlog_'', scrub_result_string}.
      map_of ex_dir (pre @ se_text (ex_scrub_env b) (se_uuid (ex_scrub_env b) k)) = None"
  proof
    fix k assume "k \<in> {0 ..< scrub_uuids 0 ex_entries}"
    then have "k < 12" by (simp add: scrub_uuids_def ex_entries_def)
    then have "100 + k < 1000" by simp
    from ex_small [OF this] have u: "unat (100 + of_nat k :: uuid) = 100 + k" by (simp only: of_nat_add of_nat_numeral)
    have "(100 + of_nat k :: uuid) \<noteq> 4"
    proof
      assume "(100 + of_nat k :: uuid) = 4"
      from arg_cong [OF this, of unat] u show False by simp
    qed
    then show "\<forall>pre \<in> {''tlog_'', ''relocation_tlog_'', scrub_result_string}.
        map_of ex_dir (pre @ se_text (ex_scrub_env b) (se_uuid (ex_scrub_env b) k)) = None"
      using ex_objects(2,4,5) by (simp add: ex_scrub_env_def del: append.simps)
  qed
qed

lemma ex_scrub_volume:
  "scrub_volume (ex_scrub_env b) (map_of ex_dir) ex_sp [ex_snap 0 ''a'' [ex_tlog 1 True, ex_tlog 2 True, ex_tlog 3 True]]
     (ex_snap 1 ''b'' [ex_tlog 4 True]) [] 0"
proof -
  have "map tl_id (snap_tlogs (ex_snap 1 ''b'' [ex_tlog 4 True])) = [4]" by (simp add: ex_defs)
  with ex_scrub_objects [of b] ex_snapshot_entries [of b] show ?thesis
    using ex_objects(1) ex_sp_inv
    by (simp add: scrub_volume_def) (simp add: ex_defs ex_scrub_env_def ex_local_env_def)
qed

lemma ex_local_ok: "local_ok ex_local_env (ex_bi_env (local_api ex_local_env)) ''n'' (sb_backend ex_scrubber)"
  by (auto simp: local_ok_def mkstemp_ok_def ex_mkstemp_fresh random_ok_def ex_bi_env_def ex_bi_state_def ex_local_env_def
      lo_ok_def lru_ok_def lo_object_def ex_scrubber_def)

lemma ex_snapshot_data: "snapshot_data (ex_scrub_env b) (map_of ex_dir) [4] 5 = Some [5, 6]" "snapshot_data (ex_scrub_env b) (map_of ex_dir) [4] 6 = Some [3, 4]"
proof -
  have "snapshot_data (ex_scrub_env b) (map_of ex_dir) [4] = volume_data (se_pool (ex_scrub_env b)) (map_of ex_dir) ex_entries"
    using ex_snapshot_entries [of b] by (simp add: snapshot_data_def ex_scrub_env_def ex_local_env_def)
  then show "snapshot_data (ex_scrub_env b) (map_of ex_dir) [4] 5 = Some [5, 6]" "snapshot_data (ex_scrub_env b) (map_of ex_dir) [4] 6 = Some [3, 4]"
    by (simp_all add: volume_data_def cluster_bytes_def ex_entries_def ex_entry_def ex_objects(3) ClusterLocation_new_def SCO_new_def ex_scrub_env_def)
qed

subsection \<open>Properties\<close>

text \<open>
  C2. A scrub that is applied at once succeeds and keeps the data: the snapshots file on the backend then holds
  the old database with the new TLogs in the scrubbed snapshot, these TLogs are on the backend, and reading them
  gives for every address the cluster that the old TLogs gave, out of the SCOs that are left. Only SCOs of this
  snapshot are deleted, never the last one, and every other object is as before.
\<close>

theorem scrub_applied_keeps_data:
  fixes env :: "((local_store, unit) bi_state, 'f) scrub_env"
  assumes "local_ok lenv benv ns (sb_backend s)" and "se_api env = backend_api benv params ns"
    and "scrub_settings env (file_crc lenv)" and "V = lo_object (bi_store (sb_backend s)) ns"
    and "scrub_volume env V p xs sn ys (sb_uuids s)" and "sb_files s = Map.empty" and "se_apply_immediately env"
  shows "\<exists>res p' s' V'. Scrubber_run env s = (Inr (res, None), s') \<and> V' = lo_object (bi_store (sb_backend s')) ns \<and>
    V' snapshotFilename = Some (se_print_snapshots env p') \<and>
    p' = p\<lparr>sp_snapshots := xs @ sn\<lparr>snap_tlogs := sr_tlogs_out res, scrubbed := True\<rparr> # ys, sp_scrub_id := sp_scrub_id p'\<rparr> \<and>
    (\<forall>t \<in> set (sr_tlogs_out res). V' (se_tlog_name env (tl_id t)) \<noteq> None) \<and>
    snapshot_data env V' (map tl_id (sr_tlogs_out res)) = snapshot_data env V (map tl_id (snap_tlogs sn)) \<and>
    scrub_deletes env V (map tl_id (snap_tlogs sn)) res \<and>
    (\<forall>x v. V x = Some v \<and> x \<noteq> snapshotFilename \<and> x \<notin> SCO_str ` set (sr_sconames_to_be_deleted res) \<and>
       x \<notin> se_tlog_name env ` set (map tl_id (snap_tlogs sn)) \<longrightarrow> V' x = Some v)"
  by (rule local_backend.scrub_applied [OF assms(2,3,5,1) assms(4) [symmetric] assms(6,7)])

theorem scrub_applied_keeps_data_witness:
  "\<exists>res s' V'. Scrubber_run (ex_scrub_env True) ex_scrubber = (Inr (res, None), s') \<and>
    V' = lo_object (bi_store (sb_backend s')) ''n'' \<and> V' snapshotFilename = Some [1] \<and>
    snapshot_data (ex_scrub_env True) V' (map tl_id (sr_tlogs_out res)) 5 = Some [5, 6] \<and>
    snapshot_data (ex_scrub_env True) V' (map tl_id (sr_tlogs_out res)) 6 = Some [3, 4]"
proof -
  have V: "map_of ex_dir = lo_object (bi_store (sb_backend ex_scrubber)) ''n''"
    by (simp add: ex_scrubber_def ex_bi_state_def lo_object_def fun_eq_iff)
  have api: "se_api (ex_scrub_env True) = backend_api (ex_bi_env (local_api ex_local_env)) None ''n''"
    by (simp add: se_api_def ex_scrub_env_def)
  have vol: "scrub_volume (ex_scrub_env True) (map_of ex_dir) ex_sp [ex_snap 0 ''a'' [ex_tlog 1 True, ex_tlog 2 True, ex_tlog 3 True]]
      (ex_snap 1 ''b'' [ex_tlog 4 True]) [] (sb_uuids ex_scrubber)" using ex_scrub_volume by (simp add: ex_scrubber_def)
  have "sb_files ex_scrubber = Map.empty" "se_apply_immediately (ex_scrub_env True)" by (simp_all add: ex_scrubber_def ex_scrub_env_def)
  from scrub_applied_keeps_data [OF ex_local_ok api ex_settings V vol this] obtain res p' s' V' where
    r: "Scrubber_run (ex_scrub_env True) ex_scrubber = (Inr (res, None), s')" "V' = lo_object (bi_store (sb_backend s')) ''n''"
      "V' snapshotFilename = Some (se_print_snapshots (ex_scrub_env True) p')"
      "snapshot_data (ex_scrub_env True) V' (map tl_id (sr_tlogs_out res)) =
        snapshot_data (ex_scrub_env True) (map_of ex_dir) (map tl_id (snap_tlogs (ex_snap 1 ''b'' [ex_tlog 4 True])))" by (elim exE conjE) (rule that)
  have "map tl_id (snap_tlogs (ex_snap 1 ''b'' [ex_tlog 4 True])) = [4]" by (simp add: ex_defs)
  moreover have "se_print_snapshots (ex_scrub_env True) p' = [1]" by (simp add: ex_scrub_env_def)
  ultimately show ?thesis using r ex_snapshot_data [of True] by auto
qed

text \<open>
  C8. A scrub whose result is stored for the volume to apply leaves every object as it was and stores the result
  under a new name. The result names the TLogs of the snapshot; the new TLogs hold the data of the snapshot, also
  once the SCOs that the result names are deleted.
\<close>

theorem scrub_stored_keeps_data:
  fixes env :: "((local_store, unit) bi_state, 'f) scrub_env"
  assumes "local_ok lenv benv ns (sb_backend s)" and "se_api env = backend_api benv params ns"
    and "scrub_settings env (file_crc lenv)" and "V = lo_object (bi_store (sb_backend s)) ns"
    and "scrub_volume env V p xs sn ys (sb_uuids s)" and "sb_files s = Map.empty" and "\<not> se_apply_immediately env"
  shows "\<exists>res name s' V'. Scrubber_run env s = (Inr (res, Some name), s') \<and> V' = lo_object (bi_store (sb_backend s')) ns \<and>
    isScrubbingResultString name \<and> V' name = Some (se_print_result env res) \<and>
    sr_tlog_names_in res = map tl_id (snap_tlogs sn) \<and> (\<forall>x v. V x = Some v \<longrightarrow> V' x = Some v) \<and>
    scrub_deletes env V (map tl_id (snap_tlogs sn)) res \<and>
    snapshot_data env (V' |` (- SCO_str ` set (sr_sconames_to_be_deleted res))) (map tl_id (sr_tlogs_out res)) =
      snapshot_data env V (map tl_id (snap_tlogs sn))"
  by (rule local_backend.scrub_stored [OF assms(2,3,5,1) assms(4) [symmetric] assms(6,7)])

theorem scrub_stored_keeps_data_witness:
  "\<exists>res name s' V'. Scrubber_run (ex_scrub_env False) ex_scrubber = (Inr (res, Some name), s') \<and>
    V' = lo_object (bi_store (sb_backend s')) ''n'' \<and> V' name = Some [2] \<and> V' (SCO_str (SCO_new 1 0 0)) = Some [1, 2, 3, 4] \<and>
    snapshot_data (ex_scrub_env False) (V' |` (- SCO_str ` set (sr_sconames_to_be_deleted res))) (map tl_id (sr_tlogs_out res)) 6 = Some [3, 4]"
proof -
  have V: "map_of ex_dir = lo_object (bi_store (sb_backend ex_scrubber)) ''n''"
    by (simp add: ex_scrubber_def ex_bi_state_def lo_object_def fun_eq_iff)
  have api: "se_api (ex_scrub_env False) = backend_api (ex_bi_env (local_api ex_local_env)) None ''n''"
    by (simp add: se_api_def ex_scrub_env_def)
  have vol: "scrub_volume (ex_scrub_env False) (map_of ex_dir) ex_sp [ex_snap 0 ''a'' [ex_tlog 1 True, ex_tlog 2 True, ex_tlog 3 True]]
      (ex_snap 1 ''b'' [ex_tlog 4 True]) [] (sb_uuids ex_scrubber)" using ex_scrub_volume by (simp add: ex_scrubber_def)
  have "sb_files ex_scrubber = Map.empty" "\<not> se_apply_immediately (ex_scrub_env False)" by (simp_all add: ex_scrubber_def ex_scrub_env_def)
  from scrub_stored_keeps_data [OF ex_local_ok api ex_settings V vol this] obtain res name s' V' where
    r: "Scrubber_run (ex_scrub_env False) ex_scrubber = (Inr (res, Some name), s')" "V' = lo_object (bi_store (sb_backend s')) ''n''"
      "V' name = Some (se_print_result (ex_scrub_env False) res)" "\<forall>x v. map_of ex_dir x = Some v \<longrightarrow> V' x = Some v"
      "snapshot_data (ex_scrub_env False) (V' |` (- SCO_str ` set (sr_sconames_to_be_deleted res))) (map tl_id (sr_tlogs_out res)) =
        snapshot_data (ex_scrub_env False) (map_of ex_dir) (map tl_id (snap_tlogs (ex_snap 1 ''b'' [ex_tlog 4 True])))" by (elim exE conjE) (rule that)
  have "map tl_id (snap_tlogs (ex_snap 1 ''b'' [ex_tlog 4 True])) = [4]" by (simp add: ex_defs)
  moreover have "se_print_result (ex_scrub_env False) res = [2]" by (simp add: ex_scrub_env_def)
  moreover have "map_of ex_dir (SCO_str (SCO_new 1 0 0)) = Some [1, 2, 3, 4]" by (simp add: ex_objects(3))
  ultimately show ?thesis using r ex_snapshot_data(2) [of False] by auto
qed

text \<open>
  C38. The TLog cutter writes all entries, in order, to new TLogs whose descriptions it returns. Every TLog but the
  last one has at least the maximal number of entries, and no SCO has locations in two of them: the SCO changes
  where the TLog is cut.
\<close>

theorem TLogCutter_pieces:
  assumes "local_ok lenv benv ns (ct_backend s)" and "cu_api env = backend_api benv params ns" and "cu_tlog env = le_tlog lenv"
    and "cut_fresh env [] (lo_object (bi_store (ct_backend s)) ns) (ct_files s) n (n + length es + 1)" and "ct_uuids s = n"
    and "ct_tlogs s = []" and "\<forall>e \<in> set es. good_entry e" and "length es < 2 ^ 64" and "0 < cu_max_entries env"
  shows "\<exists>ps s'. TLogCutter_run env es s = (Inr (cut_tlogs env n ps), s') \<and> concat ps = es \<and>
    (\<forall>i < length ps. lo_object (bi_store (ct_backend s')) ns (tname env (n + i)) = Some (entries_bytes (te_hash (cu_tlog env)) (ps ! i))) \<and>
    (\<forall>us p q vs. ps = us @ p # q # vs \<longrightarrow> cu_max_entries env \<le> of_nat (length p) \<and>
       sco_number (entry_sco (last p)) \<noteq> sco_number (entry_sco (hd q)))"
proof -
  let ?V = "lo_object (bi_store (ct_backend s)) ns" and ?m = "n + length es + 1" and ?view = "\<lambda>b. lo_object (bi_store b) ns"
  let ?ps = "cuts (tc_cut env) [] es"
  have ready: "tc_ready env ?view (local_ok lenv benv ns) (file_crc lenv) ?V (ct_files s) n ?m [] s"
    using assms(1-6) local_object_store [of benv params ns lenv]
    by (simp add: tc_ready_def cut_store_def cut_tlogs_def file_crc_def)
  have "length es < ?m - n" by simp
  from TLogCutter_run_ok [OF ready assms(7,8) this] obtain s' where
    s': "TLogCutter_run env es s = (Inr (cut_tlogs env n ?ps), s')" "tc_ready env ?view (local_ok lenv benv ns) (file_crc lenv) ?V (ct_files s) n ?m ?ps s'"
    by (elim exE conjE) (rule that)
  have v: "?view (ct_backend s') = put_pieces (te_hash (cu_tlog env)) (tname env) ?V n ?ps" "n + length ?ps \<le> ?m"
    using s'(2) by (simp_all add: tc_ready_def cut_store_def)
  have "inj_on (tname env) {n ..< n + length ?ps}" using assms(4) v(2) by (auto simp: cut_fresh_def intro: inj_on_subset)
  from put_pieces_nth [OF this] have obj: "\<forall>i < length ?ps. ?view (ct_backend s') (tname env (n + i)) = Some (entries_bytes (te_hash (cu_tlog env)) (?ps ! i))"
    by (simp add: v(1))
  have "\<not> tc_cut env [] x" for x using assms(9) by (auto simp: tc_cut_def TLogCutter_cond_def)
  then have cut: "p \<noteq> [] \<and> q \<noteq> [] \<and> tc_cut env p (hd q)" if "?ps = us @ p # q # vs" for us p q vs using cuts_between [OF that] by blast
  have "cu_max_entries env \<le> of_nat (length p) \<and> sco_number (entry_sco (last p)) \<noteq> sco_number (entry_sco (hd q))"
    if "?ps = us @ p # q # vs" for us p q vs using cut [OF that] by (auto simp: tc_cut_def TLogCutter_cond_def split: if_splits)
  with s'(1) obj concat_cuts [of "tc_cut env" "[]" es] show ?thesis by (intro exI [of _ ?ps] exI [of _ s']) simp
qed

theorem TLogCutter_pieces_witness:
  "\<exists>ps s'. TLogCutter_run ((scrub_cut_env (ex_scrub_env True))\<lparr>cu_max_entries := 1\<rparr>) ex_entries
      \<lparr>ct_backend = sb_backend ex_scrubber, ct_files = Map.empty, ct_uuids = 0, ct_tlogs = [], ct_names = [], ct_writer = None\<rparr> =
      (Inr (cut_tlogs ((scrub_cut_env (ex_scrub_env True))\<lparr>cu_max_entries := 1\<rparr>) 0 ps), s') \<and> concat ps = ex_entries"
proof -
  let ?env = "(scrub_cut_env (ex_scrub_env True))\<lparr>cu_max_entries := 1\<rparr>"
  let ?s = "\<lparr>ct_backend = sb_backend ex_scrubber, ct_files = Map.empty, ct_uuids = 0, ct_tlogs = [], ct_names = [], ct_writer = None\<rparr>"
  have V: "lo_object (bi_store (sb_backend ex_scrubber)) ''n'' = map_of ex_dir"
    by (simp add: ex_scrubber_def ex_bi_state_def lo_object_def fun_eq_iff)
  have t: "tname ?env k = tname (scrub_cut_env (ex_scrub_env True)) k" for k by (simp add: tname_def tlog_name_def)
  have inj: "inj_on (tname (scrub_cut_env (ex_scrub_env True))) {0 ..< scrub_uuids 0 ex_entries}"
    by (rule tname_inj [OF ex_settings scrub_objectsD(7) [OF ex_scrub_objects]])
  have len: "length ex_entries = 3" "{0 ..< 4} \<subseteq> {0 ..< scrub_uuids 0 ex_entries}" by (auto simp: ex_entries_def scrub_uuids_def)
  have free: "map_of ex_dir (tname (scrub_cut_env (ex_scrub_env True)) k) = None" if "k < 4" for k
    using bspec [OF scrub_objectsD(8) [OF ex_scrub_objects], of k True] subsetD [OF len(2), of k] that by (simp add: scrub_tname del: append.simps)
  have "inj_on (tname ?env) {0 ..< 4}" unfolding t by (rule inj_on_subset [OF inj len(2)])
  then have fr: "cut_fresh ?env [] (lo_object (bi_store (ct_backend ?s)) ''n'') (ct_files ?s) 0 (0 + length ex_entries + 1)"
    using V len(1) free by (simp add: cut_fresh_def t)
  have "local_ok ex_local_env (ex_bi_env (local_api ex_local_env)) ''n'' (ct_backend ?s)" using ex_local_ok by simp
  moreover have "cu_api ?env = backend_api (ex_bi_env (local_api ex_local_env)) None ''n''" "cu_tlog ?env = le_tlog ex_local_env"
    by (simp_all add: se_api_def ex_scrub_env_def)
  ultimately show ?thesis using TLogCutter_pieces [OF _ _ _ fr, of ex_local_env "ex_bi_env (local_api ex_local_env)" None] ex_good len(1) by auto
qed

end
