(* ===== verification/Spec2Isabelle.thy ===== *)
theory Spec2Isabelle
  imports Persistor_Properties Replay Scrubber_Properties
begin

text \<open>
  A verification library of the volumedriver, the block device layer of Open vStorage
  (src/src/volumedriver, src/src/backend, src/src/youtils).

  \<^bold>\<open>The program.\<close> A volume is a log. Clusters that are written go to \<^emph>\<open>SCOs\<close>, objects of many clusters on an object
  store (the \<^emph>\<open>backend\<close>), and for each of them an entry (address, location, hash) goes to a \<^emph>\<open>TLog\<close>, an object
  too. The \<^emph>\<open>metadata store\<close> maps addresses to locations; it is rebuilt from the TLogs when it is lost. The
  \<^emph>\<open>snapshot persistor\<close> is the database (snapshots.xml) of all TLogs and of the snapshots, which are marks in the
  sequence of TLogs. The \<^emph>\<open>scrubber\<close> rewrites the TLogs and the SCOs of a snapshot without what was overwritten.

  \<^bold>\<open>Parts and theories.\<close> A theory names its source files in its first text block; the functions keep their names,
  with the class as a prefix where two classes share a name.

  \<^item> \<open>VD_Prelude\<close>, \<open>Effects\<close>: results with the errors of the code as values, words, ordered maps; state changing code
    that may throw is a function from the state to a result and the state that is left behind, also after an
    exception (\<open>sm\<close>, \<open>sbind\<close>, \<open>scatch\<close>).
  \<^item> \<open>TLogs\<close>, \<open>Snapshots\<close>, \<open>Snapshot_Persistor\<close>: TLog.cpp, Snapshot.cpp, SnapshotPersistor.cpp, one function per
    operation. \<open>Persistor_Invariant\<close> proves the invariant of the database for every operation and
    \<open>Persistor_Properties\<close> for every state that is reached from a new one, and what each operation does to the
    sequence of TLogs.
  \<^item> \<open>Locations\<close>: SCO.cpp, ClusterLocation.cpp, Entry.cpp; names and their parsers, at the widths of the code.
  \<^item> \<open>Metadata_Backend\<close>: RocksDBMetaDataBackend.cpp and TokyoCabinetMetaDataBackend.cpp over a key-value database that
    is a parameter (locales \<open>kv_database\<close>, \<open>kv_database_reliable\<close>); both are proved to keep the contract
    \<open>metadata_backend\<close>. \<open>Cached_Metadata_Store\<close>: CachedMetaDataStore.cpp, with its corks, its pages and their
    replacement. \<open>Metadata_Store_Refinement\<close> shows that it refines a plain map from addresses to locations on every
    backend that keeps the contract; \<open>Metadata_Store_Properties\<close> states this for the two databases, together with
    uncorking, restart, replay and relocation.
  \<^item> \<open>Check_Sums\<close>: both CRC-32C routines of CheckSum.cpp agree with the bitwise definition. \<open>TLog_IO\<close>: TLogWriter.cpp and
    the readers, on the bytes of the files; what is written is read, forwards and backwards.
  \<^item> \<open>Threaded_Generator\<close>: Generator.h, with the two threads of a threaded generator as a step relation; order, bound of
    the channel, absence of deadlock, termination. \<open>Page_Generator\<close>: PageGenerator.h. \<open>Replay\<close> composes writer, reader,
    generators and metadata store: the replay of TLogs gives the last location of every address.
  \<^item> \<open>Scrub_Metadata\<close>: TLogSplitter.cpp, PartScrubber.cpp, TLogMerger.h; the metadata scrub keeps exactly the last
    entry of every address.
  \<^item> \<open>Local_Backend\<close>: Local_Connection.cpp with LRUCache.h. \<open>Backend_Interface\<close>: ConnectionPool.cpp, the pool selectors,
    BackendInterface.cpp with its retries; the locale \<open>object_store\<close> is what the scrubber relies on, and the backend
    interface on a local store is proved to provide it.
  \<^item> \<open>Scrub_Data\<close>: SCOPool.cpp. \<open>Scrub_Pool\<close>, \<open>Scrub_Rewrite\<close>, \<open>Scrub_Run\<close> follow it through its loop, \<open>Scrub_Result\<close> merges
    its TLogs: which SCOs are scrubbed, the names of the new ones, their content, and that every entry names the
    same data as before.
  \<^item> \<open>TLog_Cutters\<close>: TLogCutter.cpp and TheSonOfTLogCutter.cpp, by way of the locale \<open>tlog_cutter\<close>. \<open>Scrubber\<close>: Scrubber.cpp.
    \<open>Scrubber_Correct\<close>, \<open>Scrubber_Apply\<close> and \<open>Scrubber_Properties\<close> prove the scrubber correct from the snapshots file
    to the deletion of the old objects.

  \<^bold>\<open>State.\<close> An object of the code is a record of its members. Files and objects are lists of bytes, a directory is a
  map. Integers have the width of the code (\<open>u8\<close> to \<open>u64\<close>, UUIDs of 128 bits) and wrap. Iterators into vectors are
  indices. An assertion (\<^verbatim>\<open>VERIFY\<close>, and \<^verbatim>\<open>ASSERT\<close> of the debug build) is an error value; undefined behaviour is the
  error \<open>UndefinedBehaviour\<close>, and the properties show that it is not reached.

  \<^bold>\<open>Loops.\<close> Loops over containers are recursive functions on lists. Loops with another bound take it as an argument:
  the search for a pool makes one round over the pools (\<open>ns_pool_loop\<close>, \<open>rr_pool_loop\<close>), a request makes as many
  attempts as are configured (\<open>do_wrap_loop\<close>), the search for the name of a SCO tries the 255 versions that the code
  tries (\<open>new_name_loop\<close>), and the iterators of the pool of SCOs move at most to the end of the table. Readers that
  are run to their end are partial functions; that they end is proved (\<open>read_all_ok\<close>). The step relation of the
  threaded generator has a measure that every step decreases.

  \<^bold>\<open>Parameters.\<close> Key-value databases, the hash of a cluster, MD5, the archives of boost, the clock, random numbers and
  UUIDs, the names that \<^verbatim>\<open>mkstemp\<close> chooses, and the floating point numbers of the access data. What is assumed of
  them is a hypothesis of the properties that need it: that the UUIDs that are drawn differ and are not in use, that
  the text of a UUID is one and determines it, that \<^verbatim>\<open>mkstemp\<close> does not choose a name in use, that a random index is
  in its range.

  \<^bold>\<open>Not modelled.\<close> \<^verbatim>\<open>Volume\<close>, \<^verbatim>\<open>VolManager\<close> and \<^verbatim>\<open>SnapshotManagement\<close>, which call the parts above under locks and from thread
  pools; the SCO cache and the data store, which place files on mount points; the cluster cache, which manages
  raw devices; the fail-over cache, a network protocol; the Arakoon and MDS metadata backends and the S3 and Alba
  connections, which are clients of remote services; locks on the backend; configuration, logging and start-up;
  the filesystem (FUSE, ZeroMQ, protobuf, Arakoon), its Python and NFS front ends, and the vendored libraries. Of the
  modelled classes, locks, trace points, the log and boost archives are left out: an operation is one step,
  except in the threaded generator.
\<close>

end
